(* ===== verification/Prelude.thy ===== *)
theory Prelude
  imports Main "HOL-Library.Multiset" "HOL-Library.Monad_Syntax"
begin

text \<open>
  Shared ground of the development: the error values that stand for the exceptions and the
  undefined behaviour of the C++ code, checked list access, and generic lemmas on lists,
  counting and finite maps. Nothing here models a function of the program itself.
\<close>

named_theorems path_simps \<open>unfolding of the path builders\<close>
named_theorems enum_simps \<open>evaluation of the enum tables\<close>

section \<open>Errors\<close>

text \<open>
  How a C++ operation fails to return: reading a vector out of range (undefined behaviour for
  \<open>operator[]\<close>, an exception for \<open>at\<close>), dereferencing an end iterator, taking the back of an
  empty vector, an exception of \<open>std::filesystem\<close>, and a \<open>std::length_error\<close>.
\<close>

datatype error = OutOfRange | EndIterator | EmptyBack | FsError | LengthError

definition guard_some :: "error \<Rightarrow> 'a option \<Rightarrow> error + 'a" where
  "guard_some e x = (case x of None \<Rightarrow> Inl e | Some v \<Rightarrow> Inr v)"

lemma guard_some_simps [simp]:
  "guard_some e None = Inl e"
  "guard_some e (Some v) = Inr v"
  by (simp_all add: guard_some_def)

lemma guard_some_Inr [simp]: "guard_some e x = Inr v \<longleftrightarrow> x = Some v"
  by (cases x) auto

text \<open>Checked read of a vector.\<close>

definition nth_opt :: "'a list \<Rightarrow> nat \<Rightarrow> 'a option" where
  "nth_opt xs i = (if i < length xs then Some (xs ! i) else None)"

lemma nth_opt_simps [simp]:
  "i < length xs \<Longrightarrow> nth_opt xs i = Some (xs ! i)"
  "\<not> i < length xs \<Longrightarrow> nth_opt xs i = None"
  by (simp_all add: nth_opt_def)

lemma nth_opt_Some: "nth_opt xs i = Some x \<longleftrightarrow> i < length xs \<and> x = xs ! i"
  by (auto simp: nth_opt_def)

text \<open>Sequencing of fallible steps, and a fallible map that stops at the first error.\<close>

definition and_then :: "error + 'a \<Rightarrow> ('a \<Rightarrow> error + 'b) \<Rightarrow> error + 'b" where
  "and_then x f = (case x of Inl e \<Rightarrow> Inl e | Inr v \<Rightarrow> f v)"

lemma and_then_simps [simp]:
  "and_then (Inl e) f = Inl e"
  "and_then (Inr v) f = f v"
  by (simp_all add: and_then_def)

lemma and_then_Inr: "and_then x f = Inr w \<longleftrightarrow> (\<exists>v. x = Inr v \<and> f v = Inr w)"
  by (cases x) auto

fun traverse :: "('a \<Rightarrow> error + 'b) \<Rightarrow> 'a list \<Rightarrow> error + 'b list" where
  "traverse f [] = Inr []"
| "traverse f (x # xs) = and_then (f x) (\<lambda>y. and_then (traverse f xs) (\<lambda>ys. Inr (y # ys)))"

lemma traverse_Inr: "(\<And>x. x \<in> set xs \<Longrightarrow> f x = Inr (g x)) \<Longrightarrow> traverse f xs = Inr (map g xs)"
  by (induction xs) auto

section \<open>Lists\<close>

lemma filter_remove1_notin: "\<not> P x \<Longrightarrow> filter P (remove1 x xs) = filter P xs"
  by (induction xs) auto

lemma count_list_append [simp]: "count_list (xs @ ys) x = count_list xs x + count_list ys x"
  by (induction xs) auto

lemma count_list_pos: "0 < count_list xs x \<longleftrightarrow> x \<in> set xs"
  by (induction xs) auto

lemma distinct_remove1_set: "distinct xs \<Longrightarrow> set (remove1 x xs) = set xs - {x}"
  by (rule set_remove1_eq)

lemma prefix_eq_by_length:
  "xs @ ys = us @ vs \<Longrightarrow> length xs = length us \<Longrightarrow> xs = us \<and> ys = vs"
  by simp

text \<open>
  Splitting at the first occurrence of a separator is unambiguous: the tool behind the
  injectivity of file names built from numbers.
\<close>

lemma separator_unique:
  assumes "xs @ s # ys = us @ s # vs" and "s \<notin> set xs" and "s \<notin> set us"
  shows "xs = us \<and> ys = vs"
  using assms
proof (induction xs arbitrary: us)
  case Nil
  then show ?case by (cases us) auto
next
  case (Cons x xs)
  then show ?case by (cases us) auto
qed

section \<open>Maps\<close>

lemma dom_fun_upd_None [simp]: "dom (m(k := None)) = dom m - {k}"
  by auto

lemma ran_fun_upd_None: "ran (m(k := None)) \<subseteq> ran m"
  by (auto simp: ran_def)

section \<open>Reachability\<close>

text \<open>The states of a transition system, and the contract of an invariant of one.\<close>

inductive reachable :: "('s \<Rightarrow> bool) \<Rightarrow> ('s \<Rightarrow> 's \<Rightarrow> bool) \<Rightarrow> 's \<Rightarrow> bool"
  for init :: "'s \<Rightarrow> bool" and step :: "'s \<Rightarrow> 's \<Rightarrow> bool" where
  start: "init s \<Longrightarrow> reachable init step s"
| next_state: "reachable init step s \<Longrightarrow> step s s' \<Longrightarrow> reachable init step s'"

locale invariant_system =
  fixes init :: "'s \<Rightarrow> bool" and step :: "'s \<Rightarrow> 's \<Rightarrow> bool" and holds :: "'s \<Rightarrow> bool"
  assumes init_holds: "init s \<Longrightarrow> holds s"
    and step_holds: "holds s \<Longrightarrow> step s s' \<Longrightarrow> holds s'"
begin

lemma reachable_holds: "reachable init step s \<Longrightarrow> holds s"
  by (induction rule: reachable.induct) (blast intro: init_holds step_holds)+

end

end
