(* ===== verification/TextFmt.thy ===== *)
theory TextFmt
  imports Prelude
begin

text \<open>
  The decimal formatting of integers the program uses everywhere (\<open>std::to_string\<close>), with its
  inverse and its injectivity, and the zero padding \<open>PadInt\<close> of \<open>src/tioj/paths.cpp\<close> and
  \<open>src/paths.cpp\<close>.
\<close>

section \<open>Decimal digits\<close>

definition digit_char :: "nat \<Rightarrow> char" where
  "digit_char d = ''0123456789'' ! d"

definition digit_val :: "char \<Rightarrow> nat" where
  "digit_val c = of_char c - 48"

definition isdigit :: "char \<Rightarrow> bool" where
  "isdigit c \<longleftrightarrow> 48 \<le> (of_char c :: nat) \<and> (of_char c :: nat) \<le> 57"

lemma less_10_cases:
  "(d::nat) < 10 \<Longrightarrow> d = 0 \<or> d = 1 \<or> d = 2 \<or> d = 3 \<or> d = 4 \<or> d = 5 \<or> d = 6 \<or> d = 7 \<or> d = 8 \<or> d = 9"
  by arith

lemma digit_val_char [simp]: "d < 10 \<Longrightarrow> digit_val (digit_char d) = d"
  by (drule less_10_cases) (auto simp: digit_val_def digit_char_def)

lemma isdigit_char [simp]: "d < 10 \<Longrightarrow> isdigit (digit_char d)"
  by (drule less_10_cases) (auto simp: isdigit_def digit_char_def)

section \<open>\<open>std::to_string\<close>\<close>

fun nat_to_string :: "nat \<Rightarrow> string" where
  "nat_to_string n =
     (if n < 10 then [digit_char n] else nat_to_string (n div 10) @ [digit_char (n mod 10)])"

declare nat_to_string.simps [simp del]

definition to_string :: "int \<Rightarrow> string" where
  "to_string x = (if x < 0 then ''-'' @ nat_to_string (nat (- x)) else nat_to_string (nat x))"

definition parse_nat :: "string \<Rightarrow> nat" where
  "parse_nat s = foldl (\<lambda>a c. 10 * a + digit_val c) 0 s"

lemma parse_nat_snoc: "parse_nat (s @ [c]) = 10 * parse_nat s + digit_val c"
  by (simp add: parse_nat_def)

lemma nat_to_string_small: "n < 10 \<Longrightarrow> nat_to_string n = [digit_char n]"
  by (simp add: nat_to_string.simps)

lemma nat_to_string_step:
  "\<not> n < 10 \<Longrightarrow> nat_to_string n = nat_to_string (n div 10) @ [digit_char (n mod 10)]"
  by (subst nat_to_string.simps) simp

lemma parse_nat_to_string [simp]: "parse_nat (nat_to_string n) = n"
proof (induction n rule: nat_to_string.induct)
  case (1 n)
  show ?case
  proof (cases "n < 10")
    case True
    then show ?thesis by (simp add: nat_to_string_small parse_nat_def)
  next
    case False
    with "1.IH" show ?thesis by (simp add: nat_to_string_step parse_nat_snoc)
  qed
qed

lemma nat_to_string_digits: "c \<in> set (nat_to_string n) \<Longrightarrow> isdigit c"
proof (induction n rule: nat_to_string.induct)
  case (1 n)
  show ?case
  proof (cases "n < 10")
    case True
    with "1.prems" show ?thesis by (simp add: nat_to_string_small)
  next
    case False
    with 1 show ?thesis by (auto simp: nat_to_string_step)
  qed
qed

lemma nat_to_string_nonempty [simp]: "nat_to_string n \<noteq> []"
  by (subst nat_to_string.simps) simp

lemma nat_to_string_inj: "nat_to_string m = nat_to_string n \<Longrightarrow> m = n"
  by (metis parse_nat_to_string)

lemma isdigit_not_minus: "\<not> isdigit CHR ''-''"
  by (simp add: isdigit_def)

lemma isdigit_not_underscore: "\<not> isdigit CHR ''_''"
  by (simp add: isdigit_def)

lemma isdigit_not_slash: "\<not> isdigit CHR ''/''"
  by (simp add: isdigit_def)

lemma nat_to_string_no_minus: "nat_to_string n \<noteq> CHR ''-'' # s"
  by (metis isdigit_not_minus list.set_intros(1) nat_to_string_digits)

lemma to_string_inj: "to_string x = to_string y \<Longrightarrow> x = y"
  by (auto simp: to_string_def nat_to_string_no_minus nat_to_string_no_minus [symmetric]
      split: if_splits dest!: nat_to_string_inj)

lemma length_nat_to_string: "n < 10 ^ k \<Longrightarrow> 0 < k \<Longrightarrow> length (nat_to_string n) \<le> k"
proof (induction k arbitrary: n)
  case 0
  then show ?case by simp
next
  case (Suc k)
  show ?case
  proof (cases "n < 10")
    case True
    then show ?thesis by (simp add: nat_to_string_small)
  next
    case False
    with Suc.prems have "n div 10 < 10 ^ k" and "0 < k"
      by (auto simp: less_mult_imp_div_less mult.commute intro!: gr0I)
    with Suc.IH False show ?thesis by (simp add: nat_to_string_step)
  qed
qed

section \<open>\<open>PadInt\<close>\<close>

definition PadInt :: "int \<Rightarrow> nat \<Rightarrow> string" where
  "PadInt x width =
     (let ret = to_string x
      in if length ret < width then replicate (width - length ret) CHR ''0'' @ ret else ret)"

lemma parse_nat_zeros: "parse_nat (replicate k CHR ''0'' @ s) = parse_nat s"
proof -
  have "foldl (\<lambda>a c. 10 * a + digit_val c) 0 (replicate k CHR ''0'') = 0"
    by (induction k) (simp_all add: digit_val_def)
  then show ?thesis by (simp add: parse_nat_def)
qed

lemma parse_PadInt: "0 \<le> x \<Longrightarrow> parse_nat (PadInt x w) = nat x"
  by (simp add: PadInt_def Let_def to_string_def parse_nat_zeros)

lemma PadInt_inj: "PadInt x w = PadInt y w \<Longrightarrow> 0 \<le> x \<Longrightarrow> 0 \<le> y \<Longrightarrow> x = y"
  by (metis parse_PadInt nat_eq_iff)

lemma PadInt_digits: "0 \<le> x \<Longrightarrow> c \<in> set (PadInt x w) \<Longrightarrow> isdigit c"
  by (auto simp: PadInt_def Let_def to_string_def isdigit_def split: if_splits
      dest!: nat_to_string_digits)

lemma PadInt_width: "w \<le> length (PadInt x w)"
  by (simp add: PadInt_def Let_def)

lemma PadInt_no_underscore: "0 \<le> x \<Longrightarrow> CHR ''_'' \<notin> set (PadInt x w)"
  using PadInt_digits isdigit_not_underscore by blast

lemma PadInt_no_slash: "0 \<le> x \<Longrightarrow> CHR ''/'' \<notin> set (PadInt x w)"
  using PadInt_digits isdigit_not_slash by blast

end
