(* ===== verification/Enums.thy ===== *)
theory Enums
  imports TextFmt
begin

text \<open>
  The enumerations of \<open>include/tioj/submission.h\<close> and \<open>include/tioj/tasks.h\<close> and their name
  tables and look-ups of \<open>src/tioj/utils.cpp\<close>. Enumerators that two C++ enums share get a
  prefix here (\<open>NONE\<close>, \<open>CUSTOM\<close>, \<open>SUMMARY\<close>).
\<close>

section \<open>Enumerations\<close>

datatype SpecjudgeType =
  NORMAL | SPECJUDGE_OLD | SPECJUDGE_NEW | SPECJUDGE_POLYGON | SPECJUDGE_KATTIS | SKIP

datatype InterlibType = Interlib_NONE | Interlib_INCLUDE

datatype SummaryType = Summary_NONE | Summary_CUSTOM

datatype Compiler =
  GCC_CPP_98 | GCC_CPP_11 | GCC_CPP_14 | GCC_CPP_17 | GCC_CPP_20
  | GCC_C_90 | GCC_C_99 | GCC_C_11 | GCC_C_17
  | RUSTC_RUST_2021 | HASKELL | PYTHON2 | PYTHON3 | CUSTOM

datatype Verdict =
  NUL | AC | WA | TLE | MLE | OLE | RE | SIG | JRE | EE | CE | CLE | JCE | JE

datatype TaskType = COMPILE | EXECUTE | SCORING | SUMMARY

datatype CompileSubtask = CS_USERPROG | CS_SPECJUDGE | CS_SUMMARY | CS_PROBPROG

text \<open>The enumerators in declaration order; \<open>(int)x\<close> is the position.\<close>

definition verdict_enum :: "Verdict list" where
  "verdict_enum = [NUL, AC, WA, TLE, MLE, OLE, RE, SIG, JRE, EE, CE, CLE, JCE, JE]"

definition compiler_enum :: "Compiler list" where
  "compiler_enum =
     [GCC_CPP_98, GCC_CPP_11, GCC_CPP_14, GCC_CPP_17, GCC_CPP_20,
      GCC_C_90, GCC_C_99, GCC_C_11, GCC_C_17,
      RUSTC_RUST_2021, HASKELL, PYTHON2, PYTHON3, CUSTOM]"

fun verdict_int :: "Verdict \<Rightarrow> nat" where
  "verdict_int NUL = 0" | "verdict_int AC = 1" | "verdict_int WA = 2" | "verdict_int TLE = 3"
| "verdict_int MLE = 4" | "verdict_int OLE = 5" | "verdict_int RE = 6" | "verdict_int SIG = 7"
| "verdict_int JRE = 8" | "verdict_int EE = 9" | "verdict_int CE = 10" | "verdict_int CLE = 11"
| "verdict_int JCE = 12" | "verdict_int JE = 13"

fun compiler_int :: "Compiler \<Rightarrow> nat" where
  "compiler_int GCC_CPP_98 = 0" | "compiler_int GCC_CPP_11 = 1" | "compiler_int GCC_CPP_14 = 2"
| "compiler_int GCC_CPP_17 = 3" | "compiler_int GCC_CPP_20 = 4" | "compiler_int GCC_C_90 = 5"
| "compiler_int GCC_C_99 = 6" | "compiler_int GCC_C_11 = 7" | "compiler_int GCC_C_17 = 8"
| "compiler_int RUSTC_RUST_2021 = 9" | "compiler_int HASKELL = 10" | "compiler_int PYTHON2 = 11"
| "compiler_int PYTHON3 = 12" | "compiler_int CUSTOM = 13"

fun subtask_int :: "CompileSubtask \<Rightarrow> nat" where
  "subtask_int CS_USERPROG = 0" | "subtask_int CS_SPECJUDGE = 1"
| "subtask_int CS_SUMMARY = 2" | "subtask_int CS_PROBPROG = 3"

lemma verdict_int_enum [simp]: "verdict_enum ! verdict_int v = v"
  by (cases v) (simp_all add: verdict_enum_def)

lemma verdict_int_bound: "verdict_int v < length verdict_enum"
  by (cases v) (simp_all add: verdict_enum_def)

lemma verdict_int_inj [simp]: "verdict_int v = verdict_int w \<longleftrightarrow> v = w"
  by (metis verdict_int_enum)

lemma compiler_int_enum [simp]: "compiler_enum ! compiler_int c = c"
  by (cases c) (simp_all add: compiler_enum_def)

lemma subtask_int_inj: "subtask_int a = subtask_int b \<longleftrightarrow> a = b"
  by (cases a; cases b) simp_all

text \<open>
  Enums compare by their underlying integers; \<open>std::max\<close> on verdicts and the comparisons
  \<open>(int)a < (int)b\<close> are the order below.
\<close>

instantiation Verdict :: linorder
begin

definition less_eq_Verdict :: "Verdict \<Rightarrow> Verdict \<Rightarrow> bool" where
  "less_eq_Verdict a b \<longleftrightarrow> verdict_int a \<le> verdict_int b"

definition less_Verdict :: "Verdict \<Rightarrow> Verdict \<Rightarrow> bool" where
  "less_Verdict a b \<longleftrightarrow> verdict_int a < verdict_int b"

instance
  by standard (auto simp: less_eq_Verdict_def less_Verdict_def)

end

lemmas verdict_order = less_eq_Verdict_def less_Verdict_def

lemma NUL_least [simp]: "NUL \<le> v"
  by (simp add: verdict_order)

section \<open>Name tables\<close>

definition kVerdictAbrTable :: "string list" where
  "kVerdictAbrTable =
     ['''', ''AC'', ''WA'', ''TLE'', ''MLE'', ''OLE'', ''RE'', ''SIG'', ''JRE'', ''EE'',
      ''CE'', ''CLE'', ''JCE'', ''JE'']"

definition kCompilerNameTable :: "string list" where
  "kCompilerNameTable =
     [''c++98'', ''c++11'', ''c++14'', ''c++17'', ''c++20'', ''c90'', ''c99'', ''c11'', ''c17'',
      ''rust 2021'', ''haskell'', ''python2'', ''python3'', ''custom'']"

definition VerdictToAbr :: "Verdict \<Rightarrow> string" where
  "VerdictToAbr v = kVerdictAbrTable ! verdict_int v"

definition CompilerName :: "Compiler \<Rightarrow> string" where
  "CompilerName c = kCompilerNameTable ! compiler_int c"

fun VerdictToDesc :: "Verdict \<Rightarrow> string" where
  "VerdictToDesc NUL = ''nil''"
| "VerdictToDesc AC = ''Accepted''"
| "VerdictToDesc WA = ''Wrong Answer''"
| "VerdictToDesc TLE = ''Time Limit Exceeded''"
| "VerdictToDesc MLE = ''Memory Limit Exceeded''"
| "VerdictToDesc OLE = ''Output Limit Exceeded''"
| "VerdictToDesc RE = ''Runtime Error (exited with nonzero status)''"
| "VerdictToDesc SIG = ''Runtime Error (exited with signal)''"
| "VerdictToDesc JRE = ''Judge Runtime Error''"
| "VerdictToDesc EE = ''Execution Error''"
| "VerdictToDesc CE = ''Compile Error''"
| "VerdictToDesc CLE = ''Compilation Limit Exceeded''"
| "VerdictToDesc JCE = ''Judge Compilation Error''"
| "VerdictToDesc JE = ''Judge Error''"

text \<open>The linear searches \<open>for (i = lo; i < hi; i++) if (str == table[i]) ...\<close>.\<close>

fun table_scan :: "string list \<Rightarrow> string \<Rightarrow> nat list \<Rightarrow> nat option" where
  "table_scan tab s [] = None"
| "table_scan tab s (i # is) = (if s = tab ! i then Some i else table_scan tab s is)"

definition AbrToVerdict :: "string \<Rightarrow> bool \<Rightarrow> Verdict" where
  "AbrToVerdict str runtime_only =
     (case table_scan kVerdictAbrTable str [verdict_int AC ..< verdict_int CE] of
        Some i \<Rightarrow> verdict_enum ! i
      | None \<Rightarrow>
          if runtime_only then NUL
          else if str = ''ER'' then JCE
          else (case table_scan kVerdictAbrTable str [verdict_int CE ..< Suc (verdict_int JE)] of
                  Some i \<Rightarrow> verdict_enum ! i
                | None \<Rightarrow> NUL))"

definition GetCompiler :: "string \<Rightarrow> Compiler" where
  "GetCompiler str =
     (case table_scan kCompilerNameTable str [0 ..< length kCompilerNameTable] of
        Some i \<Rightarrow> compiler_enum ! i
      | None \<Rightarrow> GCC_CPP_14)"

section \<open>The contract of a name table\<close>

text \<open>
  Both look-ups search a table of names by position. What makes them inverse to the printing
  direction is that no name occurs twice in the range searched.
\<close>

locale name_table =
  fixes tab :: "string list" and lo hi :: nat
  assumes range_ok: "hi \<le> length tab"
    and no_dup: "distinct (drop lo (take hi tab))"
begin

lemma scan_sound: "table_scan tab s is = Some i \<Longrightarrow> i \<in> set is \<and> tab ! i = s"
  by (induction "is") (auto split: if_splits)

lemma nth_eq: "\<lbrakk>lo \<le> i; i < hi; lo \<le> j; j < hi; tab ! i = tab ! j\<rbrakk> \<Longrightarrow> i = j"
proof -
  assume i: "lo \<le> i" "i < hi" and j: "lo \<le> j" "j < hi" and eq: "tab ! i = tab ! j"
  let ?d = "drop lo (take hi tab)"
  have "?d ! (i - lo) = ?d ! (j - lo)"
    using i j eq range_ok by simp
  moreover have "i - lo < length ?d" and "j - lo < length ?d"
    using i j range_ok by auto
  ultimately have "i - lo = j - lo"
    using no_dup by (simp add: nth_eq_iff_index_eq)
  then show "i = j" using i j by simp
qed

lemma scan_complete: "i \<in> set is \<Longrightarrow> \<exists>j. table_scan tab (tab ! i) is = Some j"
  by (induction "is") auto

lemma scan_nth: "\<lbrakk>lo \<le> i; i < hi\<rbrakk> \<Longrightarrow> table_scan tab (tab ! i) [lo ..< hi] = Some i"
proof -
  assume i: "lo \<le> i" "i < hi"
  then have "i \<in> set [lo ..< hi]" by simp
  then obtain j where j: "table_scan tab (tab ! i) [lo ..< hi] = Some j"
    using scan_complete by blast
  then have "j \<in> set [lo ..< hi]" and "tab ! j = tab ! i"
    using scan_sound by blast+
  then have "j = i" using nth_eq i by simp
  with j show ?thesis by simp
qed

lemma scan_None: "table_scan tab s is = None \<longleftrightarrow> (\<forall>i \<in> set is. tab ! i \<noteq> s)"
  by (induction "is") auto

end

interpretation rt: name_table kVerdictAbrTable 1 10
  by unfold_locales (simp_all add: kVerdictAbrTable_def)

interpretation ct: name_table kVerdictAbrTable 10 14
  by unfold_locales (simp_all add: kVerdictAbrTable_def)

interpretation cn: name_table kCompilerNameTable 0 14
  by unfold_locales (simp_all add: kCompilerNameTable_def)

section \<open>Properties\<close>

text \<open>
  The tables are inverse to the look-ups: the abbreviation of a verdict of a run is read back as it where
  only such verdicts are allowed, that of any verdict where all are, and the name of a compiler as the
  compiler; an unknown abbreviation is no verdict, and an unknown name is C++14.
\<close>

theorem names_roundtrip:
  "AbrToVerdict (VerdictToAbr v) False = v \<and>
   AbrToVerdict (VerdictToAbr v) True = (if v < CE then v else NUL) \<and>
   GetCompiler (CompilerName c) = c \<and>
   (if s \<in> set (''ER'' # map VerdictToAbr verdict_enum) then True else AbrToVerdict s False = NUL) \<and>
   (if s \<in> set kCompilerNameTable then True else GetCompiler s = GCC_CPP_14)"
proof (intro conjI)
  show "AbrToVerdict (VerdictToAbr v) False = v" by (induct v; code_simp)
  show "AbrToVerdict (VerdictToAbr v) True = (if v < CE then v else NUL)" by (induct v; code_simp)
  show "GetCompiler (CompilerName c) = c"
  proof -
    have "compiler_int c < 14" by (cases c) simp_all
    moreover have "length kCompilerNameTable = 14" by (simp add: kCompilerNameTable_def)
    ultimately show ?thesis
      by (simp only: GetCompiler_def CompilerName_def cn.scan_nth [of "compiler_int c"] option.case compiler_int_enum le0)
  qed
  have t: "map VerdictToAbr verdict_enum = kVerdictAbrTable" by code_simp
  have n: "table_scan tab s is = None" if "s \<notin> set tab" "set is \<subseteq> {0 ..< length tab}" for tab "is"
    using that by (induction "is") auto
  show "if s \<in> set (''ER'' # map VerdictToAbr verdict_enum) then True else AbrToVerdict s False = NUL"
    unfolding t using n [of kVerdictAbrTable] by (auto simp: AbrToVerdict_def kVerdictAbrTable_def)
  show "if s \<in> set kCompilerNameTable then True else GetCompiler s = GCC_CPP_14"
    using n [of kCompilerNameTable] by (simp add: GetCompiler_def)
qed

end
