(* ===== verification/LongDouble.thy ===== *)
theory LongDouble
  imports Complex_Main "HOL-Library.Log_Nat" Prelude
begin

text \<open>
  The floating-point arithmetic the program does on scores and times: x87 \<open>long double\<close> (64-bit
  significand) and IEEE \<open>double\<close> (53-bit significand), both round-to-nearest-even. A finite
  value is the rational it denotes; overflow goes to an infinity; the subnormal range is not
  distinguished (every use scales the value up and rounds it to an integer).
\<close>

lemma abs_diff_chain:
  fixes a :: rat
  shows "\<bar>a - b\<bar> \<le> d \<Longrightarrow> \<bar>b - c\<bar> \<le> e \<Longrightarrow> d + e \<le> f \<Longrightarrow> \<bar>a - c\<bar> \<le> f"
  using abs_triangle_ineq [of "a - b" "b - c"] by simp

section \<open>Rounding a rational to \<open>p\<close> significant bits\<close>

definition round_half_even :: "rat \<Rightarrow> int" where
  "round_half_even x =
     (let f = \<lfloor>x\<rfloor>; r = x - of_int f
      in if r < 1/2 then f else if 1/2 < r then f + 1 else if even f then f else f + 1)"

lemma round_half_even_err: "\<bar>of_int (round_half_even x) - x\<bar> \<le> 1/2"
proof -
  define r where "r = x - of_int \<lfloor>x\<rfloor>"
  have "0 \<le> r" and "r < 1" by (simp_all add: r_def, linarith)
  moreover have "of_int \<lfloor>x\<rfloor> - x = - r" by (simp add: r_def)
  ultimately show ?thesis
    by (auto simp: round_half_even_def Let_def r_def [symmetric] abs_le_iff algebra_simps)
qed

lemma round_half_even_int [simp]: "round_half_even (of_int n) = n"
  by (simp add: round_half_even_def)

lemma bitlen_pos_iff: "0 < bitlen n \<longleftrightarrow> 0 < n"
  using bitlen_eq_zero_iff [of n] bitlen_nonneg [of n] by auto

text \<open>The exponent of the leading bit of a positive rational.\<close>

definition ilog2 :: "rat \<Rightarrow> int" where
  "ilog2 q = (if 1 \<le> q then bitlen \<lfloor>q\<rfloor> - 1 else - bitlen (\<lceil>1 / q\<rceil> - 1))"

lemma ilog2_lower: "0 < q \<Longrightarrow> 2 powi (ilog2 q) \<le> q"
proof (cases "1 \<le> q")
  case True
  then have f: "0 < \<lfloor>q\<rfloor>" by simp
  let ?k = "bitlen \<lfloor>q\<rfloor> - 1"
  have "2 ^ nat ?k \<le> \<lfloor>q\<rfloor>" using bitlen_bounds [OF f] by simp
  then have "(2::rat) ^ nat ?k \<le> of_int \<lfloor>q\<rfloor>"
    by (metis of_int_le_iff of_int_numeral of_int_power)
  then have "(2::rat) ^ nat ?k \<le> q" using of_int_floor_le [of q] by (rule order_trans)
  moreover have "0 \<le> ?k" using f bitlen_pos_iff [of "\<lfloor>q\<rfloor>"] by linarith
  ultimately show ?thesis
    using True by (simp add: ilog2_def power_int_def)
next
  case False
  assume q: "0 < q"
  let ?m = "\<lceil>1 / q\<rceil>"
  let ?e = "bitlen (?m - 1)"
  have "1 < 1 / q" using q False by simp
  then have m: "0 < ?m - 1" by linarith
  have e: "0 < ?e" using m bitlen_pos_iff by blast
  have "?m - 1 < 2 ^ nat ?e" using bitlen_bounds [OF m] by simp
  then have "?m \<le> 2 ^ nat ?e" by simp
  then have "1 / q \<le> 2 ^ nat ?e"
    by (metis (no_types) ceiling_le_iff of_int_numeral of_int_power)
  then have "1 / 2 ^ nat ?e \<le> q"
    using q by (simp add: field_simps)
  then show ?thesis
    using False e by (simp add: ilog2_def power_int_def field_simps)
qed

lemma ilog2_upper: "0 < q \<Longrightarrow> q < 2 powi (ilog2 q + 1)"
proof (cases "1 \<le> q")
  case True
  then have f: "0 < \<lfloor>q\<rfloor>" by simp
  have "\<lfloor>q\<rfloor> + 1 \<le> 2 ^ nat (bitlen \<lfloor>q\<rfloor>)" using bitlen_bounds [OF f] by simp
  then have "of_int (\<lfloor>q\<rfloor> + 1) \<le> (2::rat) ^ nat (bitlen \<lfloor>q\<rfloor>)"
    by (metis of_int_le_iff of_int_numeral of_int_power)
  moreover have "q < of_int (\<lfloor>q\<rfloor> + 1)" by linarith
  moreover have "0 \<le> bitlen \<lfloor>q\<rfloor>" by (simp add: bitlen_nonneg)
  ultimately show ?thesis
    using True by (simp add: ilog2_def power_int_def)
next
  case False
  assume q: "0 < q"
  let ?m = "\<lceil>1 / q\<rceil>"
  let ?e = "bitlen (?m - 1)"
  have "1 < 1 / q" using q False by simp
  then have m: "0 < ?m - 1" by linarith
  have e: "0 < ?e" using m bitlen_pos_iff by blast
  have "2 ^ nat (?e - 1) \<le> ?m - 1" using bitlen_bounds [OF m] by simp
  then have "(2::rat) ^ nat (?e - 1) \<le> of_int (?m - 1)"
    by (metis of_int_le_iff of_int_numeral of_int_power)
  also have "of_int (?m - 1) < 1 / q" by linarith
  finally have "q < 1 / 2 ^ nat (?e - 1)"
    using q by (simp add: field_simps)
  also have "1 / 2 ^ nat (?e - 1) = (2::rat) powi (1 - ?e)"
    using e by (cases "?e = 1") (auto simp: power_int_def field_simps)
  finally show ?thesis using False by (simp add: ilog2_def)
qed

definition fp_round :: "nat \<Rightarrow> rat \<Rightarrow> rat" where
  "fp_round p q =
     (if q = 0 then 0
      else let u = 2 powi (ilog2 \<bar>q\<bar> - int p + 1)
           in of_int (round_half_even (q / u)) * u)"

abbreviation ld_round :: "rat \<Rightarrow> rat" where
  "ld_round \<equiv> fp_round 64"

abbreviation dbl_round :: "rat \<Rightarrow> rat" where
  "dbl_round \<equiv> fp_round 53"

lemma fp_round_0 [simp]: "fp_round p 0 = 0"
  by (simp add: fp_round_def)

lemma fp_round_err: "\<bar>fp_round p q - q\<bar> \<le> \<bar>q\<bar> / 2 ^ p"
proof (cases "q = 0")
  case True
  then show ?thesis by simp
next
  case False
  define k where "k = ilog2 \<bar>q\<bar>"
  define u :: rat where "u = 2 powi (k - int p + 1)"
  have u: "0 < u" by (simp add: u_def)
  have k: "2 powi k \<le> \<bar>q\<bar>" using False ilog2_lower [of "\<bar>q\<bar>"] by (simp add: k_def)
  have "\<bar>fp_round p q - q\<bar> = \<bar>of_int (round_half_even (q / u)) - q / u\<bar> * u"
    using False u by (simp add: fp_round_def Let_def k_def u_def abs_mult [symmetric] field_simps)
  also have "\<dots> \<le> 1/2 * u"
    by (rule mult_right_mono [OF round_half_even_err]) (use u in simp)
  also have "1/2 * u = 2 powi k / 2 ^ p"
    by (simp add: u_def power_int_add power_int_diff)
  also have "\<dots> \<le> \<bar>q\<bar> / 2 ^ p"
    using k by (simp add: divide_right_mono)
  finally show ?thesis .
qed

lemma fp_round_exact:
  assumes "\<bar>n\<bar> \<le> 2 ^ p" "0 < p"
  shows "fp_round p (of_int n) = of_int n"
proof (cases "n = 0")
  case True
  then show ?thesis by simp
next
  case False
  define k where "k = ilog2 \<bar>of_int n :: rat\<bar>"
  define u :: rat where "u = 2 powi (k - int p + 1)"
  have n1: "0 < (\<bar>of_int n\<bar> :: rat)" using False by simp
  have kle: "2 powi k \<le> (of_int \<bar>n\<bar> :: rat)" using ilog2_lower [OF n1] by (simp add: k_def)
  have k0: "0 \<le> k" using False bitlen_pos_iff [of "\<bar>n\<bar>"]
    by (auto simp: k_def ilog2_def simp flip: of_int_abs)
  have "(2::rat) powi k \<le> 2 powi int p"
  proof -
    have "(of_int \<bar>n\<bar> :: rat) \<le> of_int (2 ^ p)" using assms(1) by (simp only: of_int_le_iff)
    with kle show ?thesis by simp
  qed
  then have kp: "k \<le> int p"
    using power_int_strict_increasing [of "int p" k "2::rat"] by (cases "k \<le> int p") auto
  have "of_int n / u \<in> \<int>"
  proof (cases "k = int p")
    case True
    have "(2::rat) ^ p \<le> of_int \<bar>n\<bar>" using kle True by simp
    then have "2 ^ p \<le> \<bar>n\<bar>" by (metis of_int_le_iff of_int_numeral of_int_power)
    with assms(1) have "\<bar>n\<bar> = 2 ^ p" by simp
    then have "n = 2 ^ p \<or> n = - (2 ^ p)" by linarith
    moreover have "u = 2" by (simp add: u_def True)
    moreover obtain p' where "p = Suc p'" using assms(2) by (cases p) auto
    ultimately show ?thesis by auto
  next
    case False
    then have "k - int p + 1 \<le> 0" using kp by simp
    then have "of_int n / u = of_int n * (2::rat) ^ nat (int p - 1 - k)"
      by (simp add: u_def power_int_def field_simps)
    then show ?thesis by simp
  qed
  then obtain z where z: "of_int n / u = of_int z" by (auto elim: Ints_cases)
  have u0: "u \<noteq> 0" by (simp add: u_def)
  have "fp_round p (of_int n) = of_int (round_half_even (of_int n / u)) * u"
    using False by (simp add: fp_round_def Let_def k_def u_def)
  also have "\<dots> = of_int z * u" by (simp add: z)
  also have "\<dots> = of_int n" using z u0 by (simp add: field_simps)
  finally show ?thesis .
qed

end
