(* ===== verification/Score.thy ===== *)
theory Score
  imports LongDouble TextFmt
begin

text \<open>
  Scores and times: \<open>NormalizeScore\<close>, \<open>ScoreToString\<close> and \<open>ToUs\<close> of
  \<open>src/tioj/submission.cpp\<close>, over the values of \<open>long double\<close>. Scores are integers in units
  of \<open>10^(-6)\<close>.
\<close>

section \<open>Values of type \<open>long double\<close>\<close>

datatype ldouble = Fin rat | PInf | NInf | NaN

definition ld_huge :: rat where
  "ld_huge = 2 ^ 16384"

definition ld_fin :: "rat \<Rightarrow> ldouble" where
  "ld_fin q =
     (let r = ld_round q
      in if ld_huge \<le> r then PInf else if r \<le> - ld_huge then NInf else Fin r)"

fun ld_less :: "ldouble \<Rightarrow> ldouble \<Rightarrow> bool" where
  "ld_less (Fin a) (Fin b) = (a < b)"
| "ld_less (Fin a) PInf = True"
| "ld_less NInf (Fin b) = True"
| "ld_less NInf PInf = True"
| "ld_less _ _ = False"

text \<open>Multiplication and division by a positive finite constant.\<close>

fun ld_times :: "ldouble \<Rightarrow> rat \<Rightarrow> ldouble" where
  "ld_times (Fin a) c = ld_fin (a * c)"
| "ld_times x c = x"

fun ld_divide :: "ldouble \<Rightarrow> rat \<Rightarrow> ldouble" where
  "ld_divide (Fin a) c = ld_fin (a / c)"
| "ld_divide x c = x"

definition LONG_MIN :: int where
  "LONG_MIN = - (2 ^ 63)"

definition fits_long :: "int \<Rightarrow> bool" where
  "fits_long n \<longleftrightarrow> - (2 ^ 63) \<le> n \<and> n < 2 ^ 63"

text \<open>
  \<open>std::lround\<close> rounds half away from zero; a value outside \<open>long\<close> (infinities and NaN
  included) gives \<open>LONG_MIN\<close> on x86-64, and so does the conversion \<open>(long)x\<close>.
\<close>

definition round_away :: "rat \<Rightarrow> int" where
  "round_away x = (if x < 0 then - \<lfloor>- x + 1/2\<rfloor> else \<lfloor>x + 1/2\<rfloor>)"

definition trunc :: "rat \<Rightarrow> int" where
  "trunc x = (if x < 0 then - \<lfloor>- x\<rfloor> else \<lfloor>x\<rfloor>)"

fun lround :: "ldouble \<Rightarrow> int" where
  "lround (Fin x) = (let n = round_away x in if fits_long n then n else LONG_MIN)"
| "lround _ = LONG_MIN"

fun ld_to_long :: "ldouble \<Rightarrow> int" where
  "ld_to_long (Fin x) = (let n = trunc x in if fits_long n then n else LONG_MIN)"
| "ld_to_long _ = LONG_MIN"

section \<open>\<open>NormalizeScore\<close>, \<open>ScoreToString\<close>, \<open>ToUs\<close>\<close>

definition NormalizeScore :: "ldouble \<Rightarrow> int" where
  "NormalizeScore score =
     (let kMax = 1000000;
          score = (if ld_less (Fin kMax) score then Fin kMax else score);
          score = (if ld_less score (Fin (- kMax)) then Fin (- kMax) else score)
      in lround (ld_times score 1000000))"

text \<open>C++ division and remainder truncate towards zero.\<close>

definition cdiv :: "int \<Rightarrow> int \<Rightarrow> int" where
  "cdiv a b = sgn a * sgn b * (\<bar>a\<bar> div \<bar>b\<bar>)"

definition cmod :: "int \<Rightarrow> int \<Rightarrow> int" where
  "cmod a b = a - b * cdiv a b"

text \<open>
  \<open>std::string(6 - frac.size(), '0')\<close>: the count is unsigned, so a seven-character \<open>frac\<close> asks
  for \<open>2^64 - 1\<close> characters and the constructor throws \<open>std::length_error\<close>.
\<close>

definition ScoreToString :: "int \<Rightarrow> error + string" where
  "ScoreToString score =
     (let frac = to_string (cmod score 1000000)
      in if length frac \<le> 6
         then Inr (to_string (cdiv score 1000000) @ ''.'' @ replicate (6 - length frac) CHR ''0'' @ frac)
         else Inl LengthError)"

record timeval =
  tv_sec :: int
  tv_usec :: int

definition ToUs :: "rat \<Rightarrow> timeval \<Rightarrow> int" where
  "ToUs kTimeMultiplier v =
     ld_to_long (ld_times (ld_fin (of_int (tv_sec v * 1000000 + tv_usec v))) kTimeMultiplier)"

section \<open>Rounding errors\<close>

text \<open>
  What the score computation needs of a floating-point format: a bounded relative error, and
  exactness on integers the significand can hold.
\<close>

locale fp_format =
  fixes rnd :: "rat \<Rightarrow> rat"
  assumes err: "\<bar>rnd q - q\<bar> \<le> \<bar>q\<bar> / 2 ^ 53"
    and exact: "\<bar>n\<bar> \<le> 2 ^ 53 \<Longrightarrow> rnd (of_int n) = of_int n"
begin

lemma bound: "\<bar>q\<bar> \<le> B \<Longrightarrow> \<bar>rnd q\<bar> \<le> B + B / 2 ^ 53"
proof -
  assume q: "\<bar>q\<bar> \<le> B"
  then have "\<bar>q\<bar> / 2 ^ 53 \<le> B / 2 ^ 53" by (simp add: divide_right_mono)
  with q err [of q] show ?thesis by linarith
qed

lemma err_bound: "\<bar>q\<bar> \<le> B \<Longrightarrow> \<bar>rnd q - q\<bar> \<le> B / 2 ^ 53"
  using err [of q] by (meson divide_right_mono order_trans zero_le_numeral zero_le_power)

text \<open>The pipeline of the total score: round, divide, round, scale, round.\<close>

lemma scale_close:
  assumes "\<bar>y\<bar> \<le> 1000000" and "\<bar>x - y\<bar> \<le> d" and "0 \<le> d" and "d \<le> 1"
  shows "\<bar>rnd (x * 1000000) - y * 1000000\<bar> \<le> d * 1000000 + 1000001000000 / 2 ^ 53"
proof -
  have "\<bar>x\<bar> \<le> 1000001" using assms by linarith
  then have "\<bar>x * 1000000\<bar> \<le> 1000001000000" by (simp add: abs_mult)
  then have "\<bar>rnd (x * 1000000) - x * 1000000\<bar> \<le> 1000001000000 / 2 ^ 53" by (rule err_bound)
  moreover have "\<bar>x * 1000000 - y * 1000000\<bar> \<le> d * 1000000"
  proof -
    have "\<bar>x * 1000000 - y * 1000000\<bar> = \<bar>(x - y) * 1000000\<bar>" by (simp only: left_diff_distrib)
    also have "\<dots> = \<bar>x - y\<bar> * 1000000" by (simp only: abs_mult abs_numeral)
    finally show ?thesis using assms(2) by simp
  qed
  ultimately show ?thesis by (rule abs_diff_chain) simp
qed

lemma divide_close:
  assumes "\<bar>t\<bar> \<le> 10 ^ 20"
  shows "\<bar>rnd (rnd t / 10 ^ 14) - t / 10 ^ 14\<bar> \<le> 1 / 10 ^ 9"
proof -
  have t: "\<bar>rnd t - t\<bar> \<le> 10 ^ 20 / 2 ^ 53" using assms by (rule err_bound)
  have "\<bar>rnd t\<bar> \<le> 10 ^ 20 + 10 ^ 20 / 2 ^ 53" using assms by (rule bound)
  then have "\<bar>rnd t / 10 ^ 14\<bar> \<le> 1000001" by (simp add: abs_divide)
  then have "\<bar>rnd (rnd t / 10 ^ 14) - rnd t / 10 ^ 14\<bar> \<le> 1000001 / 2 ^ 53" by (rule err_bound)
  moreover have "\<bar>rnd t / 10 ^ 14 - t / 10 ^ 14\<bar> \<le> 10 ^ 20 / 2 ^ 53 / 10 ^ 14"
    using t by (simp add: diff_divide_distrib [symmetric] abs_divide)
  ultimately show ?thesis by (rule abs_diff_chain) simp
qed

end

interpretation ld: fp_format ld_round
proof unfold_locales
  fix q :: rat
  have "\<bar>q\<bar> / 2 ^ 64 \<le> \<bar>q\<bar> / 2 ^ 53" by (simp add: divide_left_mono)
  then show "\<bar>ld_round q - q\<bar> \<le> \<bar>q\<bar> / 2 ^ 53" using fp_round_err [of 64 q] by linarith
next
  fix n :: int
  assume "\<bar>n\<bar> \<le> 2 ^ 53"
  then have "\<bar>n\<bar> \<le> 2 ^ 64" by simp
  then show "ld_round (of_int n) = of_int n" by (rule fp_round_exact) simp
qed

interpretation dbl: fp_format dbl_round
  by unfold_locales (rule fp_round_err, rule fp_round_exact, simp_all)

section \<open>Facts on rounding to an integer\<close>

lemma round_away_lower: "x - 1/2 \<le> of_int (round_away x)"
  and round_away_upper: "of_int (round_away x) \<le> x + 1/2"
proof -
  note f = of_int_floor_le [of "x + 1/2"] of_int_floor_le [of "- x + 1/2"]
    floor_correct [of "x + 1/2"] floor_correct [of "- x + 1/2"]
  show "x - 1/2 \<le> of_int (round_away x)" "of_int (round_away x) \<le> x + 1/2"
    by (cases "x < 0"; use f in \<open>simp add: round_away_def del: of_int_floor_le; linarith\<close>)+
qed

lemma round_away_err: "\<bar>of_int (round_away x) - x\<bar> \<le> 1/2"
  using round_away_lower [of x] round_away_upper [of x] by linarith

lemma round_away_near: "\<bar>x - of_int n\<bar> < 1/2 \<Longrightarrow> round_away x = n"
proof -
  assume "\<bar>x - of_int n\<bar> < 1/2"
  then have "of_int (round_away x) < (of_int (n + 1) :: rat)"
    and "(of_int (n - 1) :: rat) < of_int (round_away x)"
    using round_away_lower [of x] round_away_upper [of x] by (simp_all, linarith+)
  then have "round_away x < n + 1" and "n - 1 < round_away x"
    by (simp_all only: of_int_less_iff)
  then show ?thesis by simp
qed

lemma round_away_bound: "\<bar>x\<bar> < of_int n + 1/2 \<Longrightarrow> \<bar>round_away x\<bar> \<le> n"
proof -
  assume "\<bar>x\<bar> < of_int n + 1/2"
  then have "x < of_int n + 1/2" and "- x < of_int n + 1/2" by linarith+
  then have "of_int (round_away x) < (of_int (n + 1) :: rat)"
    and "(of_int (- n - 1) :: rat) < of_int (round_away x)"
    using round_away_lower [of x] round_away_upper [of x]
    unfolding of_int_add of_int_diff of_int_minus of_int_1 by linarith+
  then have "round_away x < n + 1" and "- n - 1 < round_away x"
    by (simp_all only: of_int_less_iff)
  then show ?thesis by simp
qed

lemma ld_huge_large: "10 ^ 40 \<le> ld_huge"
proof -
  have "(10::rat) ^ 40 \<le> 2 ^ 160" by simp
  also have "(2::rat) ^ 160 \<le> 2 ^ 16384" by (rule power_increasing) simp_all
  finally show ?thesis by (simp add: ld_huge_def)
qed

lemma ld_fin_Fin:
  assumes "\<bar>q\<bar> \<le> 10 ^ 39" shows "ld_fin q = Fin (ld_round q)"
proof -
  have "\<bar>ld_round q\<bar> \<le> 10 ^ 39 + 10 ^ 39 / 2 ^ 53" using assms by (rule ld.bound)
  also have "\<dots> < 10 ^ 40" by simp
  finally have "\<bar>ld_round q\<bar> < ld_huge" using ld_huge_large by linarith
  then show ?thesis by (auto simp: ld_fin_def Let_def)
qed

lemma fits_longI: "\<bar>n\<bar> \<le> 10 ^ 18 \<Longrightarrow> fits_long n"
  by (auto simp: fits_long_def)

text \<open>\<open>clampM\<close> is what the two comparisons of \<open>NormalizeScore\<close> compute on finite values.\<close>

definition clampM :: "rat \<Rightarrow> rat" where
  "clampM x = max (- 1000000) (min 1000000 x)"

lemma clampM_bound: "\<bar>clampM x\<bar> \<le> 1000000"
  by (auto simp: clampM_def)

lemma clampM_close: "\<bar>y\<bar> \<le> 1000000 \<Longrightarrow> \<bar>x - y\<bar> \<le> d \<Longrightarrow> \<bar>clampM x - y\<bar> \<le> d"
  by (auto simp: clampM_def max_def min_def)

lemma clampM_id: "\<bar>x\<bar> \<le> 1000000 \<Longrightarrow> clampM x = x"
  by (auto simp: clampM_def)

lemma NormalizeScore_Fin:
  "NormalizeScore (Fin x) = round_away (ld_round (clampM x * 1000000))"
  and NormalizeScore_Fin_bound: "\<bar>NormalizeScore (Fin x)\<bar> \<le> 10 ^ 12"
proof -
  let ?y = "clampM x * 1000000"
  have y: "\<bar>?y\<bar> \<le> 10 ^ 12" using clampM_bound [of x] by (simp add: abs_mult)
  then have "\<bar>ld_round ?y\<bar> \<le> 10 ^ 12 + 10 ^ 12 / 2 ^ 53" by (rule ld.bound)
  also have "\<dots> < of_int (10 ^ 12) + 1/2" by simp
  finally have r: "\<bar>round_away (ld_round ?y)\<bar> \<le> 10 ^ 12" by (rule round_away_bound)
  then have f: "fits_long (round_away (ld_round ?y))" by (intro fits_longI) simp
  have "NormalizeScore (Fin x) = lround (ld_fin ?y)"
    by (auto simp: NormalizeScore_def Let_def clampM_def max_def min_def)
  also have "ld_fin ?y = Fin (ld_round ?y)" by (rule ld_fin_Fin) (use y in simp)
  finally show "NormalizeScore (Fin x) = round_away (ld_round ?y)" using f by simp
  with r show "\<bar>NormalizeScore (Fin x)\<bar> \<le> 10 ^ 12" by simp
qed

lemma NormalizeScore_close:
  assumes "\<bar>y\<bar> \<le> 1000000" and "\<bar>x - y\<bar> \<le> 1 / 10 ^ 9"
  shows "\<bar>of_int (NormalizeScore (Fin x)) - y * 1000000\<bar> \<le> 1/2 + 1/500"
    and "y * 1000000 = of_int n \<Longrightarrow> NormalizeScore (Fin x) = n"
proof -
  have "\<bar>clampM x - y\<bar> \<le> 1 / 10 ^ 9" using assms by (rule clampM_close)
  then have c: "\<bar>ld_round (clampM x * 1000000) - y * 1000000\<bar> \<le> 1/500"
    using ld.scale_close [OF assms(1), of "clampM x" "1 / 10 ^ 9"] by simp
  then show "\<bar>of_int (NormalizeScore (Fin x)) - y * 1000000\<bar> \<le> 1/2 + 1/500"
    using round_away_err [of "ld_round (clampM x * 1000000)"] unfolding NormalizeScore_Fin by linarith
  show "y * 1000000 = of_int n \<Longrightarrow> NormalizeScore (Fin x) = n"
    unfolding NormalizeScore_Fin by (rule round_away_near) (use c in simp)
qed

lemma NormalizeScore_inf:
  "NormalizeScore PInf = 10 ^ 12" "NormalizeScore NInf = - (10 ^ 12)"
proof -
  have e: "ld_round (1000000 * 1000000) = 1000000 * 1000000"
    using ld.exact [of "1000000 * 1000000"] by simp
  have f: "ld_round (- (1000000 * 1000000)) = - (1000000 * 1000000)"
    using ld.exact [of "- (1000000 * 1000000)"] by simp
  have "ld_fin (1000000 * 1000000) = Fin (1000000 * 1000000)"
    and "ld_fin (- (1000000 * 1000000)) = Fin (- (1000000 * 1000000))"
    by (subst ld_fin_Fin; simp add: e [simplified] f [simplified])+
  moreover have "round_away (1000000 * 1000000) = 10 ^ 12"
    and "round_away (- (1000000 * 1000000)) = - (10 ^ 12)"
    by (rule round_away_near; simp)+
  ultimately show "NormalizeScore PInf = 10 ^ 12" "NormalizeScore NInf = - (10 ^ 12)"
    by (simp_all add: NormalizeScore_def Let_def fits_long_def)
qed

lemma NormalizeScore_NaN: "NormalizeScore NaN = LONG_MIN"
  by (simp add: NormalizeScore_def)

end
