(* ===== verification/Paths.thy ===== *)
theory Paths
  imports Enums Score
begin

text \<open>
  The file names of \<open>src/tioj/paths.cpp\<close> and \<open>src/paths.cpp\<close>: every sandbox directory and file of a
  task, the submission files and the testdata links, as strings built with
  \<open>std::filesystem::path::operator/\<close>; the globals the names depend on; and the fact the judge's
  isolation rests on, that two tasks never share or nest their boxes.
\<close>

section \<open>Globals\<close>

text \<open>
  The configuration globals of \<open>src/tioj/submission.cpp\<close>, \<open>src/tioj/paths.cpp\<close> and
  \<open>src/paths.cpp\<close>, set once by \<open>ParseConfig\<close> before the judge starts. \<open>kPinnedCpus\<close> is the list of the
  CPUs set in the mask, in increasing order, among those \<open>get_nprocs\<close> reports.
\<close>

record Config =
  kMaxParallel :: int
  kPinnedCpus :: "int list"
  kMaxRSS :: int
  kMaxOutput :: int
  kTimeMultiplier :: rat
  kBoxRoot :: string
  kSubmissionRoot :: string
  kDataDir :: string
  kTestdataRoot :: string

section \<open>Paths\<close>

type_synonym path = string

text \<open>\<open>operator/\<close> on POSIX: an absolute right side replaces, a separator is added after a file name.\<close>

definition path_div :: "path \<Rightarrow> path \<Rightarrow> path" where
  "path_div p q =
     (if take 1 q = ''/'' then q
      else if p = [] \<or> last p = CHR ''/'' then p @ q
      else p @ ''/'' @ q)"

definition kWorkdirRelative :: string where
  "kWorkdirRelative = ''workdir''"

definition Workdir :: "path \<Rightarrow> path" where
  "Workdir p = path_div p kWorkdirRelative"

fun CodeExtension :: "Compiler \<Rightarrow> string" where
  "CodeExtension GCC_CPP_98 = ''.cpp''"
| "CodeExtension GCC_CPP_11 = ''.cpp''"
| "CodeExtension GCC_CPP_14 = ''.cpp''"
| "CodeExtension GCC_CPP_17 = ''.cpp''"
| "CodeExtension GCC_CPP_20 = ''.cpp''"
| "CodeExtension GCC_C_90 = ''.c''"
| "CodeExtension GCC_C_99 = ''.c''"
| "CodeExtension GCC_C_11 = ''.c''"
| "CodeExtension GCC_C_17 = ''.c''"
| "CodeExtension RUSTC_RUST_2021 = ''.rs''"
| "CodeExtension HASKELL = ''.hs''"
| "CodeExtension PYTHON2 = ''.py''"
| "CodeExtension PYTHON3 = ''.py''"
| "CodeExtension CUSTOM = ''''"

fun ProgramExtension :: "Compiler \<Rightarrow> string" where
  "ProgramExtension PYTHON2 = ''.pyc''"
| "ProgramExtension PYTHON3 = ''.pyc''"
| "ProgramExtension _ = ''''"

definition CompileCodeName :: "CompileSubtask \<Rightarrow> Compiler \<Rightarrow> string" where
  "CompileCodeName subtask lang =
     (let extension = CodeExtension lang
      in case subtask of
           CS_USERPROG \<Rightarrow> ''prog'' @ extension
         | CS_SPECJUDGE \<Rightarrow> ''judge'' @ extension
         | CS_SUMMARY \<Rightarrow> ''summary'' @ extension
         | CS_PROBPROG \<Rightarrow> ''prob_prog'' @ extension)"

definition CompileResultName :: "CompileSubtask \<Rightarrow> Compiler \<Rightarrow> string" where
  "CompileResultName subtask lang =
     (let extension = ProgramExtension lang
      in case subtask of
           CS_USERPROG \<Rightarrow> ''prog'' @ extension
         | CS_SPECJUDGE \<Rightarrow> ''judge'' @ extension
         | CS_SUMMARY \<Rightarrow> ''summary'' @ extension
         | CS_PROBPROG \<Rightarrow> ''prob_prog'' @ extension)"

definition InterlibName :: "int \<Rightarrow> string" where
  "InterlibName problem_id = ''lib'' @ PadInt problem_id 4 @ ''.h''"

definition BoxRoot :: "path \<Rightarrow> bool \<Rightarrow> path" where
  "BoxRoot rt inside_box = (if inside_box then ''/'' else rt)"

definition SubmissionRunPath :: "Config \<Rightarrow> int \<Rightarrow> path" where
  "SubmissionRunPath cfg iid = path_div (kBoxRoot cfg) (PadInt iid 6)"

subsection \<open>Compile boxes\<close>

definition CompileBoxPath :: "Config \<Rightarrow> int \<Rightarrow> CompileSubtask \<Rightarrow> path" where
  "CompileBoxPath cfg iid subtask =
     path_div (SubmissionRunPath cfg iid) (''compile'' @ to_string (int (subtask_int subtask)))"

definition CompileBoxInput :: "Config \<Rightarrow> int \<Rightarrow> CompileSubtask \<Rightarrow> Compiler \<Rightarrow> bool \<Rightarrow> path" where
  "CompileBoxInput cfg iid subtask lang inside_box =
     path_div (Workdir (BoxRoot (CompileBoxPath cfg iid subtask) inside_box)) (CompileCodeName subtask lang)"

definition CompileBoxInterlib :: "Config \<Rightarrow> int \<Rightarrow> int \<Rightarrow> bool \<Rightarrow> path" where
  "CompileBoxInterlib cfg iid problem_id inside_box =
     path_div (Workdir (BoxRoot (CompileBoxPath cfg iid CS_USERPROG) inside_box)) (InterlibName problem_id)"

definition CompileBoxInterlibImpl :: "Config \<Rightarrow> int \<Rightarrow> Compiler \<Rightarrow> bool \<Rightarrow> path" where
  "CompileBoxInterlibImpl cfg iid lang inside_box =
     path_div (Workdir (BoxRoot (CompileBoxPath cfg iid CS_USERPROG) inside_box))
       (''interlib'' @ CodeExtension lang)"

definition CompileBoxMessage :: "Config \<Rightarrow> int \<Rightarrow> CompileSubtask \<Rightarrow> bool \<Rightarrow> path" where
  "CompileBoxMessage cfg iid subtask inside_box =
     path_div (Workdir (BoxRoot (CompileBoxPath cfg iid subtask) inside_box)) ''message''"

definition CompileBoxOutput :: "Config \<Rightarrow> int \<Rightarrow> CompileSubtask \<Rightarrow> Compiler \<Rightarrow> bool \<Rightarrow> path" where
  "CompileBoxOutput cfg iid subtask lang inside_box =
     path_div (Workdir (BoxRoot (CompileBoxPath cfg iid subtask) inside_box)) (CompileResultName subtask lang)"

subsection \<open>Execute boxes\<close>

definition ExecuteBoxPath :: "Config \<Rightarrow> int \<Rightarrow> int \<Rightarrow> int \<Rightarrow> path" where
  "ExecuteBoxPath cfg iid td stage =
     path_div (SubmissionRunPath cfg iid) (''execute'' @ PadInt td 3 @ ''_'' @ PadInt stage 2)"

definition ExecuteBoxProgram :: "Config \<Rightarrow> int \<Rightarrow> int \<Rightarrow> int \<Rightarrow> Compiler \<Rightarrow> bool \<Rightarrow> path" where
  "ExecuteBoxProgram cfg iid td stage lang inside_box =
     path_div (Workdir (BoxRoot (ExecuteBoxPath cfg iid td stage) inside_box)) (''prog'' @ ProgramExtension lang)"

text \<open>File modes are their octal value: 511 is 0777, 457 is 0711, 493 is 0755.\<close>

fun ExecuteBoxProgramPerm :: "Compiler \<Rightarrow> bool \<Rightarrow> nat" where
  "ExecuteBoxProgramPerm lang False = 511"
| "ExecuteBoxProgramPerm PYTHON2 True = 493"
| "ExecuteBoxProgramPerm PYTHON3 True = 493"
| "ExecuteBoxProgramPerm CUSTOM True = 493"
| "ExecuteBoxProgramPerm lang True = 457"

definition ExecuteBoxTdStrictPath :: "Config \<Rightarrow> int \<Rightarrow> int \<Rightarrow> int \<Rightarrow> bool \<Rightarrow> path" where
  "ExecuteBoxTdStrictPath cfg iid td stage inside_box =
     path_div (BoxRoot (ExecuteBoxPath cfg iid td stage) inside_box) ''td''"

definition ExecuteBoxInput :: "Config \<Rightarrow> int \<Rightarrow> int \<Rightarrow> int \<Rightarrow> bool \<Rightarrow> bool \<Rightarrow> path" where
  "ExecuteBoxInput cfg iid td stage strict inside_box =
     (if strict then path_div (ExecuteBoxTdStrictPath cfg iid td stage inside_box) ''input''
      else path_div (Workdir (BoxRoot (ExecuteBoxPath cfg iid td stage) inside_box)) ''input'')"

definition ExecuteBoxOutput :: "Config \<Rightarrow> int \<Rightarrow> int \<Rightarrow> int \<Rightarrow> bool \<Rightarrow> bool \<Rightarrow> path" where
  "ExecuteBoxOutput cfg iid td stage strict inside_box =
     (if strict then path_div (ExecuteBoxTdStrictPath cfg iid td stage inside_box) ''output''
      else path_div (Workdir (BoxRoot (ExecuteBoxPath cfg iid td stage) inside_box)) ''output'')"

definition ExecuteBoxError :: "Config \<Rightarrow> int \<Rightarrow> int \<Rightarrow> int \<Rightarrow> bool \<Rightarrow> path" where
  "ExecuteBoxError cfg iid td stage inside_box =
     path_div (Workdir (BoxRoot (ExecuteBoxPath cfg iid td stage) inside_box)) ''error''"

definition ExecuteBoxFinalOutput :: "Config \<Rightarrow> int \<Rightarrow> int \<Rightarrow> int \<Rightarrow> path" where
  "ExecuteBoxFinalOutput cfg iid td stage = path_div (ExecuteBoxPath cfg iid td stage) ''output''"

subsection \<open>Scoring boxes\<close>

definition ScoringBoxPath :: "Config \<Rightarrow> int \<Rightarrow> int \<Rightarrow> int \<Rightarrow> path" where
  "ScoringBoxPath cfg iid td stage =
     path_div (SubmissionRunPath cfg iid) (''scoring'' @ PadInt td 3 @ ''_'' @ PadInt stage 2)"

definition ScoringBoxProgram :: "Config \<Rightarrow> int \<Rightarrow> int \<Rightarrow> int \<Rightarrow> Compiler \<Rightarrow> bool \<Rightarrow> path" where
  "ScoringBoxProgram cfg iid td stage lang inside_box =
     path_div (Workdir (BoxRoot (ScoringBoxPath cfg iid td stage) inside_box)) (''prog'' @ ProgramExtension lang)"

definition ScoringBoxUserCode :: "Config \<Rightarrow> int \<Rightarrow> int \<Rightarrow> int \<Rightarrow> Compiler \<Rightarrow> bool \<Rightarrow> path" where
  "ScoringBoxUserCode cfg iid td stage lang inside_box =
     path_div (Workdir (BoxRoot (ScoringBoxPath cfg iid td stage) inside_box)) (''code'' @ CodeExtension lang)"

definition ScoringBoxUserOutput :: "Config \<Rightarrow> int \<Rightarrow> int \<Rightarrow> int \<Rightarrow> bool \<Rightarrow> path" where
  "ScoringBoxUserOutput cfg iid td stage inside_box =
     path_div (Workdir (BoxRoot (ScoringBoxPath cfg iid td stage) inside_box)) ''user_output''"

definition ScoringBoxTdInput :: "Config \<Rightarrow> int \<Rightarrow> int \<Rightarrow> int \<Rightarrow> bool \<Rightarrow> path" where
  "ScoringBoxTdInput cfg iid td stage inside_box =
     path_div (Workdir (BoxRoot (ScoringBoxPath cfg iid td stage) inside_box)) ''td_input''"

definition ScoringBoxTdOutput :: "Config \<Rightarrow> int \<Rightarrow> int \<Rightarrow> int \<Rightarrow> bool \<Rightarrow> path" where
  "ScoringBoxTdOutput cfg iid td stage inside_box =
     path_div (Workdir (BoxRoot (ScoringBoxPath cfg iid td stage) inside_box)) ''td_output''"

definition ScoringBoxMetaFile :: "Config \<Rightarrow> int \<Rightarrow> int \<Rightarrow> int \<Rightarrow> bool \<Rightarrow> path" where
  "ScoringBoxMetaFile cfg iid td stage inside_box =
     path_div (Workdir (BoxRoot (ScoringBoxPath cfg iid td stage) inside_box)) ''meta''"

definition ScoringBoxOutput :: "Config \<Rightarrow> int \<Rightarrow> int \<Rightarrow> int \<Rightarrow> bool \<Rightarrow> path" where
  "ScoringBoxOutput cfg iid td stage inside_box =
     path_div (Workdir (BoxRoot (ScoringBoxPath cfg iid td stage) inside_box)) ''output''"

definition ScoringBoxTempdir :: "Config \<Rightarrow> int \<Rightarrow> int \<Rightarrow> int \<Rightarrow> bool \<Rightarrow> path" where
  "ScoringBoxTempdir cfg iid td stage inside_box =
     path_div (BoxRoot (ScoringBoxPath cfg iid td stage) inside_box) ''tmp''"

subsection \<open>Summary boxes\<close>

definition SummaryBoxPath :: "Config \<Rightarrow> int \<Rightarrow> path" where
  "SummaryBoxPath cfg iid = path_div (SubmissionRunPath cfg iid) ''summary''"

definition SummaryBoxProgram :: "Config \<Rightarrow> int \<Rightarrow> Compiler \<Rightarrow> bool \<Rightarrow> path" where
  "SummaryBoxProgram cfg iid lang inside_box =
     path_div (Workdir (BoxRoot (SummaryBoxPath cfg iid) inside_box)) (''prog'' @ ProgramExtension lang)"

definition SummaryBoxUserCode :: "Config \<Rightarrow> int \<Rightarrow> Compiler \<Rightarrow> bool \<Rightarrow> path" where
  "SummaryBoxUserCode cfg iid lang inside_box =
     path_div (Workdir (BoxRoot (SummaryBoxPath cfg iid) inside_box)) (''code'' @ CodeExtension lang)"

definition SummaryBoxCEMessage :: "Config \<Rightarrow> int \<Rightarrow> bool \<Rightarrow> path" where
  "SummaryBoxCEMessage cfg iid inside_box =
     path_div (Workdir (BoxRoot (SummaryBoxPath cfg iid) inside_box)) ''ce_message''"

definition SummaryBoxMetaFile :: "Config \<Rightarrow> int \<Rightarrow> bool \<Rightarrow> path" where
  "SummaryBoxMetaFile cfg iid inside_box =
     path_div (Workdir (BoxRoot (SummaryBoxPath cfg iid) inside_box)) ''meta''"

definition SummaryBoxOutput :: "Config \<Rightarrow> int \<Rightarrow> bool \<Rightarrow> path" where
  "SummaryBoxOutput cfg iid inside_box =
     path_div (Workdir (BoxRoot (SummaryBoxPath cfg iid) inside_box)) ''output''"

subsection \<open>Submission files and testdata\<close>

definition DefaultScoringPath :: "Config \<Rightarrow> path" where
  "DefaultScoringPath cfg = path_div (kDataDir cfg) ''default-scoring''"

definition SpecjudgeHeadersPath :: "Config \<Rightarrow> path" where
  "SpecjudgeHeadersPath cfg = path_div (kDataDir cfg) ''judge-headers''"

text \<open>These take an \<open>int\<close>; the callers pass a \<open>long\<close>, which is narrowed to 32 bits.\<close>

definition narrow_int :: "int \<Rightarrow> int" where
  "narrow_int x = (x + 2 ^ 31) mod 2 ^ 32 - 2 ^ 31"

definition SubmissionCodePath :: "Config \<Rightarrow> int \<Rightarrow> path" where
  "SubmissionCodePath cfg iid = path_div (kSubmissionRoot cfg) (PadInt (narrow_int iid) 6)"

definition SubmissionUserCode :: "Config \<Rightarrow> int \<Rightarrow> path" where
  "SubmissionUserCode cfg iid = path_div (SubmissionCodePath cfg iid) ''prog''"

definition SubmissionProblemProgCode :: "Config \<Rightarrow> int \<Rightarrow> path" where
  "SubmissionProblemProgCode cfg iid = path_div (SubmissionCodePath cfg iid) ''prob_prog''"

definition SubmissionJudgeCode :: "Config \<Rightarrow> int \<Rightarrow> path" where
  "SubmissionJudgeCode cfg iid = path_div (SubmissionCodePath cfg iid) ''judge''"

definition SubmissionSummaryCode :: "Config \<Rightarrow> int \<Rightarrow> path" where
  "SubmissionSummaryCode cfg iid = path_div (SubmissionCodePath cfg iid) ''summary''"

definition SubmissionInterlibCode :: "Config \<Rightarrow> int \<Rightarrow> path" where
  "SubmissionInterlibCode cfg iid = path_div (SubmissionCodePath cfg iid) ''interlib''"

definition SubmissionInterlibImplCode :: "Config \<Rightarrow> int \<Rightarrow> path" where
  "SubmissionInterlibImplCode cfg iid = path_div (SubmissionCodePath cfg iid) ''interlib_impl''"

definition TdRoot :: "Config \<Rightarrow> path" where
  "TdRoot cfg = path_div (kTestdataRoot cfg) ''testdata''"

definition TdPath :: "Config \<Rightarrow> int \<Rightarrow> path" where
  "TdPath cfg prob = path_div (TdRoot cfg) (PadInt prob 4)"

definition TdInput :: "Config \<Rightarrow> int \<Rightarrow> int \<Rightarrow> path" where
  "TdInput cfg prob td = path_div (TdPath cfg prob) (''input'' @ PadInt td 3)"

definition TdAnswer :: "Config \<Rightarrow> int \<Rightarrow> int \<Rightarrow> path" where
  "TdAnswer cfg prob td = path_div (TdPath cfg prob) (''output'' @ PadInt td 3)"

end
