(* ===== verification/Boxes.thy ===== *)
theory Boxes
  imports Paths "HOL-Library.Sublist"
begin

text \<open>
  Facts on the file names of \<open>Paths\<close>: the box directory of a task determines the submission and
  the task, and no box lies inside another one.
\<close>

section \<open>Directories of tasks\<close>

text \<open>The directory \<open>opt.boxdir\<close> that \<open>RunCompile\<close>, \<open>RunExecute\<close>, \<open>RunScoring\<close> and \<open>RunSummary\<close> use.\<close>

datatype box = CompileBox CompileSubtask | ExecuteBox int int | ScoringBox int int | SummaryBox

fun box_path :: "Config \<Rightarrow> int \<Rightarrow> box \<Rightarrow> path" where
  "box_path cfg iid (CompileBox s) = CompileBoxPath cfg iid s"
| "box_path cfg iid (ExecuteBox td stage) = ExecuteBoxPath cfg iid td stage"
| "box_path cfg iid (ScoringBox td stage) = ScoringBoxPath cfg iid td stage"
| "box_path cfg iid SummaryBox = SummaryBoxPath cfg iid"

fun box_ok :: "box \<Rightarrow> bool" where
  "box_ok (ExecuteBox td stage) \<longleftrightarrow> 0 \<le> td \<and> 0 \<le> stage"
| "box_ok (ScoringBox td stage) \<longleftrightarrow> 0 \<le> td \<and> 0 \<le> stage"
| "box_ok _ \<longleftrightarrow> True"

fun box_name :: "box \<Rightarrow> string" where
  "box_name (CompileBox s) = ''compile'' @ to_string (int (subtask_int s))"
| "box_name (ExecuteBox td stage) = ''execute'' @ PadInt td 3 @ ''_'' @ PadInt stage 2"
| "box_name (ScoringBox td stage) = ''scoring'' @ PadInt td 3 @ ''_'' @ PadInt stage 2"
| "box_name SummaryBox = ''summary''"

text \<open>\<open>inside p q\<close>: \<open>p\<close> is \<open>q\<close> or a path below it.\<close>

definition inside :: "path \<Rightarrow> path \<Rightarrow> bool" where
  "inside p q \<longleftrightarrow> p = q \<or> prefix (q @ ''/'') p"

section \<open>Names\<close>

definition root_sep :: "path \<Rightarrow> path" where
  "root_sep p = (if p = [] \<or> last p = CHR ''/'' then p else p @ ''/'')"

lemma path_div_relative: "take 1 q \<noteq> ''/'' \<Longrightarrow> path_div p q = root_sep p @ q"
  by (simp add: path_div_def root_sep_def)

lemma root_sep_name: "c \<notin> {CHR ''/''} \<Longrightarrow> root_sep (p @ [c]) = p @ [c, CHR ''/'']"
  by (simp add: root_sep_def)

lemma no_slash_head: "CHR ''/'' \<notin> set q \<Longrightarrow> take 1 q \<noteq> ''/''"
  by (cases q) auto

lemma root_sep_nonslash:
  "q \<noteq> [] \<Longrightarrow> CHR ''/'' \<notin> set q \<Longrightarrow> root_sep (p @ q) = p @ q @ ''/''"
  by (auto simp: root_sep_def dest: last_in_set)

lemma PadInt_nonempty: "0 < w \<Longrightarrow> PadInt x w \<noteq> []"
  using PadInt_width [of w x] by auto

lemma SubmissionRunPath_eq:
  "0 \<le> iid \<Longrightarrow> SubmissionRunPath cfg iid = root_sep (kBoxRoot cfg) @ PadInt iid 6"
  unfolding SubmissionRunPath_def
  by (rule path_div_relative [OF no_slash_head [OF PadInt_no_slash]])

lemma box_name_no_slash: "box_ok b \<Longrightarrow> CHR ''/'' \<notin> set (box_name b)"
proof (cases b)
  case (CompileBox s)
  then show ?thesis
    using nat_to_string_digits isdigit_not_slash by (auto simp: to_string_def)
qed (use PadInt_no_slash in auto)

lemma box_path_name:
  "box_ok b \<Longrightarrow> box_path cfg iid b = path_div (SubmissionRunPath cfg iid) (box_name b)"
  by (cases b) (simp_all add: CompileBoxPath_def ExecuteBoxPath_def ScoringBoxPath_def SummaryBoxPath_def)

lemma box_path_eq:
  assumes "0 \<le> iid" "box_ok b"
  shows "box_path cfg iid b = root_sep (kBoxRoot cfg) @ PadInt iid 6 @ CHR ''/'' # box_name b"
proof -
  have "box_path cfg iid b = path_div (SubmissionRunPath cfg iid) (box_name b)"
    using assms(2) by (rule box_path_name)
  also have "\<dots> = root_sep (SubmissionRunPath cfg iid) @ box_name b"
    by (rule path_div_relative [OF no_slash_head [OF box_name_no_slash [OF assms(2)]]])
  also have "root_sep (SubmissionRunPath cfg iid) = root_sep (kBoxRoot cfg) @ PadInt iid 6 @ ''/''"
    unfolding SubmissionRunPath_eq [OF assms(1)]
    by (rule root_sep_nonslash [OF PadInt_nonempty PadInt_no_slash [OF assms(1)]]) simp
  finally show ?thesis by simp
qed

lemma PadInt_pair_inj:
  assumes "PadInt a w @ CHR ''_'' # x = PadInt b w @ CHR ''_'' # y" "0 \<le> a" "0 \<le> b"
  shows "a = b \<and> x = y"
proof -
  have "PadInt a w = PadInt b w \<and> x = y"
    using assms(1) PadInt_no_underscore [OF assms(2)] PadInt_no_underscore [OF assms(3)]
    by (rule separator_unique)
  then show ?thesis using PadInt_inj assms(2,3) by blast
qed

lemma box_name_inj: "box_ok b \<Longrightarrow> box_ok c \<Longrightarrow> box_name b = box_name c \<Longrightarrow> b = c"
  by (cases b; cases c)
    (auto dest!: PadInt_pair_inj to_string_inj PadInt_inj simp: subtask_int_inj)

lemma box_path_inside:
  assumes "inside (box_path cfg i b) (box_path cfg j c)" "0 \<le> i" "0 \<le> j" "box_ok b" "box_ok c"
  shows "i = j \<and> b = c"
proof -
  have "\<exists>rest. (rest = [] \<or> CHR ''/'' \<in> set rest) \<and> box_path cfg i b = box_path cfg j c @ rest"
    using assms(1) unfolding inside_def prefix_def by force
  then obtain rest where r: "rest = [] \<or> CHR ''/'' \<in> set rest"
    and eq: "box_path cfg i b = box_path cfg j c @ rest" by blast
  from eq have "PadInt i 6 @ CHR ''/'' # box_name b = PadInt j 6 @ CHR ''/'' # (box_name c @ rest)"
    by (simp add: box_path_eq assms)
  then have "PadInt i 6 = PadInt j 6 \<and> box_name b = box_name c @ rest"
    by (rule separator_unique) (simp_all add: PadInt_no_slash assms)
  moreover from this have "rest = []"
    using box_name_no_slash [OF assms(4)] r by auto
  ultimately show ?thesis
    using PadInt_inj [OF _ assms(2,3)] box_name_inj [OF assms(4,5)] by auto
qed

section \<open>Properties\<close>

text \<open>
  C34: The box directory of a task is neither the box of another task, of the same submission or another, nor
  inside one.
\<close>

theorem box_isolation:
  assumes "(i, b) \<noteq> (j, c)" "0 \<le> i" "0 \<le> j" "box_ok b" "box_ok c"
  shows "\<not> inside (box_path cfg i b) (box_path cfg j c)"
  using box_path_inside [OF _ assms(2-5)] assms(1) by blast

definition plain_config :: Config where
  "plain_config = \<lparr>kMaxParallel = 1, kPinnedCpus = [], kMaxRSS = 2097152, kMaxOutput = 1048576,
     kTimeMultiplier = 1, kBoxRoot = ''/tmp/tioj_box'', kSubmissionRoot = ''/tmp/tioj_submissions'',
     kDataDir = ''/usr/share/tioj-judge'', kTestdataRoot = ''/var/lib/tioj-judge''\<rparr>"

theorem box_isolation_witness:
  "\<not> inside (box_path plain_config 7 (ExecuteBox 1 11)) (box_path plain_config 7 (ExecuteBox 11 1))"
  by (rule box_isolation) simp_all

end
