(* ===== verification/Data.thy ===== *)
theory Data
  imports Boxes
begin

text \<open>
  The data of the judge: \<open>Submission\<close>, \<open>SubmissionResult\<close> and \<open>SubmissionAndResult\<close>
  (\<open>include/tioj/submission.h\<close>, \<open>src/tioj/submission.h\<close>), \<open>Task\<close> (\<open>src/tioj/tasks.h\<close>), the part of
  \<open>cjail_result\<close> the program reads, the file-system calls and reporter calls an operation makes,
  and what an operation sees of the file system.
\<close>

section \<open>Submissions\<close>

text \<open>
  \<open>int\<close>, \<open>long\<close> and \<open>int64_t\<close> members are unbounded \<open>int\<close>s; where the width matters the operation
  that depends on it says so. A reporter callback is a \<open>std::function\<close> that may be empty: the
  model keeps whether it is set, and an operation records the calls it makes.
\<close>

record Reporter =
  ReportStartCompiling :: bool
  ReportOverallResult :: bool
  ReportScoringResult :: bool
  ReportCEMessage :: bool
  ReportJCEMessage :: bool
  ReportFinalized :: bool

record TestdataItem =
  input_file :: path
  answer_file :: path
  lim_vss :: int
  lim_rss :: int
  lim_output :: int
  lim_time :: int
  ignore_verdict :: bool
  td_groups :: "int list"

record Submission =
  submission_internal_id :: int
  submission_id :: int
  contest_id :: int
  priority :: int
  submission_time :: int
  submitter_id :: int
  submitter_name :: string
  submitter_nickname :: string
  lang :: Compiler
  problem_id :: int
  specjudge_type :: SpecjudgeType
  interlib_type :: InterlibType
  summary_type :: SummaryType
  specjudge_lang :: Compiler
  summary_lang :: Compiler
  problem_prog_lang :: Compiler
  user_compile_args :: string
  specjudge_compile_args :: string
  problem_prog_compile_args :: string
  stages :: int
  problem_prog_stages :: "int list"
  judge_between_stages :: bool
  judge_abnormally_terminated :: bool
  specjudge_re_as_wa :: bool
  sandbox_strict :: bool
  process_limit :: int
  default_scoring_args :: "string list"
  testdata :: "TestdataItem list"
  group_score :: "int list"
  skip_group :: bool
  reporter :: Reporter
  report_intermediate_stage :: bool
  remove_submission :: bool

text \<open>
  \<open>std::set<int> problem_prog_stages\<close> is the sorted list of its elements; \<open>count\<close> is membership and
  \<open>*begin()\<close> the head. The default constructor leaves \<open>submission_internal_id\<close>, \<open>priority\<close> and
  \<open>skip_group\<close> uninitialised; they are parameters here.
\<close>

definition no_reporter :: Reporter where
  "no_reporter = \<lparr>ReportStartCompiling = False, ReportOverallResult = False,
     ReportScoringResult = False, ReportCEMessage = False, ReportJCEMessage = False,
     ReportFinalized = False\<rparr>"

definition Submission_init :: "int \<Rightarrow> int \<Rightarrow> bool \<Rightarrow> Submission" where
  "Submission_init internal prio skip =
     \<lparr>submission_internal_id = internal, submission_id = 0, contest_id = 0, priority = prio,
      submission_time = 0, submitter_id = 0, submitter_name = '''', submitter_nickname = '''',
      lang = GCC_CPP_17, problem_id = 0, specjudge_type = NORMAL,
      interlib_type = Interlib_NONE, summary_type = Summary_NONE, specjudge_lang = GCC_CPP_17,
      summary_lang = GCC_CPP_17, problem_prog_lang = GCC_CPP_17, user_compile_args = '''',
      specjudge_compile_args = '''', problem_prog_compile_args = '''', stages = 1,
      problem_prog_stages = [], judge_between_stages = False, judge_abnormally_terminated = False,
      specjudge_re_as_wa = True, sandbox_strict = False, process_limit = 1,
      default_scoring_args = [], testdata = [], group_score = [], skip_group = skip,
      reporter = no_reporter, report_intermediate_stage = False, remove_submission = True\<rparr>"

section \<open>Results\<close>

text \<open>The members of \<open>struct cjail_result\<close> the program reads; \<open>cjail_zero\<close> is \<open>{}\<close>.\<close>

record cjail_result =
  timekill :: int
  oomkill :: int
  si_code :: int
  si_status :: int
  real_time :: timeval
  ru_utime :: timeval
  ru_stime :: timeval
  ru_maxrss :: int
  hiwater_vm :: int

definition timeval_zero :: timeval where
  "timeval_zero = \<lparr>tv_sec = 0, tv_usec = 0\<rparr>"

definition cjail_zero :: cjail_result where
  "cjail_zero = \<lparr>timekill = 0, oomkill = 0, si_code = 0, si_status = 0, real_time = timeval_zero,
     ru_utime = timeval_zero, ru_stime = timeval_zero, ru_maxrss = 0, hiwater_vm = 0\<rparr>"

text \<open>Constants of \<open>waitid(2)\<close> and \<open>signal(7)\<close> on x86-64 Linux.\<close>

definition CLD_EXITED :: int where "CLD_EXITED = 1"
definition CLD_KILLED :: int where "CLD_KILLED = 2"
definition CLD_DUMPED :: int where "CLD_DUMPED = 3"
definition SIGPIPE :: int where "SIGPIPE = 13"
definition SIGXFSZ :: int where "SIGXFSZ = 25"

record TestdataResult =
  execute_result :: cjail_result
  td_vss :: int
  td_rss :: int
  td_time :: int
  td_score :: int
  td_verdict :: Verdict
  message_type :: string
  message :: string
  skip_stage :: bool

definition TestdataResult_init :: TestdataResult where
  "TestdataResult_init = \<lparr>execute_result = cjail_zero, td_vss = 0, td_rss = 0, td_time = 0,
     td_score = 0, td_verdict = NUL, message_type = '''', message = '''', skip_stage = False\<rparr>"

record SubmissionResult =
  td_results :: "TestdataResult list"
  verdict :: Verdict
  total_memory :: int
  total_time :: int
  total_score :: int
  ce_message :: string
  jce_message :: string

definition SubmissionResult_init :: SubmissionResult where
  "SubmissionResult_init = \<lparr>td_results = [], verdict = NUL, total_memory = 0, total_time = 0,
     total_score = 0, ce_message = '''', jce_message = ''''\<rparr>"

record SubmissionAndResult =
  sub :: Submission
  result :: SubmissionResult

text \<open>\<open>struct Task\<close>: the testdata index of an execution or scoring, the \<open>CompileSubtask\<close> of a compilation.\<close>

record Task =
  task_type :: TaskType
  subtask :: int
  stage :: int

definition compile_subtask :: "Task \<Rightarrow> CompileSubtask" where
  "compile_subtask t =
     (if subtask t = 0 then CS_USERPROG else if subtask t = 1 then CS_SPECJUDGE
      else if subtask t = 2 then CS_SUMMARY else CS_PROBPROG)"

lemma compile_subtask_int: "compile_subtask \<lparr>task_type = ty, subtask = int (subtask_int s), stage = j\<rparr> = s"
  by (cases s) (simp_all add: compile_subtask_def)

section \<open>Effects\<close>

text \<open>
  JSON values, as the program builds them for the special judge and reads them back from it. An
  object is an association list; \<open>JInt\<close> is \<open>nlohmann\<close>'s integer and \<open>JFloat\<close> its finite \<open>double\<close>.
\<close>

datatype json =
  JNull | JBool bool | JInt int | JFloat rat | JString string
  | JArray "json list" | JObject "(string \<times> json) list"

text \<open>
  The calls of \<open>src/tioj/utils.cpp\<close> and \<open>std::filesystem\<close> an operation makes, in order. A mode is
  \<open>None\<close> where the code passes no permissions.
\<close>

datatype fs_op =
  FsCreateDirs path "nat option"
  | FsCopy path path "nat option"
  | FsMove path path "nat option"
  | FsRemoveAll path
  | FsMountTmpfs path int
  | FsUmount path
  | FsTouch path
  | FsPermissions path nat
  | FsChownRoot path
  | FsWriteJson path json
  | FsWriteText path string

text \<open>The reporter calls, with the data the callback reads.\<close>

datatype report =
  StartCompiling int
  | OverallResult int SubmissionResult
  | ScoringResult int SubmissionResult int int
  | CEMessage int SubmissionResult
  | JCEMessage int SubmissionResult
  | Finalized int nat

datatype event = Fs fs_op | Rep report

abbreviation kPerm666 :: nat where "kPerm666 \<equiv> 438"
abbreviation perms_all :: nat where "perms_all \<equiv> 511"
abbreviation perms_owner_all :: nat where "perms_owner_all \<equiv> 448"
abbreviation perms_owner_rw :: nat where "perms_owner_rw \<equiv> 384"

text \<open>
  What an operation asks the file system: whether a path is a regular file (without following
  links) or exists, the size \<open>fs::file_size\<close> returns (\<open>None\<close> where it throws), the text of a file
  (\<open>None\<close> where it cannot be opened), the JSON value of a file (\<open>None\<close> where the parse throws), and
  the headers \<open>recursive_directory_iterator\<close> lists below \<open>SpecjudgeHeadersPath\<close>, as pairs of the
  parent directory relative to it and the file name.
\<close>

record FsView =
  is_regular :: "path \<Rightarrow> bool"
  fs_exists :: "path \<Rightarrow> bool"
  file_size :: "path \<Rightarrow> int option"
  file_text :: "path \<Rightarrow> string option"
  file_json :: "path \<Rightarrow> json option"
  header_files :: "(path \<times> string) list"

end
