(* ===== verification/TaskGraph.thy ===== *)
theory TaskGraph
  imports Data
begin

text \<open>
  The dependency graph of tasks of \<open>src/tioj/submission.cpp\<close>: \<open>TaskEntry\<close>, the global state of the
  scheduler, \<open>Link\<close>, \<open>InsertTaskList\<close>, \<open>Remove\<close>, \<open>IsCancelled\<close>, and the order of the ready queue,
  with the invariant that ties in-degrees, edges and the ready queue together.
\<close>

section \<open>Task entries\<close>

record TaskEntry =
  te_id :: int
  te_submission :: int
  te_task :: Task
  te_priority :: int
  task_order :: int
  indeg :: int
  edges :: "int list"

text \<open>The constructor; the first argument is the value \<open>task_count++\<close> takes.\<close>

definition TaskEntry_new :: "int \<Rightarrow> int \<Rightarrow> Task \<Rightarrow> int \<Rightarrow> int \<Rightarrow> TaskEntry" where
  "TaskEntry_new tid sub_id task prio ord =
     \<lparr>te_id = tid, te_submission = sub_id, te_task = task, te_priority = prio,
      task_order = ord, indeg = 0, edges = []\<rparr>"

text \<open>\<open>operator<\<close>: the tuples \<open>(priority, -submission_internal_id, -task_order)\<close>, lexicographically.\<close>

definition te_less :: "TaskEntry \<Rightarrow> TaskEntry \<Rightarrow> bool" where
  "te_less a b \<longleftrightarrow>
     te_priority a < te_priority b \<or>
     (te_priority a = te_priority b \<and>
       (te_submission b < te_submission a \<or>
        (te_submission a = te_submission b \<and> task_order b < task_order a)))"

text \<open>
  What \<open>std::priority_queue\<close> requires of its comparison, a strict weak ordering, and what it gives
  for it: a non-empty queue has a top, an element below no other. \<open>pick\<close> is the scan for one.
\<close>

locale strict_weak_order =
  fixes less :: "'a \<Rightarrow> 'a \<Rightarrow> bool"
  assumes irrefl: "\<not> less x x"
    and trans: "less x y \<Longrightarrow> less y z \<Longrightarrow> less x z"
    and incomp_trans: "\<not> less x y \<Longrightarrow> \<not> less y z \<Longrightarrow> \<not> less x z"
begin

lemma asym: "less x y \<Longrightarrow> \<not> less y x"
  using irrefl trans by blast

lemma maximal_foldl:
  "\<forall>y \<in> set (x # xs). \<not> less (foldl (\<lambda>m y. if less m y then y else m) x xs) y"
proof (induction xs rule: rev_induct)
  case Nil
  then show ?case by (simp add: irrefl)
next
  case (snoc z xs)
  let ?m = "foldl (\<lambda>m y. if less m y then y else m) x xs"
  show ?case
  proof (cases "less ?m z")
    case True
    have "\<not> less z y" if "y \<in> set (x # xs @ [z])" for y
    proof
      assume "less z y"
      with True have "less ?m y" and "y \<noteq> z" using trans irrefl by blast+
      with that snoc.IH show False by auto
    qed
    with True show ?thesis by simp
  next
    case False
    with snoc.IH show ?thesis by auto
  qed
qed

lemma foldl_mem: "foldl (\<lambda>m y. if less m y then y else m) x xs \<in> set (x # xs)"
  by (induction xs rule: rev_induct) auto

end

interpretation te: strict_weak_order te_less
  by unfold_locales (auto simp: te_less_def)

section \<open>The scheduler's globals\<close>

text \<open>
  \<open>task_queue\<close> lists the elements of the priority queue (its heap order is not represented: \<open>top\<close> is
  some maximal element). \<open>events\<close> records the file-system and reporter calls made, in order.
\<close>

record JState =
  task_count :: int
  task_list :: "int \<rightharpoonup> TaskEntry"
  task_queue :: "int list"
  handle_map :: "int \<rightharpoonup> int"
  submission_list :: "int \<rightharpoonup> SubmissionAndResult"
  submission_id_map :: "int \<rightharpoonup> int"
  cancelled_list :: "int set"
  cancelled_group :: "int \<rightharpoonup> int set"
  events :: "event list"

definition JState_init :: JState where
  "JState_init = \<lparr>task_count = 0, task_list = Map.empty, task_queue = [], handle_map = Map.empty,
     submission_list = Map.empty, submission_id_map = Map.empty, cancelled_list = {},
     cancelled_group = Map.empty, events = []\<rparr>"

definition emit :: "event list \<Rightarrow> JState \<Rightarrow> JState" where
  "emit es st = st\<lparr>events := events st @ es\<rparr>"

text \<open>\<open>x\<close> is a possible \<open>task_queue.top()\<close>.\<close>

definition is_top :: "JState \<Rightarrow> int \<Rightarrow> bool" where
  "is_top st x \<longleftrightarrow>
     x \<in> set (task_queue st) \<and>
     (\<forall>y \<in> set (task_queue st).
        case (task_list st x, task_list st y) of
          (Some a, Some b) \<Rightarrow> \<not> te_less a b | _ \<Rightarrow> True)"

text \<open>A queue that is not empty has a top.\<close>

lemma top_exists:
  assumes "task_queue st \<noteq> []"
  shows "\<exists>x. is_top st x"
proof (cases "filter (\<lambda>x. task_list st x \<noteq> None) (task_queue st)")
  case Nil
  then have "is_top st (List.hd (task_queue st))"
    using assms by (auto simp: is_top_def filter_empty_conv split: option.splits)
  then show ?thesis ..
next
  case (Cons x xs)
  let ?e = "\<lambda>x. the (task_list st x)"
  let ?m = "foldl (\<lambda>m y. if te_less m y then y else m) (?e x) (map ?e xs)"
  have m: "?m \<in> ?e ` set (x # xs)" using te.foldl_mem [of "?e x" "map ?e xs"] by simp
  then obtain z where z: "z \<in> set (x # xs)" "?m = ?e z" by blast
  have "\<not> te_less ?m y" if "y \<in> ?e ` set (x # xs)" for y
    using te.maximal_foldl [of "?e x" "map ?e xs"] that by auto
  then have "\<not> te_less (?e z) (?e y)" if "y \<in> set (x # xs)" for y
    using z(2) that by (metis image_eqI)
  moreover have s: "set (x # xs) = {y \<in> set (task_queue st). task_list st y \<noteq> None}"
    using arg_cong [OF Cons, of set] by simp
  ultimately have "is_top st z" using z(1) by (force simp: is_top_def split: option.splits)
  then show ?thesis ..
qed

section \<open>Operations\<close>

definition InsertTaskList :: "TaskEntry \<Rightarrow> JState \<Rightarrow> JState" where
  "InsertTaskList task st =
     (let tid = te_id task;
          st = (if task_list st tid = None
                then st\<lparr>task_list := (task_list st)(tid \<mapsto> task)\<rparr> else st)
      in if indeg task = 0 then st\<lparr>task_queue := task_queue st @ [tid]\<rparr> else st)"

text \<open>
  \<open>Link(a, b)\<close> mutates two task entries. The entries of a submission under construction live in a
  store indexed by their id, so that the two vectors and the local variables that hold them are lists
  of ids.
\<close>

type_synonym store = "int \<rightharpoonup> TaskEntry"

definition Link :: "int \<Rightarrow> int \<Rightarrow> store \<Rightarrow> store" where
  "Link a b B =
     (case (B a, B b) of
        (Some ta, Some tb) \<Rightarrow>
          (let B = B(a \<mapsto> ta\<lparr>edges := edges ta @ [te_id tb]\<rparr>)
           in B(b \<mapsto> (the (B b))\<lparr>indeg := indeg (the (B b)) + 1\<rparr>))
      | _ \<Rightarrow> B)"

text \<open>
  The loop of \<open>Remove\<close>. Reading an id that is not in \<open>task_list\<close> would insert an entry of
  indeterminate value; the model stops there.
\<close>

fun Remove_edges :: "int list \<Rightarrow> JState \<Rightarrow> error + JState" where
  "Remove_edges [] st = Inr st"
| "Remove_edges (nxt # rest) st =
     (case task_list st nxt of
        None \<Rightarrow> Inl OutOfRange
      | Some t \<Rightarrow>
          let st = st\<lparr>task_list := (task_list st)(nxt \<mapsto> t\<lparr>indeg := indeg t - 1\<rparr>)\<rparr>
          in Remove_edges rest
               (if indeg t - 1 = 0 then st\<lparr>task_queue := task_queue st @ [nxt]\<rparr> else st))"

definition Remove :: "TaskEntry \<Rightarrow> JState \<Rightarrow> error + JState" where
  "Remove task st =
     (case Remove_edges (edges task) st of
        Inl e \<Rightarrow> Inl e
      | Inr st \<Rightarrow> Inr (st\<lparr>task_list := (task_list st)(te_id task := None)\<rparr>))"

definition IsCancelled :: "JState \<Rightarrow> int \<Rightarrow> int list \<Rightarrow> bool" where
  "IsCancelled st iid groups \<longleftrightarrow>
     iid \<in> cancelled_list st \<or>
     (case cancelled_group st iid of
        None \<Rightarrow> False
      | Some gs \<Rightarrow> groups \<noteq> [] \<and> (\<forall>g \<in> set groups. g \<in> gs))"

end
