(* ===== verification/Compile.thy ===== *)
theory Compile
  imports TaskGraph
begin

text \<open>
  \<open>GetLang\<close>, \<open>SetupCompile\<close> and \<open>FinalizeCompile\<close> of \<open>src/tioj/submission.cpp\<close>: the files copied into a
  compile box, the verdict of a failed compilation, and the message reported for it, truncated and
  with the errors inside headers removed.
\<close>

section \<open>Setup\<close>

fun GetLang :: "Submission \<Rightarrow> CompileSubtask \<Rightarrow> Compiler" where
  "GetLang sb CS_USERPROG = lang sb"
| "GetLang sb CS_SPECJUDGE = specjudge_lang sb"
| "GetLang sb CS_SUMMARY = summary_lang sb"
| "GetLang sb CS_PROBPROG = problem_prog_lang sb"

fun compile_source :: "Config \<Rightarrow> int \<Rightarrow> CompileSubtask \<Rightarrow> path" where
  "compile_source cfg iid CS_USERPROG = SubmissionUserCode cfg iid"
| "compile_source cfg iid CS_SPECJUDGE = SubmissionJudgeCode cfg iid"
| "compile_source cfg iid CS_SUMMARY = SubmissionSummaryCode cfg iid"
| "compile_source cfg iid CS_PROBPROG = SubmissionProblemProgCode cfg iid"

text \<open>The copies of the judge headers: one directory and one file per entry listed.\<close>

definition copy_headers :: "Config \<Rightarrow> FsView \<Rightarrow> path \<Rightarrow> event list" where
  "copy_headers cfg fs box =
     concat (map (\<lambda>(dir, name).
        let parent_dirs = path_div box dir
        in [Fs (FsCreateDirs parent_dirs (Some perms_all)),
            Fs (FsCopy (path_div (path_div (SpecjudgeHeadersPath cfg) dir) name)
                  (path_div parent_dirs name) (Some kPerm666))]) (header_files fs))"

definition compile_deps :: "Config \<Rightarrow> FsView \<Rightarrow> Submission \<Rightarrow> CompileSubtask \<Rightarrow> event list" where
  "compile_deps cfg fs sb s =
     (let iid = submission_internal_id sb
      in case s of
           CS_USERPROG \<Rightarrow>
             (if ReportStartCompiling (reporter sb) then [Rep (StartCompiling (submission_id sb))] else []) @
             (case interlib_type sb of
                Interlib_NONE \<Rightarrow> []
              | Interlib_INCLUDE \<Rightarrow>
                  [Fs (FsCopy (SubmissionInterlibCode cfg iid)
                         (CompileBoxInterlib cfg iid (problem_id sb) False) (Some kPerm666)),
                   Fs (FsCopy (SubmissionInterlibImplCode cfg iid)
                         (CompileBoxInterlibImpl cfg iid (lang sb) False) (Some kPerm666))])
         | _ \<Rightarrow> copy_headers cfg fs (Workdir (CompileBoxPath cfg iid s)))"

definition SetupCompile ::
    "Config \<Rightarrow> FsView \<Rightarrow> SubmissionAndResult \<Rightarrow> TaskEntry \<Rightarrow> JState \<Rightarrow> bool \<times> JState" where
  "SetupCompile cfg fs sr task st =
     (let sb = sub sr; iid = submission_internal_id sb; s = compile_subtask (te_task task)
      in if iid \<in> cancelled_list st then (False, st)
         else (True, emit
           ([Fs (FsCreateDirs (Workdir (CompileBoxPath cfg iid s)) (Some perms_all)),
             Fs (FsCopy (compile_source cfg iid s) (CompileBoxInput cfg iid s (GetLang sb s) False)
                   (Some kPerm666))] @ compile_deps cfg fs sb s) st))"

section \<open>The compile message\<close>

text \<open>
  \<open>regex_replace\<close> with \<open>(^|\n)In file included from[\S\s]*?(\n/workdir/prog|$)\<close>: a match starts at the
  beginning of the text or at a newline and runs to the first following line that begins with
  \<open>/workdir/prog\<close>, or to the end. The flag tells whether the position is the beginning.
\<close>

definition header_start :: string where
  "header_start = ''In file included from''"

definition header_end :: string where
  "header_end = CHR 10 # ''/workdir/prog''"

definition header_note :: string where
  "header_note = ''[Error messages from headers removed]''"

definition starts_with :: "string \<Rightarrow> string \<Rightarrow> bool" where
  "starts_with pat s \<longleftrightarrow> take (length pat) s = pat"

fun skip_to_end :: "string \<Rightarrow> string" where
  "skip_to_end [] = []"
| "skip_to_end (c # s) = (if starts_with header_end (c # s) then c # s else skip_to_end s)"

lemma skip_to_end_length: "length (skip_to_end s) \<le> length s"
  by (induction s) auto

lemma drop_skip_le: "length (drop n (skip_to_end (drop m s))) \<le> length s"
  using skip_to_end_length [of "drop m s"] by simp

lemma drop_skip_less:
  "starts_with header_start s \<Longrightarrow> length (drop n (skip_to_end (drop (length header_start) s))) < length s"
  using skip_to_end_length [of "drop (length header_start) s"]
  by (cases s) (auto simp: starts_with_def header_start_def)

function filter_headers :: "bool \<Rightarrow> string \<Rightarrow> string" where
  "filter_headers at_begin s =
     (if at_begin \<and> starts_with header_start s then
        (let rest = skip_to_end (drop (length header_start) s)
         in header_note @ take (length header_end) rest @ filter_headers False (drop (length header_end) rest))
      else case s of
          [] \<Rightarrow> []
        | c # cs \<Rightarrow>
            if c = CHR 10 \<and> starts_with header_start cs then
              (let rest = skip_to_end (drop (length header_start) cs)
               in c # header_note @ take (length header_end) rest @
                  filter_headers False (drop (length header_end) rest))
            else c # filter_headers False cs)"
  by pat_completeness auto

termination
  by (relation "measure (\<lambda>(b, s). length s)")
    (simp_all add: drop_skip_less drop_skip_le less_Suc_eq_le del: length_drop)

declare filter_headers.simps [simp del]

text \<open>What is left of the message file: the first \<open>kMaxMsgLen\<close> bytes, filtered, with a note if cut.\<close>

definition kMaxMsgLen :: nat where "kMaxMsgLen = 4000"

definition truncated_note :: string where
  "truncated_note =
     CHR 10 # ''[Error message truncated after '' @ to_string (int kMaxMsgLen) @ '' bytes]''"

definition compile_message :: "FsView \<Rightarrow> path \<Rightarrow> error + string" where
  "compile_message fs p =
     (if is_regular fs p then
        (case file_size fs p of
           None \<Rightarrow> Inl FsError
         | Some total_length \<Rightarrow>
             let msg = (case file_text fs p of None \<Rightarrow> [] | Some s \<Rightarrow> take kMaxMsgLen s);
                 msg = filter_headers True msg
             in Inr (if total_length > int kMaxMsgLen then msg @ truncated_note else msg))
      else Inr [])"

section \<open>Finalize\<close>

definition compile_failed :: "cjail_result \<Rightarrow> bool \<Rightarrow> bool" where
  "compile_failed cres output_regular \<longleftrightarrow>
     timekill cres \<noteq> 0 \<or> oomkill cres > 0 \<or> si_status cres \<noteq> 0 \<or> \<not> output_regular"

definition compile_verdict :: "CompileSubtask \<Rightarrow> cjail_result \<Rightarrow> Verdict" where
  "compile_verdict s cres =
     (if s \<noteq> CS_USERPROG then JCE
      else if timekill cres \<noteq> 0 \<or> oomkill cres > 0 then CLE else CE)"

definition FinalizeCompile ::
    "Config \<Rightarrow> FsView \<Rightarrow> SubmissionAndResult \<Rightarrow> TaskEntry \<Rightarrow> cjail_result \<Rightarrow> JState \<Rightarrow>
     error + SubmissionAndResult \<times> JState" where
  "FinalizeCompile cfg fs sr task cres st =
     (let sb = sub sr; res = result sr; iid = submission_internal_id sb;
          s = compile_subtask (te_task task); lng = GetLang sb s
      in if timekill cres = -1 then Inr (sr\<lparr>result := res\<lparr>verdict := JE\<rparr>\<rparr>, st)
         else if compile_failed cres (is_regular fs (CompileBoxOutput cfg iid s lng False)) then
           let res = res\<lparr>verdict := max (verdict res) (compile_verdict s cres)\<rparr>
           in case compile_message fs (CompileBoxMessage cfg iid s False) of
                Inl e \<Rightarrow> Inl e
              | Inr msg \<Rightarrow>
                  (case s of
                     CS_USERPROG \<Rightarrow>
                       let res = res\<lparr>ce_message := msg\<rparr>
                       in Inr (sr\<lparr>result := res\<rparr>,
                            if ReportCEMessage (reporter sb)
                            then emit [Rep (CEMessage (submission_id sb) res)] st else st)
                   | CS_SUMMARY \<Rightarrow>
                       Inr (sr\<lparr>result := (if jce_message res = [] then res\<lparr>jce_message := msg\<rparr> else res)\<rparr>, st)
                   | _ \<Rightarrow>
                       let res = res\<lparr>jce_message := msg\<rparr>
                       in Inr (sr\<lparr>result := res\<rparr>,
                            if ReportJCEMessage (reporter sb)
                            then emit [Rep (JCEMessage (submission_id sb) res)] st else st))
         else Inr (sr, st))"

section \<open>Facts\<close>

lemma length_header_note: "length header_note \<le> 2 * length header_start"
  by (simp add: header_note_def header_start_def)

lemma skip_to_end_suffix: "length (take n (skip_to_end s)) + length (drop n (skip_to_end s)) \<le> length s"
  using skip_to_end_length [of s] by simp

lemma filter_headers_length: "length (filter_headers b s) \<le> 2 * length s"
proof (induction b s rule: filter_headers.induct)
  case (1 b s)
  have step: "length (header_note @ take (length header_end) rest @ x) \<le> 2 * length t"
    if t: "starts_with header_start t" and r: "rest = skip_to_end (drop (length header_start) t)"
      and x: "length x \<le> 2 * length (drop (length header_end) rest)" for rest t x
  proof -
    have "length header_start \<le> length t"
      using t unfolding starts_with_def by (metis length_take min.cobounded1)
    then have "length rest \<le> length t - length header_start" "length header_start \<le> length t"
      using skip_to_end_length [of "drop (length header_start) t"] r by simp_all
    then show ?thesis using x length_header_note by simp
  qed
  show ?case
  proof (cases "b \<and> starts_with header_start s")
    case True
    from step [OF conjunct2 [OF True] refl "1.IH"(1) [OF True refl]] True show ?thesis
      by (subst filter_headers.simps) (simp add: Let_def)
  next
    case no: False
    show ?thesis
    proof (cases s)
      case Nil
      with no show ?thesis by (subst filter_headers.simps) auto
    next
      case (Cons c cs)
      show ?thesis
      proof (cases "c = CHR 10 \<and> starts_with header_start cs")
        case True
        from step [OF conjunct2 [OF True] refl "1.IH"(2) [OF no Cons True refl]] True no Cons show ?thesis
          by (subst filter_headers.simps) (auto simp: Let_def)
      next
        case False
        from "1.IH"(3) [OF no Cons False] False no Cons show ?thesis
          by (subst filter_headers.simps) auto
      qed
    qed
  qed
qed

text \<open>A text without a header line is unchanged.\<close>

lemma filter_headers_id:
  assumes "\<forall>p q. s = p @ header_start @ q \<longrightarrow> False"
  shows "filter_headers b s = s"
  using assms
proof (induction s arbitrary: b)
  case Nil
  show ?case by (subst filter_headers.simps) (simp add: starts_with_def header_start_def)
next
  case (Cons c cs)
  have no: "\<not> starts_with header_start t" if "t = c # cs \<or> t = cs" for t
  proof
    assume "starts_with header_start t"
    then have "t = header_start @ drop (length header_start) t"
      unfolding starts_with_def by (metis append_take_drop_id)
    then have "c # cs = [] @ header_start @ drop (length header_start) t \<or>
        c # cs = [c] @ header_start @ drop (length header_start) t" using that by auto
    with Cons.prems show False by blast
  qed
  have "filter_headers False cs = cs"
  proof (rule Cons.IH)
    show "\<forall>p q. cs = p @ header_start @ q \<longrightarrow> False"
    proof (intro allI impI)
      fix p q
      assume "cs = p @ header_start @ q"
      then have "c # cs = (c # p) @ header_start @ q" by simp
      with Cons.prems show False by blast
    qed
  qed
  with no show ?case by (subst filter_headers.simps) simp
qed

lemma compile_message_length:
  "compile_message fs p = Inr msg \<Longrightarrow> length msg \<le> 2 * kMaxMsgLen + length truncated_note"
proof -
  assume m: "compile_message fs p = Inr msg"
  have "length (filter_headers True (take kMaxMsgLen s)) \<le> 2 * kMaxMsgLen" for s
    by (rule order_trans [OF filter_headers_length]) simp
  moreover have "length (filter_headers True []) \<le> 2 * kMaxMsgLen"
    by (rule order_trans [OF filter_headers_length]) simp
  ultimately show ?thesis
    using m by (auto simp: compile_message_def Let_def trans_le_add1 split: option.splits if_splits)
qed

lemma JE_greatest: "max v JE = JE"
  by (cases v) (simp_all add: max_def verdict_order)

lemma FinalizeCompile_verdict:
  assumes "FinalizeCompile cfg fs sr task cres st = Inr (sr', st')"
  shows "verdict (result sr') = max (verdict (result sr))
      (let s = compile_subtask (te_task task)
       in if timekill cres = -1 then JE
          else if compile_failed cres (is_regular fs
              (CompileBoxOutput cfg (submission_internal_id (sub sr)) s (GetLang (sub sr) s) False))
          then compile_verdict s cres else NUL)"
    and "sub sr' = sub sr" "td_results (result sr') = td_results (result sr)"
    "\<exists>es. st' = emit es st"
proof -
  have "max v NUL = v" for v :: Verdict by (simp add: max_absorb1)
  note s = this JE_greatest
  have e: "st = emit [] st" by (simp add: emit_def)
  show "verdict (result sr') = max (verdict (result sr))
      (let s = compile_subtask (te_task task)
       in if timekill cres = -1 then JE
          else if compile_failed cres (is_regular fs
              (CompileBoxOutput cfg (submission_internal_id (sub sr)) s (GetLang (sub sr) s) False))
          then compile_verdict s cres else NUL)"
    using assms by (auto simp: FinalizeCompile_def Let_def s
        split: if_splits sum.splits CompileSubtask.splits)
  show "sub sr' = sub sr" "td_results (result sr') = td_results (result sr)"
    using assms by (auto simp: FinalizeCompile_def Let_def
        split: if_splits sum.splits CompileSubtask.splits)
  show "\<exists>es. st' = emit es st"
    using assms e by (auto simp: FinalizeCompile_def Let_def
        split: if_splits sum.splits CompileSubtask.splits)
qed

end
