(* ===== verification/Execute.thy ===== *)
theory Execute
  imports TaskGraph
begin

text \<open>
  \<open>SetupExecute\<close> and \<open>FinalizeExecute\<close> of \<open>src/tioj/submission.cpp\<close>: when an execution is skipped, the
  files it starts from, and the verdict, time and memory its result gives.
\<close>

section \<open>Setup\<close>

definition page_kib :: "int \<Rightarrow> int" where
  "page_kib n = (n div 4096 + 1) * 4"

text \<open>The program of a stage: the problem's or the user's, with its language.\<close>

definition stage_program :: "Submission \<Rightarrow> int \<Rightarrow> CompileSubtask \<times> Compiler" where
  "stage_program sb stg =
     (if stg \<in> set (problem_prog_stages sb) then (CS_PROBPROG, problem_prog_lang sb)
      else (CS_USERPROG, lang sb))"

text \<open>The calls of the last part: the input of the first stage is copied, of a later one moved.\<close>

definition execute_input_ops :: "Config \<Rightarrow> Submission \<Rightarrow> TestdataItem \<Rightarrow> int \<Rightarrow> int \<Rightarrow> fs_op list" where
  "execute_input_ops cfg sb item i stg =
     (let iid = submission_internal_id sb; strict = sandbox_strict sb;
          input = ExecuteBoxInput cfg iid i stg strict False;
          perm = (if strict then perms_owner_rw else kPerm666)
      in (if strict
          then [FsCreateDirs (ExecuteBoxTdStrictPath cfg iid i stg False) (Some perms_owner_all)]
          else [FsPermissions (Workdir (ExecuteBoxPath cfg iid i stg)) perms_all]) @
         (if stg = 0 then [FsCopy (input_file item) input (Some perm)]
          else [FsMove (ExecuteBoxFinalOutput cfg iid i (stg - 1)) input None, FsPermissions input perm]))"

text \<open>
  The reference \<open>td_results[subtask]\<close> is formed for every stage but read for later stages only; the
  model reads it there.
\<close>

definition SetupExecute ::
    "Config \<Rightarrow> FsView \<Rightarrow> SubmissionAndResult \<Rightarrow> TaskEntry \<Rightarrow> JState \<Rightarrow> error + bool \<times> JState" where
  "SetupExecute cfg fs sr task st =
     (let sb = sub sr; res = result sr; iid = submission_internal_id sb;
          i = subtask (te_task task); stg = stage (te_task task)
      in if verdict res \<noteq> NUL then Inr (False, st)
         else case nth_opt (testdata sb) (nat i) of
           None \<Rightarrow> Inl OutOfRange
         | Some item \<Rightarrow>
             if IsCancelled st iid (td_groups item) then Inr (False, st)
             else if stg > 0 \<and> nth_opt (td_results res) (nat i) = None then Inl OutOfRange
             else if stg > 0 \<and> (skip_stage (td_results res ! nat i) \<or> td_verdict (td_results res ! nat i) \<noteq> NUL)
             then Inr (False, st)
             else
               let workdir = Workdir (ExecuteBoxPath cfg iid i stg);
                   (prog, plang) = stage_program sb stg;
                   compiled = CompileBoxOutput cfg iid prog plang False;
                   strict = sandbox_strict sb;
                   tail = [FsCopy compiled (ExecuteBoxProgram cfg iid i stg plang False)
                             (Some (ExecuteBoxProgramPerm plang strict))] @
                          execute_input_ops cfg sb item i stg
               in if strict then Inr (True, emit (map Fs (FsCreateDirs workdir None # tail)) st)
                  else (case (file_size fs compiled, file_size fs (input_file item)) of
                          (Some a, Some b) \<Rightarrow>
                            let tmpfs_size_kib = page_kib a + page_kib b + min (lim_output item * 2) (kMaxOutput cfg)
                            in Inr (True, emit (map Fs
                                 (FsCreateDirs workdir None # FsMountTmpfs workdir tmpfs_size_kib # tail)) st)
                        | _ \<Rightarrow> Inl FsError))"

section \<open>Finalize\<close>

text \<open>\<open>resize(n)\<close> to a larger size appends default values.\<close>

definition resize_results :: "nat \<Rightarrow> TestdataResult list \<Rightarrow> TestdataResult list" where
  "resize_results n rs = (if length rs < n then rs @ replicate (n - length rs) TestdataResult_init else rs)"

definition over_limit :: "TestdataItem \<Rightarrow> TestdataResult \<Rightarrow> bool" where
  "over_limit lm td \<longleftrightarrow>
     (lim_vss lm \<noteq> 0 \<and> td_vss td > lim_vss lm) \<or> (lim_rss lm \<noteq> 0 \<and> td_rss td > lim_rss lm)"

definition execute_verdict :: "bool \<Rightarrow> TestdataItem \<Rightarrow> TestdataResult \<Rightarrow> cjail_result \<Rightarrow> Verdict" where
  "execute_verdict strict lm td cres =
     (if timekill cres = -1 then EE
      else if oomkill cres > 0 then MLE
      else if timekill cres \<noteq> 0 then TLE
      else if si_code cres = CLD_KILLED \<or> si_code cres = CLD_DUMPED then
        (if si_status cres = SIGXFSZ \<or> (strict \<and> si_status cres = SIGPIPE) then OLE
         else if over_limit lm td then MLE
         else SIG)
      else if over_limit lm td then MLE
      else if si_status cres \<noteq> 0 then RE
      else if td_time td > lim_time lm then TLE
      else NUL)"

definition execute_usage :: "Config \<Rightarrow> int \<Rightarrow> cjail_result \<Rightarrow> TestdataResult \<Rightarrow> TestdataResult" where
  "execute_usage cfg stg cres td =
     (let us = ToUs (kTimeMultiplier cfg) (ru_utime cres) + ToUs (kTimeMultiplier cfg) (ru_stime cres)
      in if stg = 0
         then td\<lparr>td_vss := hiwater_vm cres, td_rss := ru_maxrss cres, td_time := us, td_score := 0\<rparr>
         else td\<lparr>td_vss := max (td_vss td) (hiwater_vm cres), td_rss := max (td_rss td) (ru_maxrss cres),
                td_time := td_time td + us\<rparr>)"

definition execute_output_ops :: "Config \<Rightarrow> FsView \<Rightarrow> Submission \<Rightarrow> int \<Rightarrow> int \<Rightarrow> fs_op list" where
  "execute_output_ops cfg fs sb i stg =
     (let iid = submission_internal_id sb;
          output_path = ExecuteBoxOutput cfg iid i stg (sandbox_strict sb) False;
          output_dest = ExecuteBoxFinalOutput cfg iid i stg;
          workdir = Workdir (ExecuteBoxPath cfg iid i stg)
      in (if is_regular fs output_path then [FsMove output_path output_dest (Some kPerm666)]
          else [FsTouch output_dest, FsPermissions output_dest kPerm666]) @
         [FsChownRoot output_dest] @
         (if sandbox_strict sb then [] else [FsUmount workdir]) @
         [FsRemoveAll workdir] @
         (if stg > 0 then [FsRemoveAll (ExecuteBoxPath cfg iid i (stg - 1))] else []))"

definition FinalizeExecute ::
    "Config \<Rightarrow> FsView \<Rightarrow> SubmissionAndResult \<Rightarrow> TaskEntry \<Rightarrow> cjail_result \<Rightarrow> JState \<Rightarrow>
     error + SubmissionAndResult \<times> JState" where
  "FinalizeExecute cfg fs sr task cres st =
     (let sb = sub sr; res = result sr; i = subtask (te_task task); stg = stage (te_task task)
      in case nth_opt (testdata sb) (nat i) of
           None \<Rightarrow> Inl OutOfRange
         | Some lm \<Rightarrow>
             let tds = resize_results (nat i + 1) (td_results res);
                 td = execute_usage cfg stg cres ((tds ! nat i)\<lparr>execute_result := cres\<rparr>);
                 td = td\<lparr>td_verdict := execute_verdict (sandbox_strict sb) lm td cres\<rparr>
             in Inr (sr\<lparr>result := res\<lparr>td_results := tds[nat i := td]\<rparr>\<rparr>,
                     emit (map Fs (execute_output_ops cfg fs sb i stg)) st))"

section \<open>Facts\<close>

lemma length_resize_results [simp]: "length (resize_results n rs) = max n (length rs)"
  by (auto simp: resize_results_def)

lemma resize_results_nth:
  "i < max n (length rs) \<Longrightarrow>
   resize_results n rs ! i = (if i < length rs then rs ! i else TestdataResult_init)"
  by (auto simp: resize_results_def nth_append)

text \<open>
  The verdict of a clean run. Limits of 0 are unlimited memory; the time limit is always checked.
\<close>

definition within_limits :: "TestdataItem \<Rightarrow> TestdataResult \<Rightarrow> bool" where
  "within_limits lm td \<longleftrightarrow>
     (lim_vss lm = 0 \<or> td_vss td \<le> lim_vss lm) \<and> (lim_rss lm = 0 \<or> td_rss td \<le> lim_rss lm) \<and>
     td_time td \<le> lim_time lm"

lemma execute_verdict_NUL:
  "execute_verdict strict lm td cres = NUL \<longleftrightarrow>
     timekill cres = 0 \<and> oomkill cres \<le> 0 \<and>
     si_code cres \<noteq> CLD_KILLED \<and> si_code cres \<noteq> CLD_DUMPED \<and> si_status cres = 0 \<and> within_limits lm td"
  by (auto simp: execute_verdict_def within_limits_def over_limit_def not_less)

lemma execute_verdict_range: "execute_verdict strict lm td cres \<in> {NUL, TLE, MLE, OLE, RE, SIG, EE}"
  by (simp add: execute_verdict_def)

lemma execute_usage_time:
  "td_time (execute_usage cfg stg cres td) =
     (if stg = 0 then 0 else td_time td) +
     ToUs (kTimeMultiplier cfg) (ru_utime cres) + ToUs (kTimeMultiplier cfg) (ru_stime cres)"
  by (simp add: execute_usage_def Let_def)

lemma FinalizeExecute_frame:
  assumes "FinalizeExecute cfg fs sr task cres st = Inr (sr', st')"
  shows "sub sr' = sub sr" "verdict (result sr') = verdict (result sr)"
    "length (td_results (result sr')) = max (Suc (nat (subtask (te_task task)))) (length (td_results (result sr)))"
    "\<exists>es. st' = emit es st"
    "j \<noteq> nat (subtask (te_task task)) \<Longrightarrow> j < length (td_results (result sr)) \<Longrightarrow>
      td_results (result sr') ! j = td_results (result sr) ! j"
  using assms
  by (auto simp: FinalizeExecute_def Let_def resize_results_nth split: option.splits)

lemma SetupExecute_frame: "SetupExecute cfg fs sr task st = Inr (b, st') \<Longrightarrow> \<exists>es. st' = emit es st"
proof -
  have "st = emit [] st" by (simp add: emit_def)
  then show "SetupExecute cfg fs sr task st = Inr (b, st') \<Longrightarrow> \<exists>es. st' = emit es st"
    by (auto simp: SetupExecute_def Let_def split: if_splits option.splits prod.splits)
qed

end
