(* ===== verification/Streams.thy ===== *)
theory Streams
  imports Score
begin

text \<open>
  Reading text: the extractions \<open>fin >> x\<close> of \<open>std::ifstream\<close> the special-judge readers of
  \<open>src/tioj/submission.cpp\<close> use, for words, integers and \<open>long double\<close>, as libstdc++ does them in
  the C locale, and \<open>std::stold\<close>. A stream is the text left and its fail state; once failed, every
  extraction is a no-op.
\<close>

section \<open>Streams\<close>

record stream =
  left :: string
  fail :: bool

definition open_stream :: "string \<Rightarrow> stream" where
  "open_stream s = \<lparr>left = s, fail = False\<rparr>"

text \<open>\<open>isspace\<close> in the C locale: space, \<open>\t \n \v \f \r\<close>.\<close>

definition isspace :: "char \<Rightarrow> bool" where
  "isspace c \<longleftrightarrow> (let n = (of_char c :: nat) in n = 32 \<or> (9 \<le> n \<and> n \<le> 13))"

definition skip_ws :: "string \<Rightarrow> string" where
  "skip_ws s = dropWhile isspace s"

definition read_word :: "stream \<Rightarrow> string option \<times> stream" where
  "read_word st =
     (if fail st then (None, st)
      else let s = skip_ws (left st)
           in if s = [] then (None, \<lparr>left = [], fail = True\<rparr>)
              else (Some (takeWhile (\<lambda>c. \<not> isspace c) s),
                    \<lparr>left = dropWhile (\<lambda>c. \<not> isspace c) s, fail = False\<rparr>))"

definition split_sign :: "string \<Rightarrow> bool \<times> string" where
  "split_sign s =
     (case s of c # cs \<Rightarrow> if c = CHR ''-'' then (True, cs) else if c = CHR ''+'' then (False, cs) else (False, s)
      | [] \<Rightarrow> (False, s))"

definition signed :: "bool \<Rightarrow> 'a::uminus \<Rightarrow> 'a" where
  "signed neg x = (if neg then - x else x)"

text \<open>Signed integers of a type with the range \<open>lo .. hi\<close>; out of range sets the fail bit.\<close>

definition read_int :: "int \<Rightarrow> int \<Rightarrow> stream \<Rightarrow> int option \<times> stream" where
  "read_int lo hi st =
     (if fail st then (None, st)
      else let (neg, s) = split_sign (skip_ws (left st));
               ds = takeWhile isdigit s;
               s' = dropWhile isdigit s;
               v = signed neg (int (parse_nat ds))
           in if ds = [] \<or> v < lo \<or> hi < v then (None, \<lparr>left = s', fail = True\<rparr>)
              else (Some v, \<lparr>left = s', fail = False\<rparr>))"

abbreviation read_long :: "stream \<Rightarrow> int option \<times> stream" where
  "read_long \<equiv> read_int (- (2 ^ 63)) (2 ^ 63 - 1)"

abbreviation read_int32 :: "stream \<Rightarrow> int option \<times> stream" where
  "read_int32 \<equiv> read_int (- (2 ^ 31)) (2 ^ 31 - 1)"

section \<open>Decimal floating-point text\<close>

text \<open>
  The value of a decimal mantissa with integer digits \<open>ip\<close>, fraction digits \<open>fp\<close> and exponent \<open>e\<close>.
\<close>

definition decimal :: "string \<Rightarrow> string \<Rightarrow> int \<Rightarrow> rat" where
  "decimal ip fp e = of_nat (parse_nat (ip @ fp)) * 10 powi (e - int (length fp))"

definition LDBL_MAX :: rat where
  "LDBL_MAX = (2 ^ 64 - 1) * 2 ^ 16320"

text \<open>
  \<open>fin >> x\<close> for a \<open>long double\<close>: the characters of a decimal number are collected and converted; an
  empty mantissa or an exponent without digits fails with the value 0, an overflow fails with the
  largest finite value.
\<close>

definition ld_exponent :: "string \<Rightarrow> (bool \<times> string) option \<times> string" where
  "ld_exponent s =
     (if s \<noteq> [] \<and> (hd s = CHR ''e'' \<or> hd s = CHR ''E'')
      then let (neg, t) = split_sign (tl s) in (Some (neg, takeWhile isdigit t), dropWhile isdigit t)
      else (None, s))"

definition read_ld :: "stream \<Rightarrow> ldouble \<times> stream" where
  "read_ld st =
     (if fail st then (Fin 0, st)
      else let (neg, s) = split_sign (skip_ws (left st));
               ip = takeWhile isdigit s;
               s = dropWhile isdigit s;
               frac = (s \<noteq> [] \<and> hd s = CHR ''.'');
               fp = (if frac then takeWhile isdigit (tl s) else []);
               s = (if frac then dropWhile isdigit (tl s) else s);
               (ex, s) = (if ip @ fp = [] then (None, s) else ld_exponent s);
               (eneg, ep) = (case ex of None \<Rightarrow> (False, ''0'') | Some x \<Rightarrow> x)
           in if ip @ fp = [] \<or> ep = [] then (Fin 0, \<lparr>left = s, fail = True\<rparr>)
              else case ld_fin (signed neg (decimal ip fp (signed eneg (int (parse_nat ep))))) of
                     PInf \<Rightarrow> (Fin LDBL_MAX, \<lparr>left = s, fail = True\<rparr>)
                   | NInf \<Rightarrow> (Fin (- LDBL_MAX), \<lparr>left = s, fail = True\<rparr>)
                   | v \<Rightarrow> (v, \<lparr>left = s, fail = False\<rparr>))"

section \<open>\<open>std::stold\<close>\<close>

definition tolower :: "char \<Rightarrow> char" where
  "tolower c =
     (let n = (of_char c :: nat) in if 65 \<le> n \<and> n \<le> 90 then char_of (n + 32) else c)"

definition isxdigit :: "char \<Rightarrow> bool" where
  "isxdigit c \<longleftrightarrow> isdigit c \<or> (let n = (of_char (tolower c) :: nat) in 97 \<le> n \<and> n \<le> 102)"

definition xdigit_val :: "char \<Rightarrow> nat" where
  "xdigit_val c = (if isdigit c then digit_val c else of_char (tolower c) - 87)"

definition parse_hex :: "string \<Rightarrow> nat" where
  "parse_hex s = foldl (\<lambda>a c. 16 * a + xdigit_val c) 0 s"

text \<open>An exponent is taken only when digits follow the letter.\<close>

definition opt_exponent :: "char \<Rightarrow> string \<Rightarrow> int" where
  "opt_exponent letter s =
     (if s \<noteq> [] \<and> tolower (hd s) = letter
      then let (neg, t) = split_sign (tl s)
           in signed neg (int (parse_nat (takeWhile isdigit t)))
      else 0)"

definition split_fraction :: "(char \<Rightarrow> bool) \<Rightarrow> string \<Rightarrow> string \<times> string \<times> string" where
  "split_fraction p s =
     (let ip = takeWhile p s; s2 = dropWhile p s
      in if s2 \<noteq> [] \<and> hd s2 = CHR ''.''
         then (ip, takeWhile p (tl s2), dropWhile p (tl s2)) else (ip, [], s2))"

text \<open>The smallest positive normal \<open>long double\<close>; below it \<open>strtold\<close> sets \<open>ERANGE\<close>.\<close>

definition LDBL_MIN :: rat where
  "LDBL_MIN = 1 / 2 ^ 16382"

definition in_ld_range :: "bool \<Rightarrow> rat \<Rightarrow> ldouble option" where
  "in_ld_range neg q =
     (case ld_fin (signed neg q) of
        Fin r \<Rightarrow> if r \<noteq> 0 \<and> \<bar>r\<bar> < LDBL_MIN \<or> (r = 0 \<and> q \<noteq> 0) then None else Some (Fin r)
      | _ \<Rightarrow> None)"

text \<open>\<open>None\<close> stands for the exceptions \<open>invalid_argument\<close> and \<open>out_of_range\<close>.\<close>

definition stold :: "string \<Rightarrow> ldouble option" where
  "stold str =
     (let (neg, s) = split_sign (skip_ws str); l = map tolower s
      in if take 3 l = ''inf'' then Some (if neg then NInf else PInf)
         else if take 3 l = ''nan'' then Some NaN
         else let (hi, hf, hr) = split_fraction isxdigit (drop 2 s)
              in if take 2 l = ''0x'' \<and> hi @ hf \<noteq> []
                 then in_ld_range neg
                   (of_nat (parse_hex (hi @ hf)) * 2 powi (opt_exponent CHR ''p'' hr - 4 * int (length hf)))
                 else let (ip, fp, r) = split_fraction isdigit s
                      in if ip @ fp = [] then None
                         else in_ld_range neg (decimal ip fp (opt_exponent CHR ''e'' r)))"

section \<open>Reading back what was printed\<close>

lemma skip_ws_nonspace: "\<not> isspace c \<Longrightarrow> skip_ws (c # s) = c # s"
  by (simp add: skip_ws_def)

lemma isdigit_not_space: "isdigit c \<Longrightarrow> \<not> isspace c"
  by (auto simp: isdigit_def isspace_def Let_def)

lemma takeWhile_digits:
  "\<forall>c \<in> set ds. isdigit c \<Longrightarrow> rest = [] \<or> \<not> isdigit (hd rest) \<Longrightarrow>
   takeWhile isdigit (ds @ rest) = ds \<and> dropWhile isdigit (ds @ rest) = rest"
  by (cases rest) (auto simp: takeWhile_append2 dropWhile_append2)

lemma split_sign_digits:
  "ds \<noteq> [] \<Longrightarrow> \<forall>c \<in> set ds. isdigit c \<Longrightarrow> split_sign (ds @ rest) = (False, ds @ rest)"
  using isdigit_not_minus by (cases ds) (auto simp: split_sign_def isdigit_def)

lemma read_int_printed:
  assumes "lo \<le> n" "n \<le> hi" "rest = [] \<or> \<not> isdigit (hd rest)"
  shows "read_int lo hi \<lparr>left = to_string n @ rest, fail = False\<rparr> = (Some n, \<lparr>left = rest, fail = False\<rparr>)"
proof -
  let ?ds = "nat_to_string (nat \<bar>n\<bar>)"
  have d: "\<forall>c \<in> set ?ds. isdigit c" using nat_to_string_digits by blast
  obtain c cs where c: "?ds = c # cs" using nat_to_string_nonempty by (cases ?ds) auto
  have t: "takeWhile isdigit (?ds @ rest) = ?ds" "dropWhile isdigit (?ds @ rest) = rest"
    using takeWhile_digits [OF d assms(3)] by simp_all
  have "split_sign (skip_ws (to_string n @ rest)) = (n < 0, ?ds @ rest)"
  proof (cases "n < 0")
    case True
    then show ?thesis
      by (simp add: to_string_def skip_ws_nonspace isspace_def split_sign_def)
  next
    case False
    have "skip_ws (?ds @ rest) = ?ds @ rest"
      using c d isdigit_not_space by (simp add: skip_ws_nonspace)
    then show ?thesis
      using False split_sign_digits [OF nat_to_string_nonempty d] by (simp add: to_string_def)
  qed
  then show ?thesis
    using assms(1,2) t by (auto simp: read_int_def signed_def Let_def split: if_splits)
qed

section \<open>Extractions shorten the text\<close>

lemma read_word_shorter:
  "read_word st = (Some w, st') \<Longrightarrow> length (left st') < length (left st) \<and> \<not> fail st'"
proof -
  assume r: "read_word st = (Some w, st')"
  let ?s = "skip_ws (left st)"
  have l: "length ?s \<le> length (left st)" by (simp add: skip_ws_def length_dropWhile_le)
  from r have s: "?s \<noteq> []" and st': "st' = \<lparr>left = dropWhile (\<lambda>c. \<not> isspace c) ?s, fail = False\<rparr>"
    by (auto simp: read_word_def Let_def split: if_splits)
  have "\<not> isspace (hd ?s)" using s hd_dropWhile [of isspace "left st"] by (simp add: skip_ws_def)
  then have "dropWhile (\<lambda>c. \<not> isspace c) ?s = dropWhile (\<lambda>c. \<not> isspace c) (tl ?s)"
    using s by (cases ?s) auto
  then have "length (left st') \<le> length (tl ?s)" unfolding st' by (simp only: stream.simps length_dropWhile_le)
  with s l st' show ?thesis by (cases ?s) auto
qed

lemma split_sign_le: "length (snd (split_sign s)) \<le> length s"
  by (cases s) (auto simp: split_sign_def)

lemma skip_ws_le: "length (skip_ws s) \<le> length s"
  by (simp add: skip_ws_def length_dropWhile_le)

lemma read_int_left: "length (left (snd (read_int lo hi st))) \<le> length (left st)"
proof -
  let ?s = "snd (split_sign (skip_ws (left st)))"
  have "length (dropWhile isdigit ?s) \<le> length (left st)"
    using length_dropWhile_le split_sign_le skip_ws_le order_trans by metis
  then show ?thesis by (auto simp: read_int_def Let_def split: prod.splits)
qed

lemma length_dropWhile_le': "length s \<le> n \<Longrightarrow> length (dropWhile P s) \<le> n"
  using length_dropWhile_le order_trans by blast

lemma ld_exponent_le: "length (snd (ld_exponent s)) \<le> length s"
proof -
  have "length (snd (split_sign (tl s))) \<le> length s" using split_sign_le [of "tl s"] by simp
  then show ?thesis
    by (auto simp: ld_exponent_def Let_def length_dropWhile_le' split: prod.splits)
qed

lemma read_ld_left: "length (left (snd (read_ld st))) \<le> length (left st)"
proof (cases "fail st")
  case True
  then show ?thesis by (simp add: read_ld_def)
next
  case False
  obtain neg s1 where s1: "split_sign (skip_ws (left st)) = (neg, s1)" by fastforce
  have l1: "length s1 \<le> length (left st)"
    using split_sign_le [of "skip_ws (left st)"] skip_ws_le [of "left st"] s1 by simp
  define s2 where "s2 = dropWhile isdigit s1"
  define frac where "frac = (s2 \<noteq> [] \<and> hd s2 = CHR ''.'')"
  define fp where "fp = (if frac then takeWhile isdigit (tl s2) else [])"
  define s3 where "s3 = (if frac then dropWhile isdigit (tl s2) else s2)"
  have l2: "length s2 \<le> length (left st)" using l1 by (simp add: s2_def length_dropWhile_le')
  then have l3: "length s3 \<le> length (left st)" by (auto simp: s3_def intro: length_dropWhile_le')
  obtain ex s4 where s4: "(if takeWhile isdigit s1 @ fp = [] then (None, s3) else ld_exponent s3) = (ex, s4)"
    by fastforce
  have l4: "length s4 \<le> length (left st)"
    using s4 ld_exponent_le [of s3] l3 by (auto split: if_splits)
  obtain eneg ep where ep: "(case ex of None \<Rightarrow> (False, ''0'') | Some x \<Rightarrow> x) = (eneg, ep)" by fastforce
  have "left (snd (read_ld st)) = s4"
    unfolding read_ld_def if_not_P [OF False] s1 Let_def prod.case
    unfolding s2_def [symmetric]
    unfolding frac_def [symmetric]
    unfolding fp_def [symmetric] s3_def [symmetric]
    unfolding s4 prod.case ep
    by (simp split: ldouble.split)
  with l4 show ?thesis by simp
qed

lemma read_word_left: "length (left (snd (read_word st))) \<le> length (left st)"
  by (auto simp: read_word_def Let_def skip_ws_le length_dropWhile_le')

end
