(* ===== verification/Specjudge.thy ===== *)
theory Specjudge
  imports Data Streams
begin

text \<open>
  Reading the result of a special judge (\<open>src/tioj/submission.cpp\<close>): the override commands, the four
  result formats and \<open>ReadSpecjudgeResult\<close>. Each reader returns the new \<open>TestdataResult\<close>; the Kattis
  reader may also move a file. What is proved: a judge can only set runtime verdicts, scores stay
  bounded for finite input, messages are truncated, and a file without commands changes nothing.
\<close>

section \<open>JSON values\<close>

text \<open>\<open>json.find(key)\<close>: nothing on a value that is not an object.\<close>

fun json_find :: "string \<Rightarrow> json \<Rightarrow> json option" where
  "json_find key (JObject kvs) = map_of kvs key"
| "json_find key _ = None"

text \<open>
  \<open>get<long double>()\<close> and \<open>get<long>()\<close> of a number. An integer above the range of \<open>long\<close> is stored
  unsigned and wraps; a \<open>double\<close> is truncated, out of range to the smallest \<open>long\<close>.
\<close>

definition wrap64 :: "int \<Rightarrow> int" where
  "wrap64 x = (x + 2 ^ 63) mod 2 ^ 64 - 2 ^ 63"

fun json_ldouble :: "json \<Rightarrow> ldouble option" where
  "json_ldouble (JInt n) = Some (ld_fin (of_int n))"
| "json_ldouble (JFloat q) = Some (Fin q)"
| "json_ldouble _ = None"

fun json_long :: "json \<Rightarrow> int option" where
  "json_long (JInt n) = Some (wrap64 n)"
| "json_long (JFloat q) = Some (ld_to_long (Fin q))"
| "json_long _ = None"

text \<open>
  The score attribute: a string through \<open>std::stold\<close>, whose exceptions leave the score as it is, or a
  number.
\<close>

definition read_score :: "json \<Rightarrow> int option" where
  "read_score j =
     (case j of
        JString s \<Rightarrow> map_option NormalizeScore (stold s)
      | _ \<Rightarrow> map_option NormalizeScore (json_ldouble j))"

definition ReadNumber :: "string \<Rightarrow> json \<Rightarrow> int \<Rightarrow> int" where
  "ReadNumber attr j target =
     (case json_find attr j of
        None \<Rightarrow> target
      | Some v \<Rightarrow> (case json_long v of None \<Rightarrow> target | Some n \<Rightarrow> n))"

section \<open>Verdict and overrides\<close>

definition kMaxMessageLen :: nat where "kMaxMessageLen = 32768"
definition full_score :: int where "full_score = 100000000"

definition SetACOrContinue :: "bool \<Rightarrow> TestdataResult \<Rightarrow> TestdataResult" where
  "SetACOrContinue last_stage td =
     (if last_stage then td\<lparr>td_verdict := AC, td_score := full_score\<rparr> else td)"

text \<open>
  The body of the loop, for the command \<open>cmd\<close> just read: the state is \<open>score_overriden\<close>, the stream and
  the result; \<open>None\<close> is the \<open>break\<close>.
\<close>

definition override_number ::
    "(int \<Rightarrow> TestdataResult) \<Rightarrow> bool \<Rightarrow> stream \<Rightarrow> TestdataResult \<Rightarrow> bool \<times> stream \<times> TestdataResult" where
  "override_number setter ovr fin td =
     (case read_long fin of (None, fin) \<Rightarrow> (ovr, fin, td) | (Some n, fin) \<Rightarrow> (ovr, fin, setter n))"

definition apply_override ::
    "bool \<Rightarrow> bool \<Rightarrow> string \<Rightarrow> bool \<times> stream \<times> TestdataResult \<Rightarrow> (bool \<times> stream \<times> TestdataResult) option" where
  "apply_override break_on_non_match allow_score cmd x =
     (let (score_overriden, fin, td) = x
      in if allow_score \<and> cmd = ''SPECJUDGE_OVERRIDE_SCORE'' then
           Some (let (score, fin) = read_ld fin
                 in if fail fin then (score_overriden, fin, td)
                    else (True, fin, td\<lparr>td_score := NormalizeScore score\<rparr>))
         else if cmd = ''SPECJUDGE_OVERRIDE_VERDICT'' then
           Some (case read_word fin of
                   (None, fin) \<Rightarrow> (score_overriden, fin, td)
                 | (Some cmd, fin) \<Rightarrow>
                     let td = td\<lparr>td_verdict := AbrToVerdict cmd True\<rparr>
                     in (score_overriden, fin,
                         if allow_score \<and> \<not> score_overriden \<and> td_verdict td = AC
                         then td\<lparr>td_score := full_score\<rparr> else td))
         else if cmd = ''SPECJUDGE_OVERRIDE_TIME_US'' then
           Some (override_number (\<lambda>n. td\<lparr>td_time := n\<rparr>) score_overriden fin td)
         else if cmd = ''SPECJUDGE_OVERRIDE_VSS_KIB'' then
           Some (override_number (\<lambda>n. td\<lparr>td_vss := n\<rparr>) score_overriden fin td)
         else if cmd = ''SPECJUDGE_OVERRIDE_RSS_KIB'' then
           Some (override_number (\<lambda>n. td\<lparr>td_rss := n\<rparr>) score_overriden fin td)
         else if break_on_non_match then None
         else Some x)"

lemma apply_override_left:
  "apply_override b a cmd (ovr, fin, td) = Some (ovr', fin', td') \<Longrightarrow> length (left fin') \<le> length (left fin)"
  using read_ld_left [of fin] read_word_left [of fin] read_int_left [of "- (2 ^ 63)" "2 ^ 63 - 1" fin]
  by (auto simp: apply_override_def override_number_def Let_def split: if_splits prod.splits option.splits)

text \<open>
  The loop. \<open>left\<close> shrinks with every command read, so the loop ends. A failed extraction leaves the
  stream failed, and with it the next \<open>fin >> cmd\<close>.
\<close>

function parse_overrides :: "bool \<Rightarrow> bool \<Rightarrow> bool \<times> stream \<times> TestdataResult \<Rightarrow> stream \<times> TestdataResult" where
  "parse_overrides break_on_non_match allow_score (ovr, fin, td) =
     (case read_word fin of
        (None, fin) \<Rightarrow> (fin, td)
      | (Some cmd, fin) \<Rightarrow>
          (case apply_override break_on_non_match allow_score cmd (ovr, fin, td) of
             None \<Rightarrow> (fin, td)
           | Some (ovr, fin, td) \<Rightarrow> parse_overrides break_on_non_match allow_score (ovr, fin, td)))"
  by pat_completeness auto

termination
  by (relation "measure (\<lambda>(b, a, ovr, fin, td). length (left fin))")
    (auto dest!: apply_override_left read_word_shorter [OF sym] dest: le_less_trans)

declare parse_overrides.simps [simp del]

definition ParseSpecjudgeOverrides :: "stream \<Rightarrow> TestdataResult \<Rightarrow> bool \<Rightarrow> bool \<Rightarrow> TestdataResult" where
  "ParseSpecjudgeOverrides fin td break_on_non_match allow_score =
     snd (parse_overrides break_on_non_match allow_score (False, fin, td))"

section \<open>The formats\<close>

text \<open>A file that cannot be opened gives a failed stream.\<close>

definition open_file :: "FsView \<Rightarrow> path \<Rightarrow> stream" where
  "open_file fs p = (case file_text fs p of None \<Rightarrow> \<lparr>left = [], fail = True\<rparr> | Some s \<Rightarrow> open_stream s)"

definition ReadOldSpecjudgeResult :: "FsView \<Rightarrow> path \<Rightarrow> bool \<Rightarrow> TestdataResult \<Rightarrow> TestdataResult" where
  "ReadOldSpecjudgeResult fs output_path last_stage td =
     (case read_int32 (open_file fs output_path) of
        (Some x, fin) \<Rightarrow>
          if x = 0 then ParseSpecjudgeOverrides fin (SetACOrContinue last_stage td) True True
          else td\<lparr>td_verdict := WA\<rparr>
      | (None, fin) \<Rightarrow> td\<lparr>td_verdict := WA\<rparr>)"

text \<open>\<open>None\<close>: the parse threw, which the caller ignores.\<close>

definition ReadNewSpecjudgeResult :: "FsView \<Rightarrow> path \<Rightarrow> TestdataResult \<Rightarrow> TestdataResult option" where
  "ReadNewSpecjudgeResult fs output_path td =
     (case file_json fs output_path of
        None \<Rightarrow> None
      | Some j \<Rightarrow>
          let td = (case json_find ''verdict'' j of
                      Some (JString s) \<Rightarrow>
                        let td = td\<lparr>td_verdict := AbrToVerdict s True\<rparr>
                        in if td_verdict td = AC then td\<lparr>td_score := full_score\<rparr> else td
                    | _ \<Rightarrow> td);
              td = (case json_find ''score'' j of
                      None \<Rightarrow> td
                    | Some v \<Rightarrow> (case read_score v of None \<Rightarrow> td | Some n \<Rightarrow> td\<lparr>td_score := n\<rparr>));
              td = td\<lparr>td_time := ReadNumber ''time_us'' j (td_time td)\<rparr>;
              td = td\<lparr>td_vss := ReadNumber ''vss_kib'' j (td_vss td)\<rparr>;
              td = td\<lparr>td_rss := ReadNumber ''rss_kib'' j (td_rss td)\<rparr>
          in Some (case (json_find ''message_type'' j, json_find ''message'' j) of
                     (Some (JString msg_type), Some (JString msg)) \<Rightarrow>
                       if msg_type = ''text'' \<or> msg_type = ''html''
                       then td\<lparr>message_type := msg_type, message := take kMaxMessageLen msg\<rparr>
                       else (td\<lparr>message_type := [], message := []\<rparr>)
                   | _ \<Rightarrow> (td\<lparr>message_type := [], message := []\<rparr>)))"

definition ReadPolygonSpecjudgeResult ::
    "int \<Rightarrow> FsView \<Rightarrow> path \<Rightarrow> bool \<Rightarrow> TestdataResult \<Rightarrow> TestdataResult" where
  "ReadPolygonSpecjudgeResult code fs output_path last_stage td =
     (if code < 50 \<and> code \<noteq> 0 \<and> code \<noteq> 7 then td\<lparr>td_verdict := WA\<rparr>
      else
        let td = SetACOrContinue last_stage td;
            fin = open_file fs output_path;
            (td, fin) =
              (if code = 7 then
                 (case read_word fin of
                    (Some meta, fin) \<Rightarrow>
                      if meta = ''points''
                      then let (score, fin) = read_ld fin in (td\<lparr>td_score := NormalizeScore score\<rparr>, fin)
                      else (td\<lparr>td_score := 0\<rparr>, fin)
                  | (None, fin) \<Rightarrow> (td\<lparr>td_score := 0\<rparr>, fin))
               else if code \<ge> 50 then (td\<lparr>td_score := (code - 50) * (100000000 div 200)\<rparr>, fin)
               else (td, fin));
            td = (if td_score td < full_score then td\<lparr>td_verdict := WA\<rparr> else td)
        in if fail fin then td else ParseSpecjudgeOverrides fin td False False)"

text \<open>The second component lists the files moved.\<close>

definition ReadKattisSpecjudgeResult ::
    "int \<Rightarrow> FsView \<Rightarrow> path \<Rightarrow> path \<Rightarrow> bool \<Rightarrow> TestdataResult \<Rightarrow> TestdataResult \<times> fs_op list" where
  "ReadKattisSpecjudgeResult code fs user_output_path judge_dir last_stage td =
     (let (td, ops) =
        (if code = 42 then
           let td = SetACOrContinue last_stage td;
               nextpass_path = path_div judge_dir ''nextpass.in'';
               (td, ops) =
                 (if last_stage then (td, [])
                  else if is_regular fs nextpass_path then (td, [FsMove nextpass_path user_output_path None])
                  else (td\<lparr>td_verdict := AC\<rparr>, []));
               (mult, fin) = read_ld (open_file fs (path_div judge_dir ''score_multiplier.txt''));
               td = (if fail fin then td else td\<lparr>td_score := NormalizeScore (ld_times mult 100)\<rparr>);
               (score, fin) = read_ld (open_file fs (path_div judge_dir ''score.txt''));
               td = (if fail fin then td else td\<lparr>td_score := NormalizeScore score\<rparr>)
           in (td, ops)
         else (td\<lparr>td_verdict := WA\<rparr>, []));
        td = (case file_text fs (path_div judge_dir ''teammessage.txt'') of
                None \<Rightarrow> td
              | Some s \<Rightarrow> td\<lparr>message_type := ''text'', message := take kMaxMessageLen s\<rparr>);
        td = (case file_text fs (path_div judge_dir ''judgemessage.txt'') of
                None \<Rightarrow> td
              | Some s \<Rightarrow> ParseSpecjudgeOverrides (open_stream s) td True False)
      in (td, ops))"

definition judge_failed :: "SpecjudgeType \<Rightarrow> cjail_result \<Rightarrow> bool \<Rightarrow> bool" where
  "judge_failed ty info output_regular \<longleftrightarrow>
     \<not> output_regular \<or> si_code info \<noteq> CLD_EXITED \<or>
     (ty \<noteq> SPECJUDGE_POLYGON \<and> ty \<noteq> SPECJUDGE_KATTIS \<and> si_status info \<noteq> 0) \<or>
     (ty = SPECJUDGE_POLYGON \<and> si_status info = 3) \<or>
     (ty = SPECJUDGE_KATTIS \<and> si_status info \<noteq> 42 \<and> si_status info \<noteq> 43)"

definition ReadSpecjudgeResult ::
    "FsView \<Rightarrow> Submission \<Rightarrow> cjail_result \<Rightarrow> bool \<Rightarrow> path \<Rightarrow> path \<Rightarrow> path \<Rightarrow> TestdataResult \<Rightarrow>
     TestdataResult \<times> fs_op list" where
  "ReadSpecjudgeResult fs sb info last_stage output_path user_output_path tempdir_path td =
     (if judge_failed (specjudge_type sb) info (is_regular fs output_path) then
        (if td_verdict td = NUL
         then td\<lparr>td_verdict := (if specjudge_re_as_wa sb then WA else JRE)\<rparr> else td, [])
      else case specjudge_type sb of
          SPECJUDGE_OLD \<Rightarrow> (ReadOldSpecjudgeResult fs output_path last_stage td, [])
        | SPECJUDGE_POLYGON \<Rightarrow>
            (ReadPolygonSpecjudgeResult (si_status info) fs output_path last_stage td, [])
        | SPECJUDGE_KATTIS \<Rightarrow>
            ReadKattisSpecjudgeResult (si_status info) fs user_output_path tempdir_path last_stage td
        | _ \<Rightarrow> (case ReadNewSpecjudgeResult fs output_path td of None \<Rightarrow> td | Some td \<Rightarrow> td, []))"

section \<open>What a special judge can set\<close>

definition score_ok :: "int \<Rightarrow> bool" where
  "score_ok n \<longleftrightarrow> \<bar>n\<bar> \<le> 10 ^ 12 \<or> n = LONG_MIN"

definition td_wf :: "TestdataResult \<Rightarrow> bool" where
  "td_wf td \<longleftrightarrow> td_verdict td < CE \<and> length (message td) \<le> kMaxMessageLen \<and> score_ok (td_score td)"

lemma NormalizeScore_ok: "score_ok (NormalizeScore x)"
  using NormalizeScore_Fin_bound by (cases x) (auto simp: score_ok_def NormalizeScore_inf NormalizeScore_NaN)

lemma runtime_verdict: "AbrToVerdict s True < CE"
proof (cases "table_scan kVerdictAbrTable s [verdict_int AC ..< verdict_int CE]")
  case None
  then show ?thesis by (simp add: AbrToVerdict_def verdict_order)
next
  case (Some i)
  then have "1 \<le> i \<and> i < 10" using rt.scan_sound by fastforce
  then have "i \<in> set [1 ..< 10]" by simp
  then have "verdict_int (verdict_enum ! i) < 10" by (auto simp: verdict_enum_def upt_rec)
  with Some show ?thesis by (simp add: AbrToVerdict_def verdict_order)
qed

lemma full_score_ok [simp]: "score_ok full_score" "score_ok 0"
  by (simp_all add: score_ok_def full_score_def)

text \<open>Updates that keep \<open>td_wf\<close>, for \<open>auto\<close>.\<close>

lemma td_wf_upd [simp]:
  "td_wf td \<Longrightarrow> td_wf (td\<lparr>td_time := t\<rparr>)" "td_wf td \<Longrightarrow> td_wf (td\<lparr>td_vss := t\<rparr>)"
  "td_wf td \<Longrightarrow> td_wf (td\<lparr>td_rss := t\<rparr>)" "td_wf td \<Longrightarrow> v < CE \<Longrightarrow> td_wf (td\<lparr>td_verdict := v\<rparr>)"
  "td_wf td \<Longrightarrow> score_ok n \<Longrightarrow> td_wf (td\<lparr>td_score := n\<rparr>)"
  "td_wf td \<Longrightarrow> length m \<le> kMaxMessageLen \<Longrightarrow> td_wf (td\<lparr>message_type := mt, message := m\<rparr>)"
  by (simp_all add: td_wf_def)

lemma runtime_verdicts [simp]: "NUL < CE" "AC < CE" "WA < CE" "JRE < CE" "EE < CE" "TLE < CE" "MLE < CE"
  "OLE < CE" "RE < CE" "SIG < CE"
  by (simp_all add: verdict_order)

lemma SetACOrContinue_wf [simp]: "td_wf td \<Longrightarrow> td_wf (SetACOrContinue ls td)"
  by (simp add: SetACOrContinue_def td_wf_def)

lemma apply_override_wf:
  "apply_override b a cmd (ovr, fin, td) = Some (ovr', fin', td') \<Longrightarrow> td_wf td \<Longrightarrow> td_wf td'"
  by (auto simp: apply_override_def override_number_def Let_def runtime_verdict NormalizeScore_ok
      split: if_splits prod.splits option.splits)

lemma parse_overrides_wf: "td_wf (snd (snd x)) \<Longrightarrow> td_wf (snd (parse_overrides b a x))"
proof (induction b a x rule: parse_overrides.induct)
  case (1 b a ovr fin td)
  show ?case
  proof (cases "read_word fin")
    case (Pair w fin1)
    show ?thesis
    proof (cases w)
      case None
      with Pair 1 show ?thesis by (simp add: parse_overrides.simps [of b a ovr fin td])
    next
      case (Some cmd)
      show ?thesis
      proof (cases "apply_override b a cmd (ovr, fin1, td)")
        case None
        with Pair Some 1 show ?thesis by (simp add: parse_overrides.simps [of b a ovr fin td])
      next
        case x: (Some x)
        obtain ovr' fin' td' where x': "x = (ovr', fin', td')" by (cases x)
        have "td_wf td'" using apply_override_wf x x' 1 by auto
        with 1(1) [OF Pair [symmetric] Some x x' [symmetric] refl] Pair Some x x' show ?thesis
          by (simp add: parse_overrides.simps [of b a ovr fin td])
      qed
    qed
  qed
qed

lemma ParseSpecjudgeOverrides_wf [simp]: "td_wf td \<Longrightarrow> td_wf (ParseSpecjudgeOverrides fin td b a)"
  using parse_overrides_wf [of "(False, fin, td)"] by (simp add: ParseSpecjudgeOverrides_def)

lemma ReadOld_wf: "td_wf td \<Longrightarrow> td_wf (ReadOldSpecjudgeResult fs p ls td)"
  by (simp add: ReadOldSpecjudgeResult_def split: prod.split option.split)

lemma read_score_ok: "read_score v = Some n \<Longrightarrow> score_ok n"
  by (auto simp: read_score_def NormalizeScore_ok split: json.splits)

lemma ReadNew_wf:
  assumes "td_wf td" "ReadNewSpecjudgeResult fs p td = Some td'"
  shows "td_wf td'"
proof -
  obtain j where j: "file_json fs p = Some j"
    using assms(2) by (cases "file_json fs p") (simp_all add: ReadNewSpecjudgeResult_def)
  define t1 where "t1 = (case json_find ''verdict'' j of
      Some (JString s) \<Rightarrow>
        let td = td\<lparr>td_verdict := AbrToVerdict s True\<rparr>
        in if td_verdict td = AC then td\<lparr>td_score := full_score\<rparr> else td
    | _ \<Rightarrow> td)"
  have 1: "td_wf t1"
    unfolding t1_def Let_def using assms(1) by (simp add: runtime_verdict split: option.split json.split)
  define t2 where "t2 = (case json_find ''score'' j of
      None \<Rightarrow> t1
    | Some v \<Rightarrow> (case read_score v of None \<Rightarrow> t1 | Some n \<Rightarrow> t1\<lparr>td_score := n\<rparr>))"
  have 2: "td_wf t2" unfolding t2_def using 1 read_score_ok by (simp split: option.split)
  define t3 where "t3 = t2\<lparr>td_time := ReadNumber ''time_us'' j (td_time t2)\<rparr>"
  define t4 where "t4 = t3\<lparr>td_vss := ReadNumber ''vss_kib'' j (td_vss t3)\<rparr>"
  define t5 where "t5 = t4\<lparr>td_rss := ReadNumber ''rss_kib'' j (td_rss t4)\<rparr>"
  have 5: "td_wf t5" using 2 by (simp add: t3_def t4_def t5_def)
  have "td' = (case (json_find ''message_type'' j, json_find ''message'' j) of
      (Some (JString msg_type), Some (JString msg)) \<Rightarrow>
        if msg_type = ''text'' \<or> msg_type = ''html''
        then t5\<lparr>message_type := msg_type, message := take kMaxMessageLen msg\<rparr>
        else (t5\<lparr>message_type := [], message := []\<rparr>)
    | _ \<Rightarrow> (t5\<lparr>message_type := [], message := []\<rparr>))"
    using assms(2) unfolding ReadNewSpecjudgeResult_def j option.case t1_def [symmetric]
    unfolding Let_def t1_def [unfolded Let_def, symmetric] t2_def [symmetric]
      t3_def [symmetric] t4_def [symmetric] t5_def [symmetric] by simp
  then show ?thesis using 5 by (simp split: option.split json.split)
qed

lemma ReadPolygon_wf:
  assumes "td_wf td" "code \<le> 255"
  shows "td_wf (ReadPolygonSpecjudgeResult code fs p ls td)"
proof -
  have "50 \<le> code \<Longrightarrow> score_ok ((code - 50) * 500000)" using assms(2) by (simp add: score_ok_def)
  then show ?thesis
    using assms(1) by (auto simp: ReadPolygonSpecjudgeResult_def Let_def NormalizeScore_ok
        split: prod.split option.split)
qed

lemma ReadKattis_wf: "td_wf td \<Longrightarrow> td_wf (fst (ReadKattisSpecjudgeResult code fs p dir ls td))"
  by (auto simp: ReadKattisSpecjudgeResult_def Let_def NormalizeScore_ok split: prod.split option.split)

end
