(* ===== verification/Scoring.thy ===== *)
theory Scoring
  imports Execute Specjudge
begin

text \<open>
  \<open>TestdataMeta\<close>, \<open>TestdataMetaOld\<close>, \<open>SetupScoring\<close> and \<open>FinalizeScoring\<close> of
  \<open>src/tioj/submission.cpp\<close>: when a scoring is skipped, what a special judge gets, and how its result
  ends or continues the stages of a testdata and cancels its groups.
\<close>

section \<open>Meta files\<close>

definition TestdataMeta :: "Config \<Rightarrow> Submission \<Rightarrow> TestdataItem \<Rightarrow> TestdataResult \<Rightarrow> int \<Rightarrow> int \<Rightarrow> json" where
  "TestdataMeta cfg sb lm td i stg =
     (let res = execute_result td; us = (\<lambda>v. JInt (ToUs (kTimeMultiplier cfg) v))
      in JObject
       [(''input_file'', JString (ScoringBoxTdInput cfg (-1) (-1) (-1) True)),
        (''answer_file'', JString (ScoringBoxTdOutput cfg (-1) (-1) (-1) True)),
        (''user_output_file'', JString (ScoringBoxUserOutput cfg (-1) (-1) (-1) True)),
        (''user_code_file'', JString (ScoringBoxUserCode cfg (-1) (-1) (-1) (lang sb) True)),
        (''problem_id'', JInt (problem_id sb)),
        (''contest_id'', JInt (contest_id sb)),
        (''submission_id'', JInt (submission_id sb)),
        (''submitter_id'', JInt (submitter_id sb)),
        (''submitter_name'', JString (submitter_name sb)),
        (''submitter_nickname'', JString (submitter_nickname sb)),
        (''submission_time'', JInt (submission_time sb)),
        (''compiler'', JString (CompilerName (lang sb))),
        (''testdata_index'', JInt i),
        (''current_stage'', JInt stg),
        (''original_verdict'', JString (VerdictToAbr (td_verdict td))),
        (''current_time_us'', JInt (td_time td)),
        (''message_type'', JString (message_type td)),
        (''message'', JString (message td)),
        (''tempdir'', JString (ScoringBoxTempdir cfg (-1) (-1) (-1) True)),
        (''limits'', JObject
          [(''time_us'', JInt (lim_time lm)), (''vss_kib'', JInt (lim_vss lm)),
           (''rss_kib'', JInt (lim_rss lm)), (''output_kib'', JInt (lim_output lm))]),
        (''stats'', JObject
          [(''exit_code'', JInt (si_status res)), (''real_us'', us (real_time res)),
           (''user_us'', us (ru_utime res)), (''sys_us'', us (ru_stime res)),
           (''max_rss_kib'', JInt (ru_maxrss res)), (''max_vss_kib'', JInt (hiwater_vm res))])])"

definition newline :: string where "newline = [CHR 10]"

definition TestdataMetaOld :: "TestdataResult \<Rightarrow> int \<Rightarrow> string" where
  "TestdataMetaOld td i =
     (if td_verdict td = NUL then ''NONE'' else VerdictToAbr (td_verdict td)) @ newline @
     to_string i @ newline @ to_string (td_time td) @ newline @
     to_string (td_vss td) @ newline @ to_string (td_rss td) @ newline"

section \<open>Finalize\<close>

text \<open>What the stage means for the testdata, once the result is read.\<close>

definition scoring_outcome :: "bool \<Rightarrow> TestdataResult \<Rightarrow> TestdataResult" where
  "scoring_outcome last_stage td =
     (if \<not> last_stage \<and> td_verdict td \<noteq> NUL then td\<lparr>skip_stage := True\<rparr>
      else if last_stage \<and> td_verdict td = NUL then td\<lparr>td_verdict := WA\<rparr>
      else td)"

text \<open>\<open>cancelled_group[id].insert(...)\<close>, under the condition of the code.\<close>

definition cancel_groups :: "Submission \<Rightarrow> int list \<Rightarrow> TestdataResult \<Rightarrow> JState \<Rightarrow> JState" where
  "cancel_groups sb groups td st =
     (let iid = submission_internal_id sb
      in if skip_group sb \<and> td_verdict td \<noteq> NUL \<and> td_verdict td \<noteq> AC
         then st\<lparr>cancelled_group := (cancelled_group st)
                (iid \<mapsto> (case cancelled_group st iid of None \<Rightarrow> {} | Some gs \<Rightarrow> gs) \<union> set groups)\<rparr>
         else st)"

definition scoring_end_ops :: "Config \<Rightarrow> Submission \<Rightarrow> bool \<Rightarrow> bool \<Rightarrow> TestdataResult \<Rightarrow> int \<Rightarrow> int \<Rightarrow> fs_op list" where
  "scoring_end_ops cfg sb last_stage skipped td i stg =
     (let iid = submission_internal_id sb
      in (if \<not> last_stage \<and> \<not> skipped \<and> \<not> skip_stage td \<and> specjudge_type sb \<noteq> SKIP
          then [FsMove (ScoringBoxUserOutput cfg iid i stg False) (ExecuteBoxFinalOutput cfg iid i stg) None]
          else []) @
         (if last_stage
          then FsRemoveAll (ExecuteBoxPath cfg iid i (stages sb - 1)) #
               (if skipped then [] else [FsRemoveAll (ScoringBoxPath cfg iid i (stages sb - 1))])
          else []) @
         (if judge_between_stages sb \<and> stg > 0 then [FsRemoveAll (ScoringBoxPath cfg iid i (stg - 1))] else []))"

definition FinalizeScoring ::
    "Config \<Rightarrow> FsView \<Rightarrow> SubmissionAndResult \<Rightarrow> TaskEntry \<Rightarrow> cjail_result \<Rightarrow> bool \<Rightarrow> JState \<Rightarrow>
     error + SubmissionAndResult \<times> JState" where
  "FinalizeScoring cfg fs sr task cres skipped st =
     (let sb = sub sr; res = result sr; iid = submission_internal_id sb;
          i = subtask (te_task task); stg = stage (te_task task)
      in case (nth_opt (td_results res) (nat i), nth_opt (testdata sb) (nat i)) of
           (Some td, Some item) \<Rightarrow>
             let last_stage = (stg = stages sb - 1);
                 td = td\<lparr>td_score := 0\<rparr>;
                 (td, moved) =
                   (if skipped then (td, [])
                    else ReadSpecjudgeResult fs sb cres last_stage (ScoringBoxOutput cfg iid i stg False)
                      (ScoringBoxUserOutput cfg iid i stg False) (ScoringBoxTempdir cfg iid i stg False) td);
                 td = scoring_outcome last_stage td;
                 res = res\<lparr>td_results := (td_results res)[nat i := td]\<rparr>;
                 st = cancel_groups sb (td_groups item) td st;
                 report = (iid \<notin> cancelled_list st \<and> ReportScoringResult (reporter sb) \<and>
                   (report_intermediate_stage sb \<or> last_stage \<or> skip_stage td))
             in Inr (sr\<lparr>result := res\<rparr>,
                  emit (map Fs (moved @ scoring_end_ops cfg sb last_stage skipped td i stg) @
                        (if report then [Rep (ScoringResult (submission_id sb) res i stg)] else [])) st)
         | _ \<Rightarrow> Inl OutOfRange)"

section \<open>Setup\<close>

text \<open>The view after a \<open>rename\<close>; a missing source leaves it as it is.\<close>

definition fs_move :: "path \<Rightarrow> path \<Rightarrow> FsView \<Rightarrow> FsView" where
  "fs_move p q fs =
     (if fs_exists fs p
      then fs\<lparr>is_regular := (is_regular fs)(p := False, q := is_regular fs p),
              fs_exists := (fs_exists fs)(p := False, q := True),
              file_size := (file_size fs)(p := None, q := file_size fs p),
              file_text := (file_text fs)(p := None, q := file_text fs p),
              file_json := (file_json fs)(p := None, q := file_json fs p)\<rparr>
      else fs)"

definition scoring_prog_ops :: "Config \<Rightarrow> Submission \<Rightarrow> int \<Rightarrow> int \<Rightarrow> fs_op list" where
  "scoring_prog_ops cfg sb i stg =
     (let iid = submission_internal_id sb
      in [FsCreateDirs (Workdir (ScoringBoxPath cfg iid i stg)) (Some perms_all),
          FsCopy (if specjudge_type sb = NORMAL then DefaultScoringPath cfg
                  else CompileBoxOutput cfg iid CS_SPECJUDGE (specjudge_lang sb) False)
            (ScoringBoxProgram cfg iid i stg (specjudge_lang sb) False) (Some perms_all),
          FsCopy (SubmissionUserCode cfg iid) (ScoringBoxUserCode cfg iid i stg (lang sb) False) (Some kPerm666)])"

definition scoring_input_ops :: "Config \<Rightarrow> FsView \<Rightarrow> Submission \<Rightarrow> TestdataItem \<Rightarrow> TestdataResult \<Rightarrow> int \<Rightarrow> int \<Rightarrow> fs_op list" where
  "scoring_input_ops cfg fs sb item td i stg =
     (let iid = submission_internal_id sb;
          user_output = ExecuteBoxFinalOutput cfg iid i stg;
          scoring_user_output = ScoringBoxUserOutput cfg iid i stg False;
          meta_file = ScoringBoxMetaFile cfg iid i stg False
      in (if fs_exists fs user_output then [FsMove user_output scoring_user_output (Some kPerm666)]
          else [FsTouch scoring_user_output, FsPermissions scoring_user_output kPerm666]) @
         [FsCopy (input_file item) (ScoringBoxTdInput cfg iid i stg False) (Some kPerm666),
          FsCopy (answer_file item) (ScoringBoxTdOutput cfg iid i stg False) (Some kPerm666),
          (if \<not> judge_between_stages sb \<or> stg = 0
           then FsCreateDirs (ScoringBoxTempdir cfg iid i stg False) (Some perms_all)
           else FsMove (ScoringBoxTempdir cfg iid i (stg - 1) False) (ScoringBoxTempdir cfg iid i stg False) None),
          (if specjudge_type sb = SPECJUDGE_OLD then FsWriteText meta_file (TestdataMetaOld td i)
           else FsWriteJson meta_file (TestdataMeta cfg sb item td i stg))])"

definition SetupScoring ::
    "Config \<Rightarrow> FsView \<Rightarrow> SubmissionAndResult \<Rightarrow> TaskEntry \<Rightarrow> JState \<Rightarrow>
     error + bool \<times> SubmissionAndResult \<times> JState" where
  "SetupScoring cfg fs sr task st =
     (let sb = sub sr; res = result sr; iid = submission_internal_id sb;
          i = subtask (te_task task); stg = stage (te_task task)
      in if verdict res \<noteq> NUL then Inr (False, sr, st)
         else case nth_opt (testdata sb) (nat i) of
           None \<Rightarrow> Inl OutOfRange
         | Some item \<Rightarrow>
             if IsCancelled st iid (td_groups item) then Inr (False, sr, st)
             else case nth_opt (td_results res) (nat i) of
               None \<Rightarrow> Inl OutOfRange
             | Some td \<Rightarrow>
                 if skip_stage td then Inr (False, sr, st)
                 else if td_verdict td \<noteq> NUL \<and> \<not> judge_abnormally_terminated sb then
                   map_sum (\<lambda>e. e) (Pair False) (FinalizeScoring cfg fs sr task cjail_zero True st)
                 else
                   let st = emit (map Fs (scoring_prog_ops cfg sb i stg)) st
                   in if specjudge_type sb = SKIP then
                        let user_output = ExecuteBoxFinalOutput cfg iid i stg;
                            dest = ScoringBoxOutput cfg iid i stg False
                        in map_sum (\<lambda>e. e) (Pair False)
                             (FinalizeScoring cfg (fs_move user_output dest fs) sr task cjail_zero False
                               (emit [Fs (FsMove user_output dest None)] st))
                      else Inr (True, sr, emit (map Fs (scoring_input_ops cfg fs sb item td i stg)) st))"

end
