(* ===== verification/Summary.thy ===== *)
theory Summary
  imports Scoring
begin

text \<open>
  \<open>SummaryMeta\<close>, \<open>SetupSummary\<close>, \<open>ReadSummaryResult\<close> and \<open>FinalizeSummary\<close> of
  \<open>src/tioj/submission.cpp\<close>: the overall verdict, the score of a submission from the scores of its
  testdata and groups, and the end of a submission.
\<close>

section \<open>Setup\<close>

text \<open>Printing a negative score can throw, so the meta file is fallible.\<close>

definition testdata_json :: "TestdataItem \<times> TestdataResult \<Rightarrow> error + json" where
  "testdata_json x =
     (let (item, td) = x
      in and_then (ScoreToString (td_score td)) (\<lambda>s. Inr (JObject
       [(''verdict'', JString (VerdictToAbr (td_verdict td))), (''score'', JString s),
        (''time_us'', JInt (td_time td)), (''vss_kib'', JInt (td_vss td)), (''rss_kib'', JInt (td_rss td)),
        (''message_type'', JString (message_type td)), (''message'', JString (message td)),
        (''ignore_verdict'', JBool (ignore_verdict item)),
        (''subtasks'', JArray (map JInt (td_groups item)))])))"

definition SummaryMeta :: "Config \<Rightarrow> SubmissionAndResult \<Rightarrow> error + json" where
  "SummaryMeta cfg sr =
     (let sb = sub sr; res = result sr
      in if length (testdata sb) < length (td_results res) then Inl OutOfRange
         else
           and_then (traverse testdata_json (zip (testdata sb) (td_results res))) (\<lambda>tds.
           and_then (traverse ScoreToString (group_score sb)) (\<lambda>scores.
             Inr (JObject
               [(''user_code_file'', JString (SummaryBoxUserCode cfg (-1) (lang sb) True)),
                (''problem_id'', JInt (problem_id sb)),
                (''contest_id'', JInt (contest_id sb)),
                (''submission_id'', JInt (submission_id sb)),
                (''submitter_id'', JInt (submitter_id sb)),
                (''submitter_name'', JString (submitter_name sb)),
                (''submitter_nickname'', JString (submitter_nickname sb)),
                (''submission_time'', JInt (submission_time sb)),
                (''compiler'', JString (CompilerName (lang sb))),
                (''ce_message'', JString (ce_message res)),
                (''ce_message_file'', JString (SummaryBoxCEMessage cfg (-1) True)),
                (''verdict'', JString (VerdictToAbr (verdict res))),
                (''testdata'', JArray tds),
                (''subtask_scores'', JArray (map JString scores))]))))"

text \<open>The loop over the results: a larger verdict replaces a smaller one, from \<open>AC\<close>.\<close>

fun worst_verdict :: "TestdataItem list \<Rightarrow> TestdataResult list \<Rightarrow> Verdict \<Rightarrow> error + Verdict" where
  "worst_verdict items [] v = Inr v"
| "worst_verdict [] (td # tds) v = Inl OutOfRange"
| "worst_verdict (item # items) (td # tds) v =
     worst_verdict items tds (if ignore_verdict item then v else if v < td_verdict td then td_verdict td else v)"

definition overall_verdict :: "SubmissionAndResult \<Rightarrow> error + Verdict" where
  "overall_verdict sr =
     (if verdict (result sr) = NUL then worst_verdict (testdata (sub sr)) (td_results (result sr)) AC
      else Inr (verdict (result sr)))"

definition SetupSummary ::
    "Config \<Rightarrow> FsView \<Rightarrow> SubmissionAndResult \<Rightarrow> TaskEntry \<Rightarrow> JState \<Rightarrow>
     error + bool \<times> SubmissionAndResult \<times> JState" where
  "SetupSummary cfg fs sr task st =
     and_then (overall_verdict sr) (\<lambda>v.
       let sr = sr\<lparr>result := (result sr)\<lparr>verdict := v\<rparr>\<rparr>; sb = sub sr; iid = submission_internal_id sb
       in if summary_type sb = Summary_NONE \<or> v = JCE then Inr (False, sr, st)
          else
            let ce_message_src = CompileBoxMessage cfg iid CS_USERPROG False;
                ce_dest = SummaryBoxCEMessage cfg iid False
            in and_then (SummaryMeta cfg sr) (\<lambda>meta.
              Inr (True, sr, emit (map Fs
               ([FsCreateDirs (Workdir (SummaryBoxPath cfg iid)) (Some perms_all),
                 FsMove (CompileBoxOutput cfg iid CS_SUMMARY (summary_lang sb) False)
                   (SummaryBoxProgram cfg iid (summary_lang sb) False) (Some perms_all),
                 FsCopy (SubmissionUserCode cfg iid) (SummaryBoxUserCode cfg iid (lang sb) False) (Some kPerm666)] @
                (if is_regular fs ce_message_src then [FsMove ce_message_src ce_dest (Some kPerm666)]
                 else [FsTouch ce_dest, FsPermissions ce_dest kPerm666]) @
                [FsWriteJson (SummaryBoxMetaFile cfg iid False) meta])) st)))"

section \<open>The score\<close>

definition kInfScore :: int where "kInfScore = 2000000000000"

text \<open>\<open>subtask_scores[group] = std::min(...)\<close> over the groups of a testdata.\<close>

fun min_groups :: "int \<Rightarrow> int list \<Rightarrow> int list \<Rightarrow> error + int list" where
  "min_groups score [] ss = Inr ss"
| "min_groups score (g # gs) ss =
     (if 0 \<le> g \<and> nat g < length ss then min_groups score gs (ss[nat g := min (ss ! nat g) score])
      else Inl OutOfRange)"

text \<open>The loop over the results: memory, time and the scores of the groups.\<close>

fun tally :: "TestdataItem list \<Rightarrow> TestdataResult list \<Rightarrow> int \<times> int \<times> int list \<Rightarrow> error + int \<times> int \<times> int list" where
  "tally items [] acc = Inr acc"
| "tally [] (td # tds) acc = Inl OutOfRange"
| "tally (item # items) (td # tds) (mem, time, ss) =
     (if ignore_verdict item then tally items tds (mem, time, ss)
      else and_then (min_groups (td_score td) (td_groups item) ss) (\<lambda>ss.
             tally items tds (max mem (td_rss td), time + td_time td, ss)))"

definition group_credit :: "int \<Rightarrow> int" where
  "group_credit score = (if score = kInfScore then full_score else score)"

definition weighted_sum :: "int list \<Rightarrow> int list \<Rightarrow> int" where
  "weighted_sum ss scores = (\<Sum>(s, w) \<leftarrow> zip ss scores. group_credit s * w)"

definition total_of :: "int list \<Rightarrow> int list \<Rightarrow> int" where
  "total_of ss scores = NormalizeScore (ld_divide (ld_fin (of_int (weighted_sum ss scores))) (10 ^ 14))"

definition score_submission :: "SubmissionAndResult \<Rightarrow> error + SubmissionResult" where
  "score_submission sr =
     (let sb = sub sr; res = (result sr)\<lparr>total_score := 0\<rparr>
      in if verdict res < CE
         then and_then (tally (testdata sb) (td_results res)
                  (0, 0, replicate (length (group_score sb)) kInfScore)) (\<lambda>(mem, time, ss).
                Inr (res\<lparr>total_memory := mem, total_time := time, total_score := total_of ss (group_score sb)\<rparr>))
         else Inr res)"

section \<open>The result of a summary program\<close>

text \<open>\<open>None\<close>: the parse threw.\<close>

definition ReadSummaryResult :: "FsView \<Rightarrow> path \<Rightarrow> SubmissionResult \<Rightarrow> SubmissionResult option" where
  "ReadSummaryResult fs output_path res =
     (case file_json fs output_path of
        None \<Rightarrow> None
      | Some j \<Rightarrow>
          let res = (case json_find ''verdict'' j of
                       Some (JString s) \<Rightarrow> res\<lparr>verdict := AbrToVerdict s False\<rparr> | _ \<Rightarrow> res);
              res = (if verdict res = NUL then res\<lparr>verdict := WA\<rparr> else res);
              res = (case json_find ''score'' j of
                       None \<Rightarrow> res
                     | Some v \<Rightarrow> (case read_score v of None \<Rightarrow> res | Some n \<Rightarrow> res\<lparr>total_score := n\<rparr>));
              res = res\<lparr>total_time := ReadNumber ''total_time_us'' j (total_time res)\<rparr>;
              res = res\<lparr>total_memory := ReadNumber ''total_memory_kib'' j (total_memory res)\<rparr>
          in Some (case json_find ''ce_message'' j of
                     Some (JString s) \<Rightarrow> res\<lparr>ce_message := s\<rparr> | _ \<Rightarrow> res))"

definition summary_result :: "FsView \<Rightarrow> path \<Rightarrow> cjail_result \<Rightarrow> SubmissionResult \<Rightarrow> SubmissionResult" where
  "summary_result fs output_path cres res =
     (let failed = res\<lparr>verdict := JRE, total_memory := 0, total_time := 0\<rparr>
      in if \<not> is_regular fs output_path \<or> si_status cres \<noteq> 0 then failed
         else (case ReadSummaryResult fs output_path res of None \<Rightarrow> failed | Some res \<Rightarrow> res))"

section \<open>The end of a submission\<close>

definition FinalizeSummary ::
    "Config \<Rightarrow> FsView \<Rightarrow> SubmissionAndResult \<Rightarrow> TaskEntry \<Rightarrow> cjail_result \<Rightarrow> bool \<Rightarrow> JState \<Rightarrow> error + JState" where
  "FinalizeSummary cfg fs sr task cres skipped st =
     and_then (score_submission sr) (\<lambda>res.
       let sb = sub sr; iid = submission_internal_id sb;
           res = (if skipped then res else summary_result fs (SummaryBoxOutput cfg iid False) cres res);
           st = emit (map Fs ((if remove_submission sb then [FsRemoveAll (SubmissionCodePath cfg iid)] else []) @
                              [FsRemoveAll (SubmissionRunPath cfg iid)])) st;
           st = (if iid \<in> cancelled_list st then st\<lparr>cancelled_list := cancelled_list st - {iid}\<rparr>
                 else if ReportOverallResult (reporter sb)
                 then emit [Rep (OverallResult (submission_id sb) res)] st else st);
           st = st\<lparr>cancelled_group := (cancelled_group st)(iid := None)\<rparr>;
           st = (if ReportFinalized (reporter sb)
                 then emit [Rep (Finalized (submission_id sb) (card (dom (submission_list st))))] st else st)
       in Inr (st\<lparr>submission_id_map := (submission_id_map st)(iid := None),
                  submission_list := (submission_list st)(iid := None)\<rparr>))"

end
