(* ===== verification/Bytes.thy ===== *)
theory Bytes
  imports Data "HOL-Library.Word"
begin

text \<open>
  Byte sequences: the encodings \<open>src/tioj/sandbox.cpp\<close> builds a message from (a \<open>long\<close>, a string, a
  vector), with what a reader that does not check its bounds makes of them, and the transfer of bytes
  through a pipe, \<open>ReadFull\<close> and \<open>WriteFull\<close> of \<open>src/tioj/sandbox_io.h\<close>.
\<close>

type_synonym bytes = "8 word list"

section \<open>Codecs\<close>

text \<open>
  An encoder and a reader that takes its value from the front of the bytes. The law: what was
  encoded is read back, and the bytes behind it are left.
\<close>

locale codec =
  fixes enc :: "'a \<Rightarrow> bytes" and dec :: "bytes \<Rightarrow> error + 'a \<times> bytes" and valid :: "'a \<Rightarrow> bool"
  assumes dec_enc: "valid x \<Longrightarrow> dec (enc x @ rest) = Inr (x, rest)"

text \<open>A \<open>long\<close> is eight bytes in memory, the lowest first, in two's complement.\<close>

primrec le_bytes :: "nat \<Rightarrow> int \<Rightarrow> bytes" where
  "le_bytes 0 x = []"
| "le_bytes (Suc n) x = word_of_int x # le_bytes n (x div 256)"

primrec le_value :: "bytes \<Rightarrow> int" where
  "le_value [] = 0"
| "le_value (b # bs) = uint b + 256 * le_value bs"

lemma length_le_bytes [simp]: "length (le_bytes n x) = n"
  by (induction n arbitrary: x) auto

lemma le_value_bytes: "le_value (le_bytes n x) = x mod 256 ^ n"
proof (induction n arbitrary: x)
  case (Suc n)
  have "uint (word_of_int x :: 8 word) = x mod 256" by (simp add: uint_word_of_int)
  then show ?case using Suc [of "x div 256"] zmod_zmult2_eq [of "256 ^ n" x 256] by simp
qed simp

definition PushInt :: "int \<Rightarrow> bytes" where
  "PushInt r = le_bytes 8 r"

text \<open>Reading past the end of the vector is undefined behaviour.\<close>

definition ReadInt :: "bytes \<Rightarrow> error + int \<times> bytes" where
  "ReadInt bs =
     (if length bs < 8 then Inl OutOfRange
      else Inr (sint (word_of_int (le_value (take 8 bs)) :: 64 word), drop 8 bs))"

abbreviation long_ok :: "int \<Rightarrow> bool" where
  "long_ok x \<equiv> - (2 ^ 63) \<le> x \<and> x < 2 ^ 63"

abbreviation int_ok :: "int \<Rightarrow> bool" where
  "int_ok x \<equiv> - (2 ^ 31) \<le> x \<and> x < 2 ^ 31"

lemma sint_long: "long_ok x \<Longrightarrow> sint (word_of_int (x mod 256 ^ 8) :: 64 word) = x"
proof -
  assume x: "long_ok x"
  have "(word_of_int (x mod 256 ^ 8) :: 64 word) = word_of_int x"
    by (simp add: word_of_int_eq_iff take_bit_eq_mod)
  then show ?thesis using x by (simp add: sint_sbintrunc' signed_take_bit_int_eq_self)
qed

interpretation long_codec: codec PushInt ReadInt long_ok
proof
  fix x rest assume "long_ok x"
  then show "ReadInt (PushInt x @ rest) = Inr (x, rest)"
    using sint_long [of x] by (simp add: ReadInt_def PushInt_def le_value_bytes)
qed

text \<open>\<open>int\<close> and \<open>bool\<close> members are written as a \<open>long\<close> and converted back.\<close>

definition ReadAs :: "(int \<Rightarrow> 'a) \<Rightarrow> bytes \<Rightarrow> error + 'a \<times> bytes" where
  "ReadAs conv bs = and_then (ReadInt bs) (\<lambda>(r, bs). Inr (conv r, bs))"

lemma narrow_int_ok: "int_ok x \<Longrightarrow> narrow_int x = x"
  by (simp add: narrow_int_def)

interpretation int_codec: codec PushInt "ReadAs narrow_int" int_ok
proof
  fix x rest assume x: "int_ok x"
  then have "long_ok x" by simp
  from long_codec.dec_enc [OF this] show "ReadAs narrow_int (PushInt x @ rest) = Inr (x, rest)"
    using x by (simp add: ReadAs_def narrow_int_ok)
qed

interpretation bool_codec: codec "\<lambda>b. PushInt (of_bool b)" "ReadAs (\<lambda>r. r \<noteq> 0)" "\<lambda>_. True"
proof
  fix b rest
  show "ReadAs (\<lambda>r. r \<noteq> 0) (PushInt (of_bool b) @ rest) = Inr (b, rest)"
    using long_codec.dec_enc [of "of_bool b" rest] by (cases b) (simp_all add: ReadAs_def)
qed

text \<open>A string is its length and its bytes; a negative length throws \<open>std::length_error\<close>.\<close>

definition PushString :: "string \<Rightarrow> bytes" where
  "PushString str = PushInt (int (length str)) @ map of_char str"

definition ReadString :: "bytes \<Rightarrow> error + string \<times> bytes" where
  "ReadString bs =
     and_then (ReadInt bs) (\<lambda>(n, bs).
       if n < 0 then Inl LengthError
       else if length bs < nat n then Inl OutOfRange
       else Inr (map (\<lambda>b. char_of (unat b)) (take (nat n) bs), drop (nat n) bs))"

abbreviation length_ok :: "'a list \<Rightarrow> bool" where
  "length_ok xs \<equiv> length xs < 2 ^ 63"

lemma long_ok_length:
  assumes "length_ok xs"
  shows "long_ok (int (length xs))"
proof -
  have "int (length xs) < 2 ^ 63" using assms by simp
  moreover have "- (2 ^ 63) \<le> (0::int)" by simp
  ultimately show ?thesis by linarith
qed

lemma char_of_byte [simp]: "char_of (unat (of_char c :: 8 word)) = c"
proof -
  have "unat (of_char c :: 8 word) = unat (of_nat (of_char c) :: 8 word)" by (simp only: of_nat_of_char)
  also have "\<dots> = of_char c" using nat_of_char_less_256 [of c] by (simp add: unat_of_nat)
  finally show ?thesis by simp
qed

interpretation string_codec: codec PushString ReadString length_ok
proof
  fix str :: string and rest assume "length_ok str"
  from long_codec.dec_enc [OF long_ok_length [OF this]] show "ReadString (PushString str @ rest) = Inr (str, rest)"
    by (simp add: ReadString_def PushString_def char_of_byte comp_def)
qed

text \<open>A vector is its size and its elements; \<open>resize\<close> throws on a negative size.\<close>

definition PushVector :: "('a \<Rightarrow> bytes) \<Rightarrow> 'a list \<Rightarrow> bytes" where
  "PushVector enc xs = PushInt (int (length xs)) @ concat (map enc xs)"

primrec read_n :: "(bytes \<Rightarrow> error + 'a \<times> bytes) \<Rightarrow> nat \<Rightarrow> bytes \<Rightarrow> error + 'a list \<times> bytes" where
  "read_n dec 0 bs = Inr ([], bs)"
| "read_n dec (Suc n) bs =
     and_then (dec bs) (\<lambda>(x, bs). and_then (read_n dec n bs) (\<lambda>(xs, bs). Inr (x # xs, bs)))"

definition ReadVector :: "(bytes \<Rightarrow> error + 'a \<times> bytes) \<Rightarrow> bytes \<Rightarrow> error + 'a list \<times> bytes" where
  "ReadVector dec bs =
     and_then (ReadInt bs) (\<lambda>(n, bs). if n < 0 then Inl LengthError else read_n dec (nat n) bs)"

context codec
begin

lemma read_n_enc: "list_all valid xs \<Longrightarrow> read_n dec (length xs) (concat (map enc xs) @ rest) = Inr (xs, rest)"
  by (induction xs) (simp_all add: dec_enc)

lemma vector: "length_ok xs \<Longrightarrow> list_all valid xs \<Longrightarrow> ReadVector dec (PushVector enc xs @ rest) = Inr (xs, rest)"
  using long_codec.dec_enc [OF long_ok_length [of xs]] read_n_enc by (simp add: ReadVector_def PushVector_def)

end

interpretation strings_codec: codec "PushVector PushString" "ReadVector ReadString" "\<lambda>xs. length_ok xs \<and> list_all length_ok xs"
  by unfold_locales (simp add: string_codec.vector)

interpretation ints_codec: codec "PushVector PushInt" "ReadVector (ReadAs narrow_int)" "\<lambda>xs. length_ok xs \<and> list_all int_ok xs"
  by unfold_locales (simp add: int_codec.vector)

section \<open>Transfers\<close>

text \<open>
  What \<open>read\<close> or \<open>write\<close> does: \<open>EINTR\<close>, another error, or a number of bytes it is ready to move, of
  which it moves as many as asked for. A list of events that is too short is a call that blocks: \<open>None\<close>.
\<close>

datatype io = Interrupted | Failed | Ready nat

text \<open>
  \<open>ReadFull\<close> on the bytes in the pipe: the bytes read, \<open>None\<close> for the failure, with the bytes left
  and the events left. Nothing to read is the end of the file.
\<close>

fun ReadFull :: "io list \<Rightarrow> nat \<Rightarrow> bytes \<Rightarrow> (bytes option \<times> bytes \<times> io list) option" where
  "ReadFull ev 0 pipe = Some (Some [], pipe, ev)"
| "ReadFull [] n pipe = None"
| "ReadFull (Interrupted # ev) n pipe = ReadFull ev n pipe"
| "ReadFull (Failed # ev) n pipe = Some (None, pipe, ev)"
| "ReadFull (Ready k # ev) n pipe =
     (let r = min (min k n) (length pipe)
      in if r = 0 then Some (None, pipe, ev)
         else map_option (\<lambda>(got, q). (map_option ((@) (take r pipe)) got, q)) (ReadFull ev (n - r) (drop r pipe)))"

text \<open>\<open>WriteFull\<close>: whether all was written, what is in the pipe then, and the events left.\<close>

fun WriteFull :: "io list \<Rightarrow> bytes \<Rightarrow> bytes \<Rightarrow> (bool \<times> bytes \<times> io list) option" where
  "WriteFull ev [] pipe = Some (True, pipe, ev)"
| "WriteFull [] buf pipe = None"
| "WriteFull (Interrupted # ev) buf pipe = WriteFull ev buf pipe"
| "WriteFull (Failed # ev) buf pipe = Some (False, pipe, ev)"
| "WriteFull (Ready k # ev) buf pipe =
     (let w = min k (length buf)
      in if w = 0 then Some (False, pipe, ev) else WriteFull ev (drop w buf) (pipe @ take w buf))"

lemma ReadFull_value: "ReadFull ev n pipe = Some (Some got, q) \<Longrightarrow> n \<le> length pipe \<and> got = take n pipe \<and> fst q = drop n pipe"
proof (induction ev n pipe arbitrary: got rule: ReadFull.induct)
  case (5 k ev n pipe)
  define r where "r = min (min k (Suc n)) (length pipe)"
  have r: "r \<le> Suc n" "r \<le> length pipe" by (simp_all add: r_def)
  obtain got' where r0: "r \<noteq> 0" and g: "ReadFull ev (Suc n - r) (drop r pipe) = Some (Some got', q)" "got = take r pipe @ got'"
    using "5.prems" by (auto simp: r_def [symmetric] Let_def split: if_splits)
  have "Suc n - r \<le> length (drop r pipe) \<and> got' = take (Suc n - r) (drop r pipe) \<and> fst q = drop (Suc n - r) (drop r pipe)"
    using "5.IH" [OF r_def _ g(1)] r0 by blast
  then show ?case using g r take_add [of r "Suc n - r" pipe] by (auto simp: add.commute)
qed auto

lemma WriteFull_value: "WriteFull ev buf pipe = Some (True, pipe', ev') \<Longrightarrow> pipe' = pipe @ buf"
proof (induction ev buf pipe rule: WriteFull.induct)
  case (5 k ev b buf pipe)
  then show ?case by (auto simp: Let_def split: if_splits)
qed auto

text \<open>Calls that are only interrupted and do move bytes: as many such calls as bytes are enough.\<close>

definition calm :: "io list \<Rightarrow> bool" where
  "calm ev \<longleftrightarrow> list_all (\<lambda>e. e \<noteq> Failed \<and> e \<noteq> Ready 0) ev"

definition moves :: "io list \<Rightarrow> nat" where
  "moves ev = length (filter (\<lambda>e. e \<noteq> Interrupted) ev)"

lemma ReadFull_defined:
  "calm ev \<Longrightarrow> n \<le> moves ev \<Longrightarrow> n \<le> length pipe \<Longrightarrow>
   \<exists>ev'. ReadFull ev n pipe = Some (Some (take n pipe), drop n pipe, ev') \<and> calm ev' \<and> moves ev \<le> moves ev' + n"
proof (induction ev n pipe rule: ReadFull.induct)
  case (5 k ev n pipe)
  define r where "r = min (min k (Suc n)) (length pipe)"
  have r: "0 < r" "r \<le> Suc n" "r \<le> length pipe" using 5(2,4) by (auto simp: r_def calm_def)
  have "\<exists>ev'. ReadFull ev (Suc n - r) (drop r pipe) =
      Some (Some (take (Suc n - r) (drop r pipe)), drop (Suc n - r) (drop r pipe), ev') \<and> calm ev' \<and> moves ev \<le> moves ev' + (Suc n - r)"
    using r 5(2-4) by (intro "5.IH" [OF r_def]) (auto simp: calm_def moves_def)
  then obtain ev' where e: "ReadFull ev (Suc n - r) (drop r pipe) =
      Some (Some (take (Suc n - r) (drop r pipe)), drop (Suc n - r) (drop r pipe), ev')" "calm ev'" "moves ev \<le> moves ev' + (Suc n - r)"
    by blast
  moreover have "take r pipe @ take (Suc n - r) (drop r pipe) = take (Suc n) pipe"
    using r take_add [of r "Suc n - r" pipe] by simp
  ultimately show ?case using r
    by (intro exI [of _ ev']) (auto simp: r_def [symmetric] Let_def moves_def)
qed (auto simp: calm_def moves_def)

lemma WriteFull_defined:
  "calm ev \<Longrightarrow> length buf \<le> moves ev \<Longrightarrow>
   \<exists>ev'. WriteFull ev buf pipe = Some (True, pipe @ buf, ev') \<and> calm ev' \<and> moves ev \<le> moves ev' + length buf"
proof (induction ev buf pipe rule: WriteFull.induct)
  case (5 k ev b buf pipe)
  define w where "w = min k (length (b # buf))"
  have w: "0 < w" "w \<le> length (b # buf)" using 5(2) by (auto simp: w_def calm_def)
  have "\<exists>ev'. WriteFull ev (drop w (b # buf)) (pipe @ take w (b # buf)) =
      Some (True, (pipe @ take w (b # buf)) @ drop w (b # buf), ev') \<and> calm ev' \<and> moves ev \<le> moves ev' + length (drop w (b # buf))"
    using w 5(2,3) by (intro "5.IH" [OF w_def]) (auto simp: calm_def moves_def)
  then obtain ev' where "WriteFull ev (drop w (b # buf)) (pipe @ take w (b # buf)) =
      Some (True, (pipe @ take w (b # buf)) @ drop w (b # buf), ev')" "calm ev'" "moves ev \<le> moves ev' + length (drop w (b # buf))"
    by blast
  moreover have "WriteFull (Ready k # ev) (b # buf) pipe = WriteFull ev (drop w (b # buf)) (pipe @ take w (b # buf))"
    using w(1) by (simp only: WriteFull.simps w_def [symmetric] Let_def) simp
  ultimately show ?case using w by (intro exI [of _ ev']) (simp add: moves_def)
qed (auto simp: calm_def moves_def)

end
