(* ===== verification/Sandbox.thy ===== *)
theory Sandbox
  imports Bytes
begin

text \<open>
  The options of a sandboxed process and their way to the helper program: \<open>SandboxOptions\<close>
  (\<open>src/tioj/sandbox.h\<close>, \<open>src/tioj/sandbox.cpp\<close>), the sending side \<open>SandboxExec\<close>
  (\<open>src/tioj/sandbox_exec.cpp\<close>) and the helper \<open>src/tioj/sandbox_main.cpp\<close>. Proved: the helper gets
  the options that were sent however the pipe cuts them up, nothing is sent for a user outside the
  pool, and what the helper makes of the options.
\<close>

section \<open>Options\<close>

record SandboxOptions =
  opt_boxdir :: string
  opt_command :: "string list"
  opt_preserve_env :: bool
  opt_envs :: "string list"
  opt_workdir :: string
  opt_input :: string
  opt_output :: string
  opt_error :: string
  opt_fd_input :: int
  opt_fd_output :: int
  opt_fd_error :: int
  opt_cpu_set :: "int list"
  opt_uid :: int
  opt_gid :: int
  opt_wall_time :: int
  opt_cpu_time :: int
  opt_rss :: int
  opt_vss :: int
  opt_proc_num :: int
  opt_file_num :: int
  opt_fsize :: int
  opt_dirs :: "string list"

definition SandboxOptions_init :: SandboxOptions where
  "SandboxOptions_init =
     \<lparr>opt_boxdir = [], opt_command = [], opt_preserve_env = False, opt_envs = [], opt_workdir = [],
      opt_input = [], opt_output = [], opt_error = [], opt_fd_input = -1, opt_fd_output = -1,
      opt_fd_error = -1, opt_cpu_set = [], opt_uid = 65534, opt_gid = 65534, opt_wall_time = 0,
      opt_cpu_time = 0, opt_rss = 0, opt_vss = 0, opt_proc_num = 0, opt_file_num = 0, opt_fsize = 0,
      opt_dirs = []\<rparr>"

definition FilterDirs :: "(path \<Rightarrow> bool) \<Rightarrow> SandboxOptions \<Rightarrow> SandboxOptions" where
  "FilterDirs ex opt = opt\<lparr>opt_dirs := filter ex (opt_dirs opt)\<rparr>"

definition kUidBase :: int where "kUidBase = 50000"
definition kUidPoolSize :: nat where "kUidPoolSize = 100"

section \<open>Serialization\<close>

definition in_uid_pool :: "int \<Rightarrow> bool" where
  "in_uid_pool u \<longleftrightarrow> \<not> (u < kUidBase \<or> kUidBase + int kUidPoolSize \<le> u)"

definition Serialize :: "SandboxOptions \<Rightarrow> bytes" where
  "Serialize opt =
     (if \<not> in_uid_pool (opt_uid opt) \<or> \<not> in_uid_pool (opt_gid opt) then []
      else PushString (opt_boxdir opt) @ PushVector PushString (opt_command opt) @
        PushInt (of_bool (opt_preserve_env opt)) @ PushVector PushString (opt_envs opt) @
        PushString (opt_workdir opt) @ PushString (opt_input opt) @ PushString (opt_output opt) @
        PushString (opt_error opt) @ PushInt (opt_fd_input opt) @ PushInt (opt_fd_output opt) @
        PushInt (opt_fd_error opt) @ PushVector PushInt (opt_cpu_set opt) @ PushInt (opt_uid opt) @
        PushInt (opt_gid opt) @ PushInt (opt_wall_time opt) @ PushInt (opt_cpu_time opt) @
        PushInt (opt_rss opt) @ PushInt (opt_vss opt) @ PushInt (opt_proc_num opt) @
        PushInt (opt_file_num opt) @ PushInt (opt_fsize opt) @ PushVector PushString (opt_dirs opt))"

text \<open>The constructor \<open>SandboxOptions(const std::vector<uint8_t>&)\<close>, member by member.\<close>

abbreviation ReadInt32 :: "bytes \<Rightarrow> error + int \<times> bytes" where
  "ReadInt32 \<equiv> ReadAs narrow_int"

definition Deserialize :: "bytes \<Rightarrow> error + SandboxOptions" where
  "Deserialize vec =
     and_then (ReadString vec) (\<lambda>(boxdir, cur).
     and_then (ReadVector ReadString cur) (\<lambda>(command, cur).
     and_then (ReadAs (\<lambda>r. r \<noteq> 0) cur) (\<lambda>(preserve, cur).
     and_then (ReadVector ReadString cur) (\<lambda>(envs, cur).
     and_then (ReadString cur) (\<lambda>(workdir, cur).
     and_then (ReadString cur) (\<lambda>(inp, cur).
     and_then (ReadString cur) (\<lambda>(outp, cur).
     and_then (ReadString cur) (\<lambda>(errp, cur).
     and_then (ReadInt32 cur) (\<lambda>(fdi, cur).
     and_then (ReadInt32 cur) (\<lambda>(fdo, cur).
     and_then (ReadInt32 cur) (\<lambda>(fde, cur).
     and_then (ReadVector ReadInt32 cur) (\<lambda>(cpus, cur).
     and_then (ReadInt32 cur) (\<lambda>(uid, cur).
     and_then (ReadInt32 cur) (\<lambda>(gid, cur).
     and_then (ReadInt cur) (\<lambda>(wall, cur).
     and_then (ReadInt cur) (\<lambda>(cput, cur).
     and_then (ReadInt cur) (\<lambda>(rss, cur).
     and_then (ReadInt cur) (\<lambda>(vss, cur).
     and_then (ReadInt32 cur) (\<lambda>(procs, cur).
     and_then (ReadInt32 cur) (\<lambda>(files, cur).
     and_then (ReadInt cur) (\<lambda>(fsize, cur).
     and_then (ReadVector ReadString cur) (\<lambda>(dirs, cur).
       Inr \<lparr>opt_boxdir = boxdir, opt_command = command, opt_preserve_env = preserve, opt_envs = envs,
         opt_workdir = workdir, opt_input = inp, opt_output = outp, opt_error = errp, opt_fd_input = fdi,
         opt_fd_output = fdo, opt_fd_error = fde, opt_cpu_set = cpus, opt_uid = uid, opt_gid = gid,
         opt_wall_time = wall, opt_cpu_time = cput, opt_rss = rss, opt_vss = vss, opt_proc_num = procs,
         opt_file_num = files, opt_fsize = fsize, opt_dirs = dirs\<rparr>))))))))))))))))))))))"

text \<open>The ranges of the members' types.\<close>

definition options_ok :: "SandboxOptions \<Rightarrow> bool" where
  "options_ok opt \<longleftrightarrow>
     list_all int_ok [opt_fd_input opt, opt_fd_output opt, opt_fd_error opt, opt_proc_num opt, opt_file_num opt] \<and>
     list_all int_ok (opt_cpu_set opt) \<and>
     list_all long_ok [opt_wall_time opt, opt_cpu_time opt, opt_rss opt, opt_vss opt, opt_fsize opt]"

definition strings_ok :: "SandboxOptions \<Rightarrow> bool" where
  "strings_ok opt \<longleftrightarrow>
     list_all length_ok [opt_boxdir opt, opt_workdir opt, opt_input opt, opt_output opt, opt_error opt] \<and>
     list_all (\<lambda>xs. length_ok xs \<and> list_all length_ok xs) [opt_command opt, opt_envs opt, opt_dirs opt] \<and>
     length_ok (opt_cpu_set opt)"

lemma uid_int_ok: "in_uid_pool u \<Longrightarrow> int_ok u"
  by (simp add: in_uid_pool_def kUidBase_def kUidPoolSize_def)

lemma Deserialize_Serialize:
  assumes "options_ok opt" "strings_ok opt" "in_uid_pool (opt_uid opt)" "in_uid_pool (opt_gid opt)"
  shows "Deserialize (Serialize opt) = Inr opt"
proof -
  have d: "ReadVector ReadString (PushVector PushString xs) = Inr (xs, [])" if "length_ok xs \<and> list_all length_ok xs" for xs
    using strings_codec.dec_enc [of xs "[]"] that by simp
  show ?thesis
    using assms uid_int_ok [OF assms(3)] uid_int_ok [OF assms(4)]
    by (simp add: Deserialize_def Serialize_def options_ok_def strings_ok_def d string_codec.dec_enc
        strings_codec.dec_enc bool_codec.dec_enc int_codec.dec_enc ints_codec.dec_enc long_codec.dec_enc)
qed

text \<open>A message within the payload limit has no string or vector that is too long for its length field.\<close>

lemma length_PushInt [simp]: "length (PushInt x) = 8"
  by (simp add: PushInt_def)

lemma length_PushString: "length str \<le> length (PushString str)"
  by (simp add: PushString_def)

lemma length_PushVector:
  assumes "\<And>x. 0 < length (enc x)"
  shows "length xs \<le> length (PushVector enc xs)" "x \<in> set xs \<Longrightarrow> length (enc x) \<le> length (PushVector enc xs)"
proof -
  have "length xs \<le> length (concat (map enc xs))"
  proof (induction xs)
    case (Cons y ys)
    have "length (y # ys) \<le> length (enc y) + length (concat (map enc ys))" using assms [of y] Cons by (cases "enc y") simp_all
    then show ?case by simp
  qed simp
  then show "length xs \<le> length (PushVector enc xs)" by (simp add: PushVector_def)
  show "length (enc x) \<le> length (PushVector enc xs)" if "x \<in> set xs"
    using that by (induction xs) (auto simp: PushVector_def)
qed

lemma Serialize_nonempty: "in_uid_pool (opt_uid opt) \<Longrightarrow> in_uid_pool (opt_gid opt) \<Longrightarrow> Serialize opt \<noteq> []"
  using length_PushInt by (auto simp: Serialize_def PushString_def dest: arg_cong [of _ _ length] simp del: length_PushInt)

definition kSandboxMaxPayload :: nat where "kSandboxMaxPayload = 2 ^ 20"

lemma length_ok_payload: "length xs \<le> m \<Longrightarrow> m \<le> kSandboxMaxPayload \<Longrightarrow> length_ok xs"
  by (simp add: kSandboxMaxPayload_def)

lemma strings_ok_payload:
  assumes "length (PushVector PushString xs) \<le> kSandboxMaxPayload"
  shows "length_ok xs \<and> list_all length_ok xs"
proof -
  have p: "0 < length (PushString s)" for s by (simp add: PushString_def)
  have "length_ok s" if "s \<in> set xs" for s
    using length_PushVector(2) [of PushString, OF p that] length_PushString [of s] assms
    by (intro length_ok_payload [OF order.trans]) auto
  moreover have "length_ok xs" using length_PushVector(1) [of PushString xs, OF p] assms by (rule length_ok_payload)
  ultimately show ?thesis by (simp add: list_all_iff)
qed

lemma Serialize_strings_ok:
  assumes "Serialize opt \<noteq> []" "length (Serialize opt) \<le> kSandboxMaxPayload"
  shows "strings_ok opt"
proof -
  have v: "length (PushVector PushString xs) \<le> kSandboxMaxPayload" if "xs \<in> {opt_command opt, opt_envs opt, opt_dirs opt}" for xs
    using assms that by (auto simp: Serialize_def split: if_splits)
  have s: "length_ok s" if "s \<in> {opt_boxdir opt, opt_workdir opt, opt_input opt, opt_output opt, opt_error opt}" for s
  proof (rule length_ok_payload [OF length_PushString])
    show "length (PushString s) \<le> kSandboxMaxPayload" using assms that by (auto simp: Serialize_def split: if_splits)
  qed
  have "length (PushVector PushInt (opt_cpu_set opt)) \<le> kSandboxMaxPayload"
    using assms by (auto simp: Serialize_def split: if_splits)
  with length_PushVector(1) [of PushInt "opt_cpu_set opt"] have "length_ok (opt_cpu_set opt)"
    by (intro length_ok_payload) simp_all
  then show ?thesis using s strings_ok_payload [OF v] by (simp add: strings_ok_def)
qed

section \<open>What the helper makes of the options\<close>

text \<open>A \<open>const char*\<close> taken from a \<open>std::string\<close> ends at its first NUL.\<close>

abbreviation NUL_char :: char where "NUL_char \<equiv> CHR 0x00"

definition c_str :: "string \<Rightarrow> string" where
  "c_str s = takeWhile (\<lambda>c. c \<noteq> NUL_char) s"

definition after_nul :: "string \<Rightarrow> string option" where
  "after_nul s = (case dropWhile (\<lambda>c. c \<noteq> NUL_char) s of [] \<Rightarrow> None | _ # r \<Rightarrow> Some r)"

lemma c_str_plain: "NUL_char \<notin> set x \<Longrightarrow> c_str x = x"
  by (induction x) (auto simp: c_str_def)

lemma after_nul_plain: "NUL_char \<notin> set x \<Longrightarrow> after_nul x = None"
  by (induction x) (auto simp: after_nul_def)

lemma c_str_nul: "NUL_char \<notin> set x \<Longrightarrow> c_str (x @ NUL_char # y) = x"
  by (induction x) (auto simp: c_str_def)

lemma after_nul_nul: "NUL_char \<notin> set x \<Longrightarrow> after_nul (x @ NUL_char # y) = Some y"
  by (induction x) (auto simp: after_nul_def)

record jail_mount =
  mnt_source :: string
  mnt_target :: string
  mnt_rw :: bool

definition mount_of :: "string \<Rightarrow> jail_mount" where
  "mount_of i =
     (case after_nul i of
        None \<Rightarrow> \<lparr>mnt_source = c_str i, mnt_target = c_str i, mnt_rw = False\<rparr>
      | Some r \<Rightarrow> \<lparr>mnt_source = c_str i, mnt_target = c_str r, mnt_rw = (after_nul r = Some ''rw'')\<rparr>)"

definition split_us :: "int \<Rightarrow> timeval" where
  "split_us us = \<lparr>tv_sec = cdiv us 1000000, tv_usec = cmod us 1000000\<rparr>"

text \<open>
  The members of \<open>struct cjail_ctx\<close> that are set; \<open>None\<close> stands for what \<open>cjail_ctx_init\<close> leaves there,
  for the environment of the helper itself, and for no CPU mask.
\<close>

record cjail_ctx =
  cx_fd_input :: "int option"
  cx_fd_output :: "int option"
  cx_fd_error :: "int option"
  cx_redir_input :: "string option"
  cx_redir_output :: "string option"
  cx_redir_error :: "string option"
  cx_argv :: "string list"
  cx_environ :: "string list option"
  cx_chroot :: string
  cx_working_dir :: string
  cx_cpuset :: "int set option"
  cx_uid :: int
  cx_gid :: int
  cx_rlim_as :: int
  cx_rlim_core :: int
  cx_rlim_nofile :: int
  cx_rlim_fsize :: int
  cx_rlim_proc :: int
  cx_cg_rss :: int
  cx_lim_time :: timeval
  cx_lim_cputime :: timeval
  cx_mounts :: "jail_mount list"

definition redirect :: "string \<Rightarrow> string option" where
  "redirect s = (if s = [] then None else Some (c_str s))"

definition dup_fd :: "int \<Rightarrow> int option" where
  "dup_fd fd = (if fd = -1 then None else Some fd)"

definition ToCJailCtx :: "SandboxOptions \<Rightarrow> cjail_ctx" where
  "ToCJailCtx opt =
     \<lparr>cx_fd_input = dup_fd (opt_fd_input opt), cx_fd_output = dup_fd (opt_fd_output opt),
      cx_fd_error = dup_fd (opt_fd_error opt), cx_redir_input = redirect (opt_input opt),
      cx_redir_output = redirect (opt_output opt), cx_redir_error = redirect (opt_error opt),
      cx_argv = map c_str (opt_command opt),
      cx_environ = (if opt_preserve_env opt then None else Some (map c_str (opt_envs opt))),
      cx_chroot = c_str (opt_boxdir opt), cx_working_dir = c_str (opt_workdir opt),
      cx_cpuset = (if opt_cpu_set opt = [] then None
                   else Some {i \<in> set (opt_cpu_set opt). 0 \<le> i \<and> i < 1024}),
      cx_uid = opt_uid opt, cx_gid = opt_gid opt, cx_rlim_as = opt_vss opt, cx_rlim_core = 0,
      cx_rlim_nofile = opt_file_num opt, cx_rlim_fsize = opt_fsize opt, cx_rlim_proc = opt_proc_num opt,
      cx_cg_rss = opt_rss opt, cx_lim_time = split_us (opt_wall_time opt),
      cx_lim_cputime = split_us (opt_cpu_time opt), cx_mounts = map mount_of (opt_dirs opt)\<rparr>"

section \<open>Sending the options and running them\<close>

text \<open>An error is reported in two members of the result.\<close>

definition cjail_error :: "int \<Rightarrow> cjail_result \<Rightarrow> cjail_result" where
  "cjail_error errno ret = ret\<lparr>oomkill := errno, timekill := -1\<rparr>"

definition send_options :: "io list \<Rightarrow> SandboxOptions \<Rightarrow> (bool \<times> bytes) option" where
  "send_options ev opt =
     (let vec = Serialize opt
      in if vec = [] \<or> kSandboxMaxPayload < length vec then Some (False, [])
         else Option.bind (WriteFull ev (PushInt (int (length vec))) []) (\<lambda>(ok, pipe, ev).
           if \<not> ok then Some (False, pipe)
           else map_option (\<lambda>(ok, pipe, _). (ok, pipe)) (WriteFull ev vec pipe)))"

text \<open>
  The parent. \<open>started\<close> tells whether the pipes and the process could be made; \<open>helper\<close> is what comes back
  for the bytes sent: whether the result was read in full, and the bytes of \<open>ret\<close> then.
\<close>

definition SandboxExec ::
    "bool \<Rightarrow> io list \<Rightarrow> (bytes \<Rightarrow> bool \<times> cjail_result) \<Rightarrow> int \<Rightarrow> SandboxOptions \<Rightarrow> cjail_result option" where
  "SandboxExec started ev helper errno opt =
     (if \<not> started then Some (cjail_error errno cjail_zero)
      else map_option (\<lambda>(ok, pipe).
             if \<not> ok then cjail_error errno cjail_zero
             else let (whole, ret) = helper pipe in if whole then ret else cjail_error errno ret)
           (send_options ev opt))"

text \<open>
  The helper. \<open>exec\<close> is \<open>cjail_exec\<close>: whether it succeeds, its result and \<open>errno\<close>. The program exits
  without a result (\<open>None\<close>) when the message cannot be read or has an improper size.
\<close>

definition helper_exec :: "(cjail_ctx \<Rightarrow> bool \<times> cjail_result \<times> int) \<Rightarrow> SandboxOptions \<Rightarrow> cjail_result" where
  "helper_exec exec opt =
     (let (ok, ret, errno) = exec (ToCJailCtx opt) in if ok then ret else cjail_error errno ret)"

definition receive_payload :: "io list \<Rightarrow> bytes \<Rightarrow> bytes option option" where
  "receive_payload ev pipe =
     Option.bind (ReadFull ev 8 pipe) (\<lambda>(got, pipe, ev).
       case got of
         None \<Rightarrow> Some None
       | Some b \<Rightarrow>
           let sz = sint (word_of_int (le_value b) :: 64 word)
           in if sz \<le> 0 \<or> int kSandboxMaxPayload < sz then Some None
              else map_option fst (ReadFull ev (nat sz) pipe))"

definition sandbox_main ::
    "(cjail_ctx \<Rightarrow> bool \<times> cjail_result \<times> int) \<Rightarrow> io list \<Rightarrow> bytes \<Rightarrow> (error + cjail_result option) option" where
  "sandbox_main exec ev pipe =
     map_option (\<lambda>buf. case buf of
         None \<Rightarrow> Inr None
       | Some buf \<Rightarrow> and_then (Deserialize buf) (\<lambda>opt. Inr (Some (helper_exec exec opt))))
       (receive_payload ev pipe)"

lemma ReadInt_size:
  "b = take 8 (PushInt (int n) @ rest) \<Longrightarrow> n \<le> kSandboxMaxPayload \<Longrightarrow> sint (word_of_int (le_value b) :: 64 word) = int n"
  using long_codec.dec_enc [of "int n" "[]"] by (simp add: ReadInt_def kSandboxMaxPayload_def)

lemma send_options_value:
  "send_options ev opt = Some (True, pipe) \<Longrightarrow>
   pipe = PushInt (int (length (Serialize opt))) @ Serialize opt \<and> Serialize opt \<noteq> [] \<and>
   length (Serialize opt) \<le> kSandboxMaxPayload"
  by (auto simp: send_options_def Let_def bind_eq_Some_conv dest!: WriteFull_value split: if_splits)

lemma send_options_defined:
  assumes "Serialize opt \<noteq> []" "length (Serialize opt) \<le> kSandboxMaxPayload"
    and "calm ev" "8 + length (Serialize opt) \<le> moves ev"
  shows "\<exists>pipe. send_options ev opt = Some (True, pipe)"
proof -
  obtain ev' where 1: "WriteFull ev (PushInt (int (length (Serialize opt)))) [] =
      Some (True, PushInt (int (length (Serialize opt))), ev')" "calm ev'" "moves ev \<le> moves ev' + 8"
    using WriteFull_defined [OF assms(3), of "PushInt (int (length (Serialize opt)))" "[]"] assms(4) by auto
  from 1(3) assms(4) have "length (Serialize opt) \<le> moves ev'" by simp
  from WriteFull_defined [OF 1(2) this, of "PushInt (int (length (Serialize opt)))"]
  obtain p where "WriteFull ev' (Serialize opt) (PushInt (int (length (Serialize opt)))) = Some (True, p)" by auto
  moreover obtain q e where "p = (q, e)" by (cases p)
  ultimately show ?thesis using 1(1) assms(1,2) by (simp add: send_options_def)
qed

lemma receive_payload_defined:
  assumes "0 < length vec" "length vec \<le> kSandboxMaxPayload" "calm ev" "8 + length vec \<le> moves ev"
  shows "receive_payload ev (PushInt (int (length vec)) @ vec) = Some (Some vec)"
proof -
  let ?pipe = "PushInt (int (length vec)) @ vec"
  obtain ev' where 1: "ReadFull ev 8 ?pipe = Some (Some (PushInt (int (length vec))), vec, ev')" "calm ev'" "moves ev \<le> moves ev' + 8"
    using ReadFull_defined [OF assms(3), of 8 ?pipe] assms(4) by auto
  from 1(3) assms(4) have "length vec \<le> moves ev'" by simp
  from ReadFull_defined [OF 1(2) this, of vec] obtain ev'' where "ReadFull ev' (length vec) vec = Some (Some vec, [], ev'')"
    by auto
  moreover have "sint (word_of_int (le_value (PushInt (int (length vec)))) :: 64 word) = int (length vec)"
    by (rule ReadInt_size [of _ _ "[]"]) (use assms(2) in simp_all)
  ultimately show ?thesis using 1(1) assms(1,2) by (simp add: receive_payload_def)
qed

section \<open>Properties\<close>

text \<open>
  C23: Options of a user of the pool that fit the payload are delivered: if the calls of both sides are at
  worst interrupted and there are enough of them, the parent sends everything and the helper runs exactly
  those options, however reads and writes cut up the bytes.
\<close>

theorem sandbox_delivery:
  assumes "options_ok opt" "in_uid_pool (opt_uid opt)" "in_uid_pool (opt_gid opt)"
    and "length (Serialize opt) \<le> kSandboxMaxPayload"
    and "calm ev" "8 + length (Serialize opt) \<le> moves ev" "calm ev'" "8 + length (Serialize opt) \<le> moves ev'"
  shows "\<exists>pipe. send_options ev opt = Some (True, pipe) \<and>
    sandbox_main exec ev' pipe = Some (Inr (Some (helper_exec exec opt)))"
proof -
  have ne: "0 < length (Serialize opt)" using assms(2,3) by (simp add: Serialize_def PushString_def)
  then obtain pipe where p: "send_options ev opt = Some (True, pipe)"
    using send_options_defined [OF _ assms(4-6)] by auto
  then have "pipe = PushInt (int (length (Serialize opt))) @ Serialize opt" using send_options_value by blast
  moreover have "Deserialize (Serialize opt) = Inr opt"
    by (rule Deserialize_Serialize [OF assms(1) Serialize_strings_ok assms(2,3)]) (use ne assms(4) in auto)
  ultimately show ?thesis
    using receive_payload_defined [OF ne assms(4,7,8)] p by (simp add: sandbox_main_def)
qed

definition sample_options :: SandboxOptions where
  "sample_options = SandboxOptions_init\<lparr>opt_command := [''/prog'', ''0''], opt_uid := 50003, opt_gid := 50003, opt_vss := -1\<rparr>"

lemma sample_options_length: "length (Serialize sample_options) = 198"
  by (simp add: Serialize_def sample_options_def SandboxOptions_init_def in_uid_pool_def kUidBase_def
      kUidPoolSize_def PushString_def PushVector_def)

theorem sandbox_delivery_witness:
  "\<exists>pipe. send_options (Interrupted # replicate 300 (Ready 7)) sample_options = Some (True, pipe) \<and>
    sandbox_main (\<lambda>cx. (True, cjail_zero\<lparr>si_status := cx_uid cx\<rparr>, 0)) (replicate 300 (Ready 1)) pipe =
      Some (Inr (Some (helper_exec (\<lambda>cx. (True, cjail_zero\<lparr>si_status := cx_uid cx\<rparr>, 0)) sample_options)))"
  by (rule sandbox_delivery)
    (simp_all add: sample_options_length, simp_all add: sample_options_def SandboxOptions_init_def options_ok_def
      in_uid_pool_def kUidBase_def kUidPoolSize_def kSandboxMaxPayload_def calm_def moves_def list_all_iff)

text \<open>
  C24: Nothing is sent to the helper for a user or group outside the pool, or beyond the payload limit;
  the caller then gets an error.
\<close>

theorem sandbox_refused:
  assumes "\<not> in_uid_pool (opt_uid opt) \<or> \<not> in_uid_pool (opt_gid opt) \<or> kSandboxMaxPayload < length (Serialize opt)"
  shows "send_options ev opt = Some (False, []) \<and>
    SandboxExec True ev helper errno opt = Some (cjail_error errno cjail_zero)"
proof -
  have "Serialize opt = [] \<or> kSandboxMaxPayload < length (Serialize opt)"
    using assms by (auto simp: Serialize_def)
  then have "send_options ev opt = Some (False, [])" by (simp add: send_options_def Let_def)
  then show ?thesis by (simp add: SandboxExec_def)
qed

theorem sandbox_refused_witness:
  "send_options [] SandboxOptions_init = Some (False, []) \<and>
   SandboxExec True [] (\<lambda>_. (True, cjail_zero)) 22 SandboxOptions_init = Some (cjail_error 22 cjail_zero)"
  by (rule sandbox_refused) (simp add: SandboxOptions_init_def in_uid_pool_def kUidBase_def kUidPoolSize_def)

text \<open>
  A directory in the list is mounted read-only at its own place if it has no NUL, read-only at the
  target after the NUL, and read-write only with the suffix \<open>rw\<close> after a second NUL.
\<close>

theorem mount_modes:
  assumes "NUL_char \<notin> set a" "NUL_char \<notin> set b"
  shows "mount_of a = \<lparr>mnt_source = a, mnt_target = a, mnt_rw = False\<rparr> \<and>
    mount_of (a @ NUL_char # b) = \<lparr>mnt_source = a, mnt_target = b, mnt_rw = False\<rparr> \<and>
    mount_of (a @ NUL_char # b @ NUL_char # c) = \<lparr>mnt_source = a, mnt_target = b, mnt_rw = (c = ''rw'')\<rparr>"
  using assms by (simp add: mount_of_def c_str_plain after_nul_plain c_str_nul after_nul_nul)

theorem mount_modes_witness:
  "mount_of ''/a'' = \<lparr>mnt_source = ''/a'', mnt_target = ''/a'', mnt_rw = False\<rparr> \<and>
   mount_of (''/a'' @ NUL_char # ''/b'') = \<lparr>mnt_source = ''/a'', mnt_target = ''/b'', mnt_rw = False\<rparr> \<and>
   mount_of (''/a'' @ NUL_char # ''/b'' @ NUL_char # ''rw'') = \<lparr>mnt_source = ''/a'', mnt_target = ''/b'', mnt_rw = (''rw'' = ''rw'')\<rparr>"
  by (rule mount_modes) simp_all

end
