(* ===== verification/Tasks.thy ===== *)
theory Tasks
  imports Sandbox
begin

text \<open>
  The parent side of \<open>src/tioj/tasks.cpp\<close>: the pools of user ids and CPUs, the running and finished
  tasks, \<open>InitPools\<close>, \<open>RunTask\<close>, \<open>Wait\<close> and both \<open>WaitAnyResult\<close>. The results of the system calls
  are arguments. What is proved: the pools and the running tasks share out the ids, so two running
  tasks never have the same user id or CPU, and none is lost.
\<close>

section \<open>State\<close>

text \<open>
  \<open>running\<close> is a \<open>std::map\<close> by handle, kept sorted; \<open>finished\<close> a hash map, whose \<open>begin()\<close> may be any
  element.
\<close>

record TState =
  uid_pool :: "int list"
  cpuid_pool :: "int list"
  pool_init :: bool
  running :: "(int \<times> int \<times> int \<times> int) list"
  finished :: "(int \<times> cjail_result) list"

definition TState_init :: TState where
  "TState_init = \<lparr>uid_pool = [], cpuid_pool = [], pool_init = False, running = [], finished = []\<rparr>"

fun map_put :: "int \<Rightarrow> 'a \<Rightarrow> (int \<times> 'a) list \<Rightarrow> (int \<times> 'a) list" where
  "map_put k v [] = [(k, v)]"
| "map_put k v ((k', v') # xs) =
     (if k < k' then (k, v) # (k', v') # xs else if k = k' then (k, v) # xs
      else (k', v') # map_put k v xs)"

definition hash_put :: "int \<Rightarrow> 'a \<Rightarrow> (int \<times> 'a) list \<Rightarrow> (int \<times> 'a) list" where
  "hash_put k v xs = (if k \<in> fst ` set xs then map (\<lambda>(k', v'). (k', if k' = k then v else v')) xs else xs @ [(k, v)])"

section \<open>Operations\<close>

definition InitPools :: "Config \<Rightarrow> TState \<Rightarrow> TState" where
  "InitPools cfg ts =
     ts\<lparr>uid_pool := uid_pool ts @ map (\<lambda>i. int i + kUidBase) [0 ..< kUidPoolSize],
        cpuid_pool := cpuid_pool ts @ kPinnedCpus cfg, pool_init := True\<rparr>"

text \<open>
  The arguments are the read end \<open>pipe()\<close> gives, \<open>None\<close> if it fails, and the value of \<open>fork()\<close> in the
  parent. The result is the handle, negative on an error.
\<close>

definition RunTask :: "Config \<Rightarrow> int option \<Rightarrow> int \<Rightarrow> TState \<Rightarrow> error + int \<times> TState" where
  "RunTask cfg pipefd pid ts =
     (let ts = (if \<not> pool_init ts then InitPools cfg ts else ts)
      in case pipefd of
           None \<Rightarrow> Inr (-1, ts)
         | Some fd \<Rightarrow>
             if uid_pool ts = [] then Inl EmptyBack
             else
               let uid = last (uid_pool ts);
                   ts = ts\<lparr>uid_pool := butlast (uid_pool ts)\<rparr>;
                   cpuid = (if cpuid_pool ts = [] then -1 else last (cpuid_pool ts));
                   ts = ts\<lparr>cpuid_pool := butlast (cpuid_pool ts)\<rparr>
               in if pid < 0 then
                    Inr (pid, ts\<lparr>uid_pool := uid_pool ts @ [uid],
                                 cpuid_pool := (if cpuid \<noteq> -1 then cpuid_pool ts @ [cpuid] else cpuid_pool ts)\<rparr>)
                  else Inr (fd, ts\<lparr>running := map_put fd (pid, uid, cpuid) (running ts)\<rparr>))"

text \<open>
  One finished task in the loop of \<open>Wait\<close>. \<open>res\<close> is what \<open>read\<close> delivers for a handle; a short read
  leaves the zero result.
\<close>

definition collect :: "(int \<Rightarrow> cjail_result) \<Rightarrow> TState \<Rightarrow> int \<times> int \<times> int \<times> int \<Rightarrow> TState" where
  "collect res ts x =
     (let (fd, pid, uid, cpuid) = x
      in ts\<lparr>uid_pool := uid_pool ts @ [uid],
            cpuid_pool := (if cpuid \<noteq> -1 then cpuid_pool ts @ [cpuid] else cpuid_pool ts),
            finished := hash_put fd (res fd) (finished ts)\<rparr>)"

text \<open>
  \<open>sel\<close> is the set \<open>select\<close> reports readable, \<open>None\<close> if it fails. The entries are removed from
  \<open>running\<close> after the loop.
\<close>

definition Wait :: "int set option \<Rightarrow> (int \<Rightarrow> cjail_result) \<Rightarrow> TState \<Rightarrow> bool \<times> TState" where
  "Wait sel res ts =
     (if running ts = [] then (False, ts)
      else case sel of
          None \<Rightarrow> (False, ts)
        | Some fds \<Rightarrow>
            let done_tasks = filter (\<lambda>x. fst x \<in> fds) (running ts);
                ts = foldl (collect res) ts done_tasks
            in (True, ts\<lparr>running := filter (\<lambda>x. fst x \<notin> fds) (running ts)\<rparr>))"

text \<open>\<open>pos\<close> is the position of \<open>finished.begin()\<close>.\<close>

definition pop_finished :: "nat \<Rightarrow> TState \<Rightarrow> error + (int \<times> cjail_result) \<times> TState" where
  "pop_finished pos ts =
     (if finished ts = [] then Inl EndIterator
      else let p = pos mod length (finished ts)
           in Inr (finished ts ! p, ts\<lparr>finished := take p (finished ts) @ drop (Suc p) (finished ts)\<rparr>))"

definition WaitAnyResult ::
    "int set option \<Rightarrow> (int \<Rightarrow> cjail_result) \<Rightarrow> nat \<Rightarrow> TState \<Rightarrow> error + (int \<times> cjail_result) \<times> TState" where
  "WaitAnyResult sel res pos ts =
     (if running ts = [] \<and> finished ts = [] then Inr ((-1, cjail_zero), ts)
      else pop_finished pos (if finished ts = [] then snd (Wait sel res ts) else ts))"

text \<open>
  \<open>WaitAnyResult\<close> for given handles: the first handle that is finished, or waits; \<open>sels\<close> are the
  results of the \<open>select\<close> calls, and \<open>None\<close> is returned while it still waits.
\<close>

fun find_finished :: "int list \<Rightarrow> TState \<Rightarrow> ((int \<times> cjail_result) \<times> TState) option" where
  "find_finished [] ts = None"
| "find_finished (h # hs) ts =
     (case map_of (finished ts) h of
        Some r \<Rightarrow> Some ((h, r), ts\<lparr>finished := filter (\<lambda>x. fst x \<noteq> h) (finished ts)\<rparr>)
      | None \<Rightarrow> find_finished hs ts)"

fun wait_handles ::
    "int list \<Rightarrow> (int \<Rightarrow> cjail_result) \<Rightarrow> int set option list \<Rightarrow> TState \<Rightarrow> ((int \<times> cjail_result) \<times> TState) option" where
  "wait_handles hs res [] ts = None"
| "wait_handles hs res (sel # sels) ts =
     (let ts = snd (Wait sel res ts)
      in case find_finished hs ts of Some x \<Rightarrow> Some x | None \<Rightarrow> wait_handles hs res sels ts)"

definition WaitAnyResult_handles ::
    "int list \<Rightarrow> (int \<Rightarrow> cjail_result) \<Rightarrow> int set option list \<Rightarrow> TState \<Rightarrow> ((int \<times> cjail_result) \<times> TState) option" where
  "WaitAnyResult_handles hs res sels ts =
     (case find_finished hs ts of
        Some x \<Rightarrow> Some x
      | None \<Rightarrow> if \<exists>h \<in> set hs. h \<in> fst ` set (running ts) then wait_handles hs res sels ts
                else Some ((-1, cjail_zero), ts))"

section \<open>Sharing out a resource\<close>

text \<open>
  The contract of a pool: what is free and what running tasks hold is constant over the operations.
  \<open>handles\<close> are the open file descriptors; a pipe never reuses one.
\<close>

definition handles :: "TState \<Rightarrow> int list" where
  "handles ts = map fst (running ts) @ map fst (finished ts)"

locale resource_pool =
  fixes pool held :: "TState \<Rightarrow> int multiset"
  assumes run: "pool_init ts \<Longrightarrow> (\<And>fd. pipefd = Some fd \<Longrightarrow> fd \<notin> set (handles ts)) \<Longrightarrow>
      RunTask cfg pipefd pid ts = Inr (h, ts') \<Longrightarrow> pool ts' + held ts' = pool ts + held ts"
    and wait: "Wait sel res ts = (b, ts') \<Longrightarrow> pool ts' + held ts' = pool ts + held ts"
    and pop: "pop_finished pos ts = Inr (r, ts') \<Longrightarrow> pool ts' + held ts' = pool ts + held ts"
begin

lemma wait_any:
  "WaitAnyResult sel res pos ts = Inr (r, ts') \<Longrightarrow> pool ts' + held ts' = pool ts + held ts"
  using wait [of sel res ts] pop [of pos]
  by (cases "Wait sel res ts") (auto simp: WaitAnyResult_def split: if_splits)

lemma no_sharing:
  assumes "pool ts + held ts = all_ids" "\<And>x. count all_ids x \<le> 1"
  shows "count (held ts) x \<le> 1" "x \<in># held ts \<Longrightarrow> x \<notin># pool ts"
proof -
  have c: "count (pool ts) x + count (held ts) x \<le> 1"
    using assms(2) [of x] unfolding assms(1) [symmetric] by simp
  then show "count (held ts) x \<le> 1" by simp
  show "x \<in># held ts \<Longrightarrow> x \<notin># pool ts"
    using c by (auto simp: count_greater_zero_iff [symmetric] simp del: count_greater_zero_iff)
qed

end

lemma mset_map_put: "k \<notin> fst ` set xs \<Longrightarrow> mset (map_put k v xs) = add_mset (k, v) (mset xs)"
  by (induction xs rule: map_put.induct) (auto simp: add_mset_commute)

lemma set_map_put: "k \<notin> fst ` set xs \<Longrightarrow> set (map_put k v xs) = insert (k, v) (set xs)"
  by (induction xs rule: map_put.induct) auto

text \<open>The user ids and the CPUs of the running tasks.\<close>

definition uid_of :: "int \<times> int \<times> int \<times> int \<Rightarrow> int" where "uid_of x = fst (snd (snd x))"
definition cpu_of :: "int \<times> int \<times> int \<times> int \<Rightarrow> int" where "cpu_of x = snd (snd (snd x))"

definition uids_held :: "TState \<Rightarrow> int multiset" where
  "uids_held ts = mset (map uid_of (running ts))"

definition cpus_held :: "TState \<Rightarrow> int multiset" where
  "cpus_held ts = filter_mset (\<lambda>c. c \<noteq> -1) (mset (map cpu_of (running ts)))"

definition uids_free :: "TState \<Rightarrow> int multiset" where "uids_free ts = mset (uid_pool ts)"
definition cpus_free :: "TState \<Rightarrow> int multiset" where
  "cpus_free ts = filter_mset (\<lambda>c. c \<noteq> -1) (mset (cpuid_pool ts))"

lemmas pool_defs = uids_held_def cpus_held_def uids_free_def cpus_free_def

lemma collect_fold:
  "uid_pool (foldl (collect res) ts xs) = uid_pool ts @ map uid_of xs"
  "cpuid_pool (foldl (collect res) ts xs) = cpuid_pool ts @ filter (\<lambda>c. c \<noteq> -1) (map cpu_of xs)"
  "running (foldl (collect res) ts xs) = running ts"
  "pool_init (foldl (collect res) ts xs) = pool_init ts"
  by (induction xs arbitrary: ts) (auto simp: collect_def uid_of_def cpu_of_def Let_def)

lemma mset_filter_split: "mset (filter P xs) + mset (filter (\<lambda>x. \<not> P x) xs) = mset xs"
  by (induction xs) auto

lemma mset_map_split:
  "mset (map f (filter P xs)) + mset (map f (filter (\<lambda>x. \<not> P x) xs)) = mset (map f xs)"
  by (induction xs) auto

lemma butlast_last_mset: "xs \<noteq> [] \<Longrightarrow> add_mset (last xs) (mset (butlast xs)) = mset xs"
  by (metis append_butlast_last_id mset.simps(2) mset_append union_mset_add_mset_right mset.simps(1) add.right_neutral)

interpretation uids: resource_pool uids_free uids_held
proof
  fix ts pipefd cfg pid h ts'
  assume "pool_init ts" "\<And>fd. pipefd = Some fd \<Longrightarrow> fd \<notin> set (handles ts)"
    and "RunTask cfg pipefd pid ts = Inr (h, ts')"
  then show "uids_free ts' + uids_held ts' = uids_free ts + uids_held ts"
    using butlast_last_mset [of "uid_pool ts"]
    by (auto simp: RunTask_def Let_def pool_defs mset_map_put handles_def uid_of_def
        split: option.splits if_splits)
next
  fix ts sel res b ts'
  assume "Wait sel res ts = (b, ts')"
  then show "uids_free ts' + uids_held ts' = uids_free ts + uids_held ts"
    using mset_map_split [of uid_of "\<lambda>x. fst x \<in> the sel" "running ts"]
    by (auto simp: Wait_def Let_def pool_defs collect_fold split: option.splits if_splits)
next
  fix ts pos r ts'
  assume "pop_finished pos ts = Inr (r, ts')"
  then show "uids_free ts' + uids_held ts' = uids_free ts + uids_held ts"
    by (auto simp: pop_finished_def Let_def pool_defs split: if_splits)
qed

interpretation cpus: resource_pool cpus_free cpus_held
proof
  fix ts pipefd cfg pid h ts'
  assume "pool_init ts" "\<And>fd. pipefd = Some fd \<Longrightarrow> fd \<notin> set (handles ts)"
    and "RunTask cfg pipefd pid ts = Inr (h, ts')"
  then show "cpus_free ts' + cpus_held ts' = cpus_free ts + cpus_held ts"
    by (cases "cpuid_pool ts" rule: rev_cases)
      (auto simp: RunTask_def Let_def pool_defs mset_map_put handles_def cpu_of_def
        split: option.splits if_splits)
next
  fix ts sel res b ts'
  assume "Wait sel res ts = (b, ts')"
  then show "cpus_free ts' + cpus_held ts' = cpus_free ts + cpus_held ts"
    using arg_cong [OF mset_map_split [of cpu_of "\<lambda>x. fst x \<in> the sel" "running ts"],
        of "filter_mset (\<lambda>c. c \<noteq> -1)"]
    by (auto simp: Wait_def Let_def pool_defs collect_fold filter_filter_mset split: option.splits if_splits)
next
  fix ts pos r ts'
  assume "pop_finished pos ts = Inr (r, ts')"
  then show "cpus_free ts' + cpus_held ts' = cpus_free ts + cpus_held ts"
    by (auto simp: pop_finished_def Let_def pool_defs split: if_splits)
qed

section \<open>Properties\<close>

text \<open>
  A task that cannot be started leaves the pools and the running tasks as they were: if the process cannot
  be forked the user id and the CPU go back where they came from, and without a pipe none is taken.
\<close>

theorem failed_start_restores:
  assumes "pool_init ts" "-1 \<notin> set (cpuid_pool ts)" "pid < 0" "uid_pool ts \<noteq> []"
  shows "RunTask cfg (Some fd) pid ts = Inr (pid, ts) \<and> RunTask cfg None pid ts = Inr (-1, ts)"
proof (cases "cpuid_pool ts = []")
  case False
  then have "last (cpuid_pool ts) \<noteq> -1" using assms(2) last_in_set by metis
  then show ?thesis using assms(1,3,4) False by (simp add: RunTask_def Let_def)
qed (use assms in \<open>simp add: RunTask_def Let_def\<close>)

theorem failed_start_restores_witness:
  "RunTask plain_config (Some 9) (-1) \<lparr>uid_pool = [50000, 50001], cpuid_pool = [2], pool_init = True, running = [], finished = []\<rparr> =
     Inr (-1, \<lparr>uid_pool = [50000, 50001], cpuid_pool = [2], pool_init = True, running = [], finished = []\<rparr>) \<and>
   RunTask plain_config None (-1) \<lparr>uid_pool = [50000, 50001], cpuid_pool = [2], pool_init = True, running = [], finished = []\<rparr> =
     Inr (-1, \<lparr>uid_pool = [50000, 50001], cpuid_pool = [2], pool_init = True, running = [], finished = []\<rparr>)"
  by (rule failed_start_restores) simp_all

end
