(* ===== verification/Dispatch.thy ===== *)
theory Dispatch
  imports Compile Summary Tasks
begin

text \<open>
  \<open>FinalizeTask\<close>, \<open>DispatchTask\<close>, \<open>WaitTask\<close> and the body of \<open>WorkLoop\<close> of
  \<open>src/tioj/submission.cpp\<close>: the scheduler around the handlers of the single tasks.
\<close>

section \<open>Tasks\<close>

text \<open>A handler changes the submission in place: its new value goes back into \<open>submission_list\<close>.\<close>

definition put_submission :: "int \<Rightarrow> SubmissionAndResult \<Rightarrow> JState \<Rightarrow> JState" where
  "put_submission k sr st = st\<lparr>submission_list := (submission_list st)(k \<mapsto> sr)\<rparr>"

definition run_finalize ::
    "Config \<Rightarrow> FsView \<Rightarrow> SubmissionAndResult \<Rightarrow> TaskEntry \<Rightarrow> cjail_result \<Rightarrow> bool \<Rightarrow> JState \<Rightarrow> error + JState" where
  "run_finalize cfg fs sr entry cres skipped st =
     (let put = (\<lambda>(sr, st). Inr (put_submission (te_submission entry) sr st))
      in case task_type (te_task entry) of
           COMPILE \<Rightarrow> and_then (FinalizeCompile cfg fs sr entry cres st) put
         | EXECUTE \<Rightarrow> and_then (FinalizeExecute cfg fs sr entry cres st) put
         | SCORING \<Rightarrow> and_then (FinalizeScoring cfg fs sr entry cres False st) put
         | SUMMARY \<Rightarrow> FinalizeSummary cfg fs sr entry cres skipped st)"

definition FinalizeTask ::
    "Config \<Rightarrow> FsView \<Rightarrow> int \<Rightarrow> cjail_result \<Rightarrow> bool \<Rightarrow> JState \<Rightarrow> error + JState" where
  "FinalizeTask cfg fs tid cres skipped st =
     (case task_list st tid of
        None \<Rightarrow> Inl OutOfRange
      | Some entry \<Rightarrow>
          and_then
            (if \<not> skipped \<or> task_type (te_task entry) = SUMMARY then
               (case submission_list st (te_submission entry) of
                  None \<Rightarrow> Inl OutOfRange
                | Some sr \<Rightarrow> run_finalize cfg fs sr entry cres skipped st)
             else Inr st)
            (Remove entry))"

definition run_setup ::
    "Config \<Rightarrow> FsView \<Rightarrow> SubmissionAndResult \<Rightarrow> TaskEntry \<Rightarrow> JState \<Rightarrow> error + bool \<times> SubmissionAndResult \<times> JState" where
  "run_setup cfg fs sr entry st =
     (case task_type (te_task entry) of
        COMPILE \<Rightarrow> (let (b, st) = SetupCompile cfg fs sr entry st in Inr (b, sr, st))
      | EXECUTE \<Rightarrow> and_then (SetupExecute cfg fs sr entry st) (\<lambda>(b, st). Inr (b, sr, st))
      | SCORING \<Rightarrow> SetupScoring cfg fs sr entry st
      | SUMMARY \<Rightarrow> SetupSummary cfg fs sr entry st)"

text \<open>What the environment decides in one round of the loop.\<close>

record Env =
  env_fs :: FsView
  env_pipe :: "int option"
  env_pid :: int
  env_select :: "int set option"
  env_read :: "int \<Rightarrow> cjail_result"
  env_pos :: nat

definition DispatchTask ::
    "Config \<Rightarrow> Env \<Rightarrow> int \<Rightarrow> JState \<times> TState \<Rightarrow> error + bool \<times> JState \<times> TState" where
  "DispatchTask cfg env tid w =
     (let (st, ts) = w
      in case task_list st tid of
           None \<Rightarrow> Inl OutOfRange
         | Some entry \<Rightarrow>
        (case submission_list st (te_submission entry) of
           None \<Rightarrow> Inl OutOfRange
         | Some sr \<Rightarrow>
             and_then (run_setup cfg (env_fs env) sr entry st) (\<lambda>(res, sr, st).
               let st = put_submission (te_submission entry) sr st
               in if \<not> res then
                    and_then (FinalizeTask cfg (env_fs env) tid cjail_zero True st)
                      (\<lambda>st. Inr (False, st, ts))
                  else
                    and_then (RunTask cfg (env_pipe env) (env_pid env) ts) (\<lambda>(h, ts).
                      Inr (True, st\<lparr>handle_map := (handle_map st)(h \<mapsto> tid)\<rparr>, ts)))))"

definition WaitTask :: "Env \<Rightarrow> JState \<times> TState \<Rightarrow> error + (int \<times> cjail_result) \<times> JState \<times> TState" where
  "WaitTask env w =
     (let (st, ts) = w
      in and_then (WaitAnyResult (env_select env) (env_read env) (env_pos env) ts) (\<lambda>((h, res), ts).
           case handle_map st h of
             None \<Rightarrow> Inl EndIterator
           | Some tid \<Rightarrow> Inr ((tid, res), st\<lparr>handle_map := (handle_map st)(h := None)\<rparr>, ts)))"

section \<open>The loop\<close>

record World =
  js :: JState
  tstate :: TState
  task_running :: int

definition World_init :: World where
  "World_init = \<lparr>js = JState_init, tstate = TState_init, task_running = 0\<rparr>"

definition loop_guard :: "World \<Rightarrow> bool" where
  "loop_guard w \<longleftrightarrow> task_running w \<noteq> 0 \<or> task_queue (js w) \<noteq> []"

definition dispatching :: "Config \<Rightarrow> World \<Rightarrow> bool" where
  "dispatching cfg w \<longleftrightarrow> task_running w < kMaxParallel cfg \<and> task_queue (js w) \<noteq> []"

text \<open>
  The steps of the inner loop between the points where the lock is taken or released: dispatching
  \<open>tid = task_queue.top()\<close>, waiting for a task with the lock released, and finalizing it.
\<close>

definition dispatch_step :: "Config \<Rightarrow> Env \<Rightarrow> int \<Rightarrow> World \<Rightarrow> error + World" where
  "dispatch_step cfg env tid w =
     (let st = (js w)\<lparr>task_queue := remove1 tid (task_queue (js w))\<rparr>
      in and_then (DispatchTask cfg env tid (st, tstate w)) (\<lambda>(b, st, ts).
           Inr (w\<lparr>js := st, tstate := ts, task_running := task_running w + (if b then 1 else 0)\<rparr>)))"

definition wait_step :: "Env \<Rightarrow> World \<Rightarrow> error + (int \<times> cjail_result) \<times> World" where
  "wait_step env w =
     and_then (WaitTask env (js w, tstate w)) (\<lambda>(r, st, ts). Inr (r, w\<lparr>js := st, tstate := ts\<rparr>))"

definition finalize_step :: "Config \<Rightarrow> FsView \<Rightarrow> int \<times> cjail_result \<Rightarrow> World \<Rightarrow> error + World" where
  "finalize_step cfg fs r w =
     and_then (FinalizeTask cfg fs (fst r) (snd r) False (js w)) (\<lambda>st.
       Inr (w\<lparr>js := st, task_running := task_running w - 1\<rparr>))"

text \<open>One round of the inner loop, and the loop for at most \<open>n\<close> rounds.\<close>

definition loop_body :: "Config \<Rightarrow> Env \<Rightarrow> int \<Rightarrow> World \<Rightarrow> error + World" where
  "loop_body cfg env tid w =
     (if dispatching cfg w then dispatch_step cfg env tid w
      else and_then (wait_step env w) (\<lambda>(r, w). finalize_step cfg (env_fs env) r w))"

text \<open>
  \<open>env\<close> gives the environment of each round, \<open>pick\<close> the choice among equal elements of the queue;
  \<open>None\<close> means that the rounds are used up.
\<close>

fun inner_loop :: "Config \<Rightarrow> (nat \<Rightarrow> World \<Rightarrow> Env) \<Rightarrow> (JState \<Rightarrow> int) \<Rightarrow> nat \<Rightarrow> World \<Rightarrow> (error + World) option" where
  "inner_loop cfg env pick 0 w = (if loop_guard w then None else Some (Inr w))"
| "inner_loop cfg env pick (Suc n) w =
     (if loop_guard w then
        (case loop_body cfg (env n w) (pick (js w)) w of
           Inl e \<Rightarrow> Some (Inl e)
         | Inr w' \<Rightarrow> inner_loop cfg env pick n w')
      else Some (Inr w))"

end
