(* ===== verification/Handlers.thy ===== *)
theory Handlers
  imports Dispatch
begin

text \<open>
  What the handlers of \<open>Compile\<close>, \<open>Execute\<close>, \<open>Scoring\<close> and \<open>Summary\<close> have in common for the scheduler:
  they only touch the result of their submission, the cancelled groups and the record of calls, they
  never shrink a result, and they stay within the vectors when the order of the tasks is kept.
\<close>

section \<open>Frames\<close>

definition grows :: "JState \<Rightarrow> JState \<Rightarrow> bool" where
  "grows st st' \<longleftrightarrow>
     (\<exists>cg es. st' = st\<lparr>cancelled_group := cg, events := es\<rparr> \<and>
        (\<forall>k gs. cancelled_group st k = Some gs \<longrightarrow> (\<exists>gs'. cg k = Some gs' \<and> gs \<subseteq> gs')))"

lemma grows_emit [simp, intro]: "grows st (emit es st)"
  unfolding grows_def by (rule exI [of _ "cancelled_group st"]) (auto simp: emit_def)

lemma grows_refl [simp, intro]: "grows st st"
  using grows_emit [of st "[]"] by (simp add: emit_def)

lemma grows_trans: "grows a b \<Longrightarrow> grows b c \<Longrightarrow> grows a c"
proof -
  assume "grows a b" "grows b c"
  then obtain cg es cg' es' where b: "b = a\<lparr>cancelled_group := cg, events := es\<rparr>"
      "\<forall>k gs. cancelled_group a k = Some gs \<longrightarrow> (\<exists>gs'. cg k = Some gs' \<and> gs \<subseteq> gs')"
    and c: "c = b\<lparr>cancelled_group := cg', events := es'\<rparr>"
      "\<forall>k gs. cancelled_group b k = Some gs \<longrightarrow> (\<exists>gs'. cg' k = Some gs' \<and> gs \<subseteq> gs')"
    unfolding grows_def by blast
  have "\<exists>gs'. cg' k = Some gs' \<and> gs \<subseteq> gs'" if "cancelled_group a k = Some gs" for k gs
  proof -
    obtain g1 where "cg k = Some g1" "gs \<subseteq> g1" using b(2) \<open>cancelled_group a k = Some gs\<close> by blast
    then show ?thesis using c(2) b(1) by fastforce
  qed
  then show "grows a c" unfolding grows_def b c by auto
qed

lemma grows_cancel_groups [simp, intro]: "grows st (cancel_groups sb gs td st)"
proof (cases "skip_group sb \<and> td_verdict td \<noteq> NUL \<and> td_verdict td \<noteq> AC")
  case True
  then have "cancel_groups sb gs td st = st\<lparr>cancelled_group := (cancelled_group st)
      (submission_internal_id sb \<mapsto>
        (case cancelled_group st (submission_internal_id sb) of None \<Rightarrow> {} | Some gs \<Rightarrow> gs) \<union> set gs),
      events := events st\<rparr>"
    by (simp add: cancel_groups_def Let_def)
  then show ?thesis unfolding grows_def by (intro exI conjI) (assumption, auto)
next
  case False
  then show ?thesis unfolding cancel_groups_def by (auto simp: Let_def)
qed

lemma grows_IsCancelled: "grows st st' \<Longrightarrow> IsCancelled st k gs \<Longrightarrow> IsCancelled st' k gs"
  by (fastforce simp: grows_def IsCancelled_def split: option.splits)

lemma grows_fields:
  "grows st st' \<Longrightarrow> task_list st' = task_list st" "grows st st' \<Longrightarrow> task_queue st' = task_queue st"
  "grows st st' \<Longrightarrow> handle_map st' = handle_map st" "grows st st' \<Longrightarrow> submission_list st' = submission_list st"
  "grows st st' \<Longrightarrow> cancelled_list st' = cancelled_list st" "grows st st' \<Longrightarrow> task_count st' = task_count st"
  "grows st st' \<Longrightarrow> submission_id_map st' = submission_id_map st"
  by (auto simp: grows_def)

definition sr_le :: "SubmissionAndResult \<Rightarrow> SubmissionAndResult \<Rightarrow> bool" where
  "sr_le sr sr' \<longleftrightarrow>
     sub sr' = sub sr \<and> (verdict (result sr) \<noteq> NUL \<longrightarrow> verdict (result sr') \<noteq> NUL) \<and>
     length (td_results (result sr)) \<le> length (td_results (result sr')) \<and>
     (length (td_results (result sr)) \<le> length (testdata (sub sr)) \<longrightarrow>
      length (td_results (result sr')) \<le> length (testdata (sub sr)))"

lemma sr_le_refl [simp, intro]: "sr_le sr sr"
  by (simp add: sr_le_def)

text \<open>A task of a testdata names one that exists.\<close>

definition task_wf :: "Submission \<Rightarrow> Task \<Rightarrow> bool" where
  "task_wf sb t \<longleftrightarrow>
     (task_type t = EXECUTE \<or> task_type t = SCORING \<longrightarrow>
        0 \<le> subtask t \<and> subtask t < int (length (testdata sb)) \<and> 0 \<le> stage t \<and> stage t < stages sb)"

section \<open>Scoring\<close>

lemma FinalizeScoring_frame:
  assumes "FinalizeScoring cfg fs sr task cres skipped st = Inr (sr', st')"
  shows "grows st st'" "sr_le sr sr'" "verdict (result sr') = verdict (result sr)"
    "length (td_results (result sr')) = length (td_results (result sr))"
proof -
  let ?i = "nat (subtask (te_task task))"
  obtain td item where t: "nth_opt (td_results (result sr)) ?i = Some td" "nth_opt (testdata (sub sr)) ?i = Some item"
    using assms by (auto simp: FinalizeScoring_def Let_def split: option.splits)
  obtain td1 es where r: "sr' = sr\<lparr>result := (result sr)\<lparr>td_results := (td_results (result sr))[?i := td1]\<rparr>\<rparr>"
      "st' = emit es (cancel_groups (sub sr) (td_groups item) td1 st)"
    using assms t by (auto simp: FinalizeScoring_def Let_def split: prod.splits)
  show "grows st st'" unfolding r using grows_trans [OF grows_cancel_groups grows_emit] .
  show "sr_le sr sr'" "verdict (result sr') = verdict (result sr)"
    "length (td_results (result sr')) = length (td_results (result sr))"
    by (simp_all add: r sr_le_def)
qed

lemma FinalizeScoring_total:
  assumes "nat (subtask (te_task task)) < length (td_results (result sr))"
    "nat (subtask (te_task task)) < length (testdata (sub sr))"
  shows "\<exists>x. FinalizeScoring cfg fs sr task cres skipped st = Inr x"
  using assms by (simp add: FinalizeScoring_def Let_def split: prod.split)

lemma map_sum_Inr: "map_sum (\<lambda>e. e) f x = Inr y \<longleftrightarrow> (\<exists>z. x = Inr z \<and> y = f z)"
  by (cases x) auto

lemma SetupScoring_cases:
  assumes "SetupScoring cfg fs sr task st = Inr (b, sr', st')"
  obtains (same) "sr' = sr" "grows st st'" "b \<Longrightarrow> nat (subtask (te_task task)) < length (td_results (result sr))"
    | (final) fs' c s st0 where "grows st st0" "FinalizeScoring cfg fs' sr task c s st0 = Inr (sr', st')" "\<not> b"
proof -
  have g: "grows st (emit es (emit es' st))" for es es' using grows_trans [OF grows_emit grows_emit] .
  show thesis
    using assms
    by (auto simp: SetupScoring_def Let_def map_sum_Inr nth_opt_Some split: if_splits option.splits
        intro: same g final [OF grows_refl] final [OF g])
qed

lemma SetupScoring_frame:
  assumes "SetupScoring cfg fs sr task st = Inr (b, sr', st')"
  shows "grows st st'" "sr_le sr sr'" "b \<Longrightarrow> nat (subtask (te_task task)) < length (td_results (result sr'))"
  using assms by (rule SetupScoring_cases; use grows_trans FinalizeScoring_frame(1,2) in \<open>auto\<close>)+

lemma SetupScoring_total:
  assumes "task_wf (sub sr) (te_task task)" "task_type (te_task task) = SCORING"
    and "nat (subtask (te_task task)) < length (td_results (result sr)) \<or> verdict (result sr) \<noteq> NUL \<or>
      IsCancelled st (submission_internal_id (sub sr)) (td_groups (testdata (sub sr) ! nat (subtask (te_task task))))"
  shows "\<exists>x. SetupScoring cfg fs sr task st = Inr x"
proof -
  let ?i = "nat (subtask (te_task task))"
  have i: "?i < length (testdata (sub sr))" using assms(1,2) by (auto simp: task_wf_def)
  have F: "\<exists>x. FinalizeScoring cfg fs' sr task c s st'' = Inr x" if "?i < length (td_results (result sr))" for c s fs' st''
    using FinalizeScoring_total that i by blast
  show ?thesis
  proof (cases "verdict (result sr) \<noteq> NUL \<or> IsCancelled st (submission_internal_id (sub sr)) (td_groups (testdata (sub sr) ! ?i))")
    case True
    then show ?thesis using i by (auto simp: SetupScoring_def Let_def)
  next
    case False
    then have l: "?i < length (td_results (result sr))" using assms(3) by blast
    from F [OF this] show ?thesis
      using i l by (simp add: SetupScoring_def Let_def map_sum_Inr) blast
  qed
qed

section \<open>Executions\<close>

lemma SetupExecute_total:
  assumes "task_wf (sub sr) (te_task task)" "task_type (te_task task) = EXECUTE"
    and "stage (te_task task) \<le> 0 \<or> nat (subtask (te_task task)) < length (td_results (result sr)) \<or>
      verdict (result sr) \<noteq> NUL \<or>
      IsCancelled st (submission_internal_id (sub sr)) (td_groups (testdata (sub sr) ! nat (subtask (te_task task))))"
  shows "SetupExecute cfg fs sr task st = Inl e \<Longrightarrow> e = FsError"
  using assms by (auto simp: SetupExecute_def Let_def task_wf_def split: if_splits option.splits prod.splits)

lemma SetupExecute_skip:
  assumes "SetupExecute cfg fs sr task st = Inr (False, st')" "stage (te_task task) \<le> 0"
  shows "verdict (result sr) \<noteq> NUL \<or>
    IsCancelled st (submission_internal_id (sub sr)) (td_groups (testdata (sub sr) ! nat (subtask (te_task task))))"
  using assms by (auto simp: SetupExecute_def Let_def nth_opt_Some split: if_splits option.splits prod.splits)

lemma FinalizeExecute_total:
  "task_wf (sub sr) (te_task task) \<Longrightarrow> task_type (te_task task) = EXECUTE \<Longrightarrow>
   \<exists>x. FinalizeExecute cfg fs sr task cres st = Inr x"
  by (auto simp: FinalizeExecute_def Let_def task_wf_def)

lemma FinalizeExecute_sr_le:
  assumes "FinalizeExecute cfg fs sr task cres st = Inr (sr', st')"
    and "task_wf (sub sr) (te_task task)" "task_type (te_task task) = EXECUTE"
  shows "grows st st'" "sr_le sr sr'" "nat (subtask (te_task task)) < length (td_results (result sr'))"
  using FinalizeExecute_frame [OF assms(1)] assms(2,3) by (auto simp: sr_le_def task_wf_def)

section \<open>The summary\<close>

lemma worst_verdict_total: "length tds \<le> length items \<Longrightarrow> \<exists>v. worst_verdict items tds v0 = Inr v"
  by (induction items tds v0 rule: worst_verdict.induct) auto

lemma worst_verdict_ge: "worst_verdict items tds v0 = Inr v \<Longrightarrow> v0 \<le> v"
  by (induction items tds v0 rule: worst_verdict.induct) (auto split: if_splits)

lemma overall_verdict_not_NUL: "overall_verdict sr = Inr v \<Longrightarrow> v \<noteq> NUL"
  using worst_verdict_ge [of "testdata (sub sr)" "td_results (result sr)" AC v]
  by (auto simp: overall_verdict_def verdict_order split: if_splits)

lemma traverse_testdata_error: "traverse testdata_json xs = Inl e \<Longrightarrow> e = LengthError"
  by (induction xs)
    (auto simp: testdata_json_def ScoreToString_def Let_def and_then_def split: sum.splits if_splits prod.splits)

lemma traverse_score_error: "traverse ScoreToString xs = Inl e \<Longrightarrow> e = LengthError"
  by (induction xs) (auto simp: ScoreToString_def Let_def and_then_def split: sum.splits if_splits)

lemma SummaryMeta_error:
  "length (td_results (result sr)) \<le> length (testdata (sub sr)) \<Longrightarrow> SummaryMeta cfg sr = Inl e \<Longrightarrow> e = LengthError"
  using traverse_testdata_error traverse_score_error
  by (auto simp: SummaryMeta_def Let_def and_then_def split: sum.splits)

lemma SetupSummary_total:
  assumes "length (td_results (result sr)) \<le> length (testdata (sub sr))"
  shows "SetupSummary cfg fs sr task st = Inl e \<Longrightarrow> e = LengthError"
  using worst_verdict_total [OF assms, of AC] assms
  by (auto simp: SetupSummary_def overall_verdict_def Let_def and_then_def
      dest!: SummaryMeta_error [rotated] split: sum.splits if_splits)

lemma SetupSummary_frame:
  assumes "SetupSummary cfg fs sr task st = Inr (b, sr', st')"
  shows "grows st st'" "sr_le sr sr'" "td_results (result sr') = td_results (result sr)"
  using assms overall_verdict_not_NUL [of sr]
  by (auto simp: SetupSummary_def Let_def and_then_def sr_le_def split: sum.splits if_splits)

lemma min_groups_total:
  "\<forall>g \<in> set gs. 0 \<le> g \<and> nat g < length ss \<Longrightarrow>
   \<exists>ss'. min_groups score gs ss = Inr ss' \<and> length ss' = length ss"
  by (induction score gs ss rule: min_groups.induct) auto

definition groups_ok :: "Submission \<Rightarrow> bool" where
  "groups_ok sb \<longleftrightarrow> (\<forall>item \<in> set (testdata sb). \<forall>g \<in> set (td_groups item). 0 \<le> g \<and> nat g < length (group_score sb))"

lemma tally_total:
  "length tds \<le> length items \<Longrightarrow>
   \<forall>item \<in> set items. \<forall>g \<in> set (td_groups item). 0 \<le> g \<and> nat g < length ss \<Longrightarrow>
   \<exists>m t ss'. tally items tds (mem, time, ss) = Inr (m, t, ss') \<and> length ss' = length ss"
proof (induction items tds "(mem, time, ss)" arbitrary: mem time ss rule: tally.induct)
  case (3 item items td tds mem time ss)
  show ?case
  proof (cases "ignore_verdict item")
    case True
    with 3 show ?thesis by simp
  next
    case False
    obtain ss1 where ss1: "min_groups (td_score td) (td_groups item) ss = Inr ss1" "length ss1 = length ss"
      using min_groups_total [of "td_groups item" ss "td_score td"] 3 by auto
    have "\<exists>m t ss'. tally items tds (max mem (td_rss td), time + td_time td, ss1) = Inr (m, t, ss') \<and>
        length ss' = length ss1"
      by (rule 3(2) [OF False]) (use 3(3,4) ss1(2) in auto)
    with False ss1 show ?thesis by simp
  qed
qed auto

lemma FinalizeSummary_total:
  assumes "length (td_results (result sr)) \<le> length (testdata (sub sr))" "groups_ok (sub sr)"
  shows "\<exists>st'. FinalizeSummary cfg fs sr task cres skipped st = Inr st'"
proof -
  have "\<exists>m t ss'. tally (testdata (sub sr)) (td_results (result sr))
      (0, 0, replicate (length (group_score (sub sr))) kInfScore) = Inr (m, t, ss') \<and>
      length ss' = length (replicate (length (group_score (sub sr))) kInfScore)"
    by (rule tally_total) (use assms in \<open>auto simp: groups_ok_def\<close>)
  then have "\<exists>res. score_submission sr = Inr res" by (auto simp: score_submission_def Let_def)
  then show ?thesis by (auto simp: FinalizeSummary_def Let_def)
qed

lemma FinalizeSummary_frame:
  assumes "FinalizeSummary cfg fs sr task cres skipped st = Inr st'"
  defines "k \<equiv> submission_internal_id (sub sr)"
  shows "task_list st' = task_list st" "task_queue st' = task_queue st" "handle_map st' = handle_map st"
    "submission_list st' = (submission_list st)(k := None)"
    "cancelled_list st' = cancelled_list st - {k}"
    "cancelled_group st' = (cancelled_group st)(k := None)" "task_count st' = task_count st"
proof -
  obtain res where "score_submission sr = Inr res" using assms(1) by (auto simp: FinalizeSummary_def and_then_Inr)
  with assms(1) have st': "Inr st' = FinalizeSummary cfg fs sr task cres skipped st"
    and r: "score_submission sr = Inr res" by simp_all
  note d = if_distrib [of task_list] if_distrib [of task_queue] if_distrib [of handle_map]
    if_distrib [of submission_list] if_distrib [of cancelled_list] if_distrib [of cancelled_group]
    if_distrib [of task_count]
  note f = st' [unfolded FinalizeSummary_def r and_then_simps Let_def sum.inject]
  show "task_list st' = task_list st" by (simp add: f emit_def d)
  show "task_queue st' = task_queue st" by (simp add: f emit_def d)
  show "handle_map st' = handle_map st" by (simp add: f emit_def d)
  show "submission_list st' = (submission_list st)(k := None)" by (simp add: f emit_def d k_def)
  show "cancelled_list st' = cancelled_list st - {k}" by (simp add: f emit_def d k_def)
  show "cancelled_group st' = (cancelled_group st)(k := None)" by (simp add: f emit_def d k_def)
  show "task_count st' = task_count st" by (simp add: f emit_def d)
qed

section \<open>All kinds of tasks\<close>

lemma SetupCompile_frame: "grows st (snd (SetupCompile cfg fs sr task st))"
  by (simp add: SetupCompile_def Let_def)

lemma FinalizeCompile_total: "FinalizeCompile cfg fs sr task cres st = Inl e \<Longrightarrow> e = FsError"
  by (auto simp: FinalizeCompile_def Let_def compile_message_def
      split: if_splits sum.splits option.splits CompileSubtask.splits)

lemma FinalizeCompile_sr_le:
  assumes "FinalizeCompile cfg fs sr task cres st = Inr (sr', st')"
  shows "grows st st'" "sr_le sr sr'"
proof -
  note F = FinalizeCompile_verdict [OF assms]
  obtain es where "st' = emit es st" using F(4) by blast
  then show "grows st st'" by simp
  have "verdict (result sr) \<le> verdict (result sr')" unfolding F(1) by simp
  then have "verdict (result sr) \<noteq> NUL \<longrightarrow> verdict (result sr') \<noteq> NUL" using NUL_least antisym by metis
  then show "sr_le sr sr'" using F(2,3) by (simp add: sr_le_def)
qed

lemma run_setup_frame:
  assumes "run_setup cfg fs sr entry st = Inr (b, sr', st')"
  shows "grows st st'" "sr_le sr sr'"
proof -
  have "grows st st' \<and> sr_le sr sr'"
  proof (cases "task_type (te_task entry)")
    case COMPILE
    then show ?thesis using assms SetupCompile_frame [of st cfg fs sr entry]
      by (auto simp: run_setup_def split: prod.splits)
  next
    case EXECUTE
    then show ?thesis using assms SetupExecute_frame [of cfg fs sr entry st]
      by (auto simp: run_setup_def and_then_Inr)
  next
    case SCORING
    then show ?thesis using assms SetupScoring_frame [of cfg fs sr entry st b sr' st'] by (simp add: run_setup_def)
  next
    case SUMMARY
    then show ?thesis using assms SetupSummary_frame [of cfg fs sr entry st b sr' st'] by (simp add: run_setup_def)
  qed
  then show "grows st st'" "sr_le sr sr'" by blast+
qed

end
