(* ===== verification/GraphInv.thy ===== *)
theory GraphInv
  imports TaskGraph
begin

text \<open>
  The invariant of the dependency graph: in-degrees count the edges that point to a task, edges stay
  within a submission and lead to a later kind of task, and the ready queue holds the tasks without
  a predecessor that are not running. \<open>Link\<close>, the insertion of a batch and \<open>Remove\<close> keep it.
\<close>

section \<open>Edges and in-degrees\<close>

definition in_count :: "store \<Rightarrow> int \<Rightarrow> nat" where
  "in_count B n = (\<Sum>p \<in> dom B. count_list (edges (the (B p))) n)"

text \<open>Every edge increases the rank, so the graph has no cycle.\<close>

definition rank :: "Task \<Rightarrow> int" where
  "rank t = (case task_type t of COMPILE \<Rightarrow> 0 | EXECUTE \<Rightarrow> 2 * stage t + 1
     | SCORING \<Rightarrow> 2 * stage t + 2 | SUMMARY \<Rightarrow> 100)"

definition edge_ok :: "store \<Rightarrow> TaskEntry \<Rightarrow> int \<Rightarrow> bool" where
  "edge_ok B t n \<longleftrightarrow>
     (\<exists>u. B n = Some u \<and> te_submission u = te_submission t \<and> rank (te_task t) < rank (te_task u))"

definition graph_ok :: "store \<Rightarrow> bool" where
  "graph_ok B \<longleftrightarrow>
     finite (dom B) \<and>
     (\<forall>k t. B k = Some t \<longrightarrow>
        te_id t = k \<and> indeg t = int (in_count B k) \<and> (\<forall>n \<in> set (edges t). edge_ok B t n))"

definition ready :: "store \<Rightarrow> int set" where
  "ready B = {k. \<exists>t. B k = Some t \<and> indeg t = 0}"

lemma graph_okD:
  assumes "graph_ok B" "B k = Some t"
  shows "te_id t = k" "indeg t = int (in_count B k)" "n \<in> set (edges t) \<Longrightarrow> edge_ok B t n"
  using assms by (auto simp: graph_ok_def)

lemma graph_ok_finite: "graph_ok B \<Longrightarrow> finite (dom B)"
  by (simp add: graph_ok_def)

lemma graph_ok_empty [simp]: "graph_ok Map.empty"
  by (simp add: graph_ok_def)

lemma in_count_cong:
  "dom B = dom C \<Longrightarrow> (\<And>p. p \<in> dom B \<Longrightarrow> edges (the (B p)) = edges (the (C p))) \<Longrightarrow>
   in_count B n = in_count C n"
  unfolding in_count_def by (rule sum.cong) auto

lemma in_count_new:
  "finite (dom B) \<Longrightarrow> p \<notin> dom B \<Longrightarrow> in_count (B(p \<mapsto> t)) n = in_count B n + count_list (edges t) n"
proof -
  assume f: "finite (dom B)" and p: "p \<notin> dom B"
  have "in_count (B(p \<mapsto> t)) n = (\<Sum>q \<in> insert p (dom B). count_list (edges (the ((B(p \<mapsto> t)) q))) n)"
    by (simp add: in_count_def)
  also have "\<dots> = count_list (edges t) n + (\<Sum>q \<in> dom B. count_list (edges (the ((B(p \<mapsto> t)) q))) n)"
    using f p by simp
  also have "(\<Sum>q \<in> dom B. count_list (edges (the ((B(p \<mapsto> t)) q))) n) = in_count B n"
    unfolding in_count_def by (rule sum.cong) (use p in auto)
  finally show ?thesis by (simp only: add.commute)
qed

lemma in_count_split:
  assumes "finite (dom B)" "B p = Some t"
  shows "in_count B n = in_count (B(p := None)) n + count_list (edges t) n"
proof -
  have "B = (B(p := None))(p \<mapsto> t)" using assms(2) by (auto simp: fun_eq_iff)
  then have "in_count B n = in_count ((B(p := None))(p \<mapsto> t)) n" by simp
  also have "\<dots> = in_count (B(p := None)) n + count_list (edges t) n"
    by (rule in_count_new) (use assms in auto)
  finally show ?thesis .
qed

lemma in_count_outside:
  assumes "\<And>p t. B p = Some t \<Longrightarrow> n \<notin> set (edges t)"
  shows "in_count B n = 0"
proof -
  have "count_list (edges (the (B p))) n = 0" if "p \<in> dom B" for p
    using assms that by (auto simp: count_list_0_iff)
  then show ?thesis by (simp add: in_count_def)
qed

lemma graph_ok_target: "graph_ok B \<Longrightarrow> B p = Some t \<Longrightarrow> n \<in> set (edges t) \<Longrightarrow> n \<in> dom B"
  using graph_okD(3) [of B p t n] unfolding edge_ok_def by blast

lemma in_count_pos:
  assumes "finite (dom B)" "B p = Some t" "n \<in> set (edges t)"
  shows "0 < in_count B n"
  using in_count_split [OF assms(1,2), of n] assms(3) count_list_pos [of "edges t" n] by simp

lemma graph_ok_pred: "graph_ok B \<Longrightarrow> B p = Some t \<Longrightarrow> n \<in> set (edges t) \<Longrightarrow> n \<notin> ready B"
  using in_count_pos [OF graph_ok_finite] by (fastforce simp: ready_def dest: graph_okD(2))

text \<open>The graph has no cycle: an entry of least rank is ready.\<close>

lemma graph_ok_ready:
  assumes "graph_ok B" "B \<noteq> Map.empty"
  shows "ready B \<noteq> {}"
proof -
  let ?f = "\<lambda>k. rank (te_task (the (B k)))"
  have ne: "?f ` dom B \<noteq> {}" and fin: "finite (?f ` dom B)" using assms graph_ok_finite by auto
  obtain k t where k: "B k = Some t" "?f k = Min (?f ` dom B)" using Min_in [OF fin ne] by auto
  have "n \<noteq> k" if "B p = Some u" "n \<in> set (edges u)" for p u n
  proof
    assume "n = k"
    then have "rank (te_task u) < rank (te_task t)"
      using graph_okD(3) [OF assms(1) that] k(1) by (auto simp: edge_ok_def)
    moreover have "?f p \<in> ?f ` dom B" using that(1) by (intro imageI) blast
    with fin have "Min (?f ` dom B) \<le> ?f p" by (rule Min_le)
    ultimately show False using k that(1) by simp
  qed
  then have "in_count B k = 0" by (intro in_count_outside) blast
  then have "indeg t = 0" using graph_okD(2) [OF assms(1) k(1)] by simp
  then show ?thesis using k(1) by (auto simp: ready_def)
qed

section \<open>Building a batch of tasks\<close>

lemma edge_ok_upd:
  "edge_ok B t n \<Longrightarrow> (\<And>u. B k = Some u \<Longrightarrow> te_submission v = te_submission u \<and> te_task v = te_task u) \<Longrightarrow>
   edge_ok (B(k \<mapsto> v)) t n"
  by (auto simp: edge_ok_def)

lemma edge_ok_cong:
  "te_submission t = te_submission u \<Longrightarrow> te_task t = te_task u \<Longrightarrow> edge_ok B t n = edge_ok B u n"
  by (simp add: edge_ok_def)

lemma graph_ok_new:
  assumes "graph_ok B" "k \<notin> dom B" "te_id t = k" "indeg t = 0" "edges t = []"
  shows "graph_ok (B(k \<mapsto> t))"
proof -
  have f: "finite (dom B)" using assms(1) by (rule graph_ok_finite)
  have c: "in_count (B(k \<mapsto> t)) n = in_count B n" for n
    using in_count_new [OF f assms(2)] assms(5) by simp
  have "in_count B k = 0"
    by (rule in_count_outside) (use graph_ok_target [OF assms(1)] assms(2) in blast)
  moreover have "edge_ok (B(k \<mapsto> t)) u n" if "edge_ok B u n" for u n
    using that by (rule edge_ok_upd) (use assms(2) in auto)
  ultimately show ?thesis
    using assms f c by (auto simp: graph_ok_def)
qed

lemma Link_simp:
  "B a = Some ta \<Longrightarrow> B b = Some tb \<Longrightarrow> a \<noteq> b \<Longrightarrow> te_id tb = b \<Longrightarrow>
   Link a b B = B(a \<mapsto> ta\<lparr>edges := edges ta @ [b]\<rparr>, b \<mapsto> tb\<lparr>indeg := indeg tb + 1\<rparr>)"
  by (simp add: Link_def Let_def)

lemma in_count_Link:
  assumes "finite (dom B)" "B a = Some ta" "B b = Some tb" "a \<noteq> b" "te_id tb = b"
  shows "in_count (Link a b B) n = in_count B n + (if n = b then 1 else 0)"
proof -
  let ?ta = "ta\<lparr>edges := edges ta @ [b]\<rparr>"
  have "in_count (Link a b B) n = in_count (B(a \<mapsto> ?ta)) n"
    unfolding Link_simp [OF assms(2-5)] by (rule in_count_cong) (use assms in auto)
  also have "\<dots> = in_count ((B(a \<mapsto> ?ta))(a := None)) n + count_list (edges ?ta) n"
    by (rule in_count_split) (use assms in auto)
  also have "\<dots> = in_count (B(a := None)) n + count_list (edges ta) n + (if n = b then 1 else 0)"
    by simp
  also have "\<dots> = in_count B n + (if n = b then 1 else 0)"
    using in_count_split [OF assms(1,2)] by simp
  finally show ?thesis .
qed

lemma graph_ok_Link:
  assumes ok: "graph_ok B" and a: "B a = Some ta" and b: "B b = Some tb"
    and sub: "te_submission ta = te_submission tb" and r: "rank (te_task ta) < rank (te_task tb)"
  shows "graph_ok (Link a b B)"
proof -
  have ne: "a \<noteq> b" using a b r by auto
  have ids: "te_id ta = a" "te_id tb = b" using graph_okD(1) [OF ok] a b by auto
  note f = graph_ok_finite [OF ok]
  note L = Link_simp [OF a b ne ids(2)]
  have e: "edge_ok (Link a b B) u n" if "edge_ok B u n" for u n
    unfolding L using that by (intro edge_ok_upd) (use a b ne in auto)
  have eb: "edge_ok B ta b" using b sub r by (simp add: edge_ok_def)
  show ?thesis
    unfolding graph_ok_def
  proof (rule conjI; (intro allI impI)?)
    show "finite (dom (Link a b B))" using f by (simp add: L)
  next
    fix k t
    assume k: "Link a b B k = Some t"
    consider "k = a" "t = ta\<lparr>edges := edges ta @ [b]\<rparr>" | "k = b" "t = tb\<lparr>indeg := indeg tb + 1\<rparr>"
      | "k \<noteq> a" "k \<noteq> b" "B k = Some t"
      using k ne by (auto simp: L split: if_splits)
    then have "te_id t = k \<and> indeg t = int (in_count B k + (if k = b then 1 else 0)) \<and>
        (\<forall>n \<in> set (edges t). edge_ok B t n)"
    proof cases
      case 1
      then show ?thesis
        using graph_okD(2,3) [OF ok a] ne ids eb by (auto simp: edge_ok_def)
    next
      case 2
      then show ?thesis
        using graph_okD(2) [OF ok b] graph_okD(3) [OF ok b] ids by (auto simp: edge_ok_def)
    next
      case 3
      then show ?thesis using graph_okD [OF ok, of k t] by auto
    qed
    then show "te_id t = k \<and> indeg t = int (in_count (Link a b B) k) \<and>
        (\<forall>n \<in> set (edges t). edge_ok (Link a b B) t n)"
      using e in_count_Link [OF f a b ne ids(2)] by auto
  qed
qed

lemma dom_Link [simp]: "dom (Link a b B) = dom B"
  by (auto simp: Link_def Let_def split: option.splits)

text \<open>What \<open>Link\<close> keeps of an entry: everything but its edges, which grow, and its in-degree.\<close>

lemma Link_entry:
  assumes "Link a b B k = Some t"
  shows "\<exists>u. B k = Some u \<and> te_task t = te_task u \<and> te_submission t = te_submission u \<and>
     te_priority t = te_priority u \<and> task_order t = task_order u \<and> set (edges u) \<subseteq> set (edges t) \<and> te_id t = te_id u"
  using assms by (auto simp: Link_def Let_def split: option.splits if_splits)

lemma Link_adds_edge:
  assumes "B a = Some ta" "B b = Some tb" "te_id tb = b"
  shows "\<exists>t. Link a b B a = Some t \<and> b \<in> set (edges t)"
  using assms by (auto simp: Link_def Let_def)

section \<open>Inserting a batch\<close>

lemma in_count_union:
  assumes "finite (dom A)" "finite (dom B)" "dom A \<inter> dom B = {}"
  shows "in_count (A ++ B) n = in_count A n + in_count B n"
proof -
  have "in_count (A ++ B) n =
      (\<Sum>p \<in> dom A. count_list (edges (the ((A ++ B) p))) n) +
      (\<Sum>p \<in> dom B. count_list (edges (the ((A ++ B) p))) n)"
    unfolding in_count_def using assms by (simp add: sum.union_disjoint Un_commute Int_commute)
  moreover have "(\<Sum>p \<in> dom A. count_list (edges (the ((A ++ B) p))) n) = in_count A n"
  proof -
    have "(A ++ B) p = A p" if "p \<in> dom A" for p
      using that assms(3) by (auto simp: map_add_def split: option.splits)
    then show ?thesis unfolding in_count_def by (intro sum.cong) auto
  qed
  moreover have "(\<Sum>p \<in> dom B. count_list (edges (the ((A ++ B) p))) n) = in_count B n"
    unfolding in_count_def by (rule sum.cong) (auto simp: map_add_dom_app_simps)
  ultimately show ?thesis by simp
qed

lemma graph_ok_union:
  assumes A: "graph_ok A" and B: "graph_ok B" and d: "dom A \<inter> dom B = {}"
  shows "graph_ok (A ++ B)"
proof -
  have c: "in_count (A ++ B) n = in_count A n + in_count B n" for n
    using graph_ok_finite [OF A] graph_ok_finite [OF B] d by (rule in_count_union)
  have zA: "in_count A n = 0" if "n \<in> dom B" for n
    by (rule in_count_outside) (use that d graph_ok_target [OF A] in blast)
  have zB: "in_count B n = 0" if "n \<in> dom A" for n
    by (rule in_count_outside) (use that d graph_ok_target [OF B] in blast)
  have eA: "edge_ok (A ++ B) t n" if "edge_ok A t n" for t n
    using that d by (auto simp: edge_ok_def map_add_def split: option.splits)
  have eB: "edge_ok (A ++ B) t n" if "edge_ok B t n" for t n
    using that by (auto simp: edge_ok_def map_add_def)
  have entry: "te_id t = k \<and> indeg t = int (in_count (A ++ B) k) \<and> (\<forall>n \<in> set (edges t). edge_ok (A ++ B) t n)"
    if "(A ++ B) k = Some t" for k t
  proof (cases "k \<in> dom B")
    case True
    with that have "B k = Some t" by (auto simp: map_add_def)
    then show ?thesis using graph_okD [OF B] c zA [OF True] eB by auto
  next
    case False
    with that have k: "A k = Some t" by (auto simp: map_add_def domIff)
    then have "k \<in> dom A" by blast
    with k show ?thesis using graph_okD [OF A k] c zB eA by auto
  qed
  show ?thesis
    unfolding graph_ok_def using entry graph_ok_finite [OF A] graph_ok_finite [OF B] by auto
qed

lemma ready_union: "dom A \<inter> dom B = {} \<Longrightarrow> ready (A ++ B) = ready A \<union> ready B"
  by (auto simp: ready_def map_add_def split: option.splits)

text \<open>The ready queue: no duplicates, and exactly the ready tasks that are not running.\<close>

definition queue_ok :: "JState \<Rightarrow> int set \<Rightarrow> bool" where
  "queue_ok st R \<longleftrightarrow>
     distinct (task_queue st) \<and> set (task_queue st) \<inter> R = {} \<and>
     set (task_queue st) \<union> R = ready (task_list st)"

text \<open>\<open>InsertTaskList\<close> over the ids of a batch, in the order given.\<close>

definition insert_batch :: "store \<Rightarrow> int list \<Rightarrow> JState \<Rightarrow> JState" where
  "insert_batch B ks st = foldl (\<lambda>st k. case B k of Some t \<Rightarrow> InsertTaskList t st | None \<Rightarrow> st) st ks"

lemma insert_batch_snoc:
  "insert_batch B (ks @ [k]) st =
     (case B k of Some t \<Rightarrow> InsertTaskList t (insert_batch B ks st) | None \<Rightarrow> insert_batch B ks st)"
  by (simp add: insert_batch_def split: option.split)

lemma InsertTaskList_frame: "\<exists>tl q. InsertTaskList t st = st\<lparr>task_list := tl, task_queue := q\<rparr>"
  by (cases st) (auto simp: InsertTaskList_def Let_def)

lemma insert_batch_frame: "\<exists>tl q. insert_batch B ks st = st\<lparr>task_list := tl, task_queue := q\<rparr>"
proof (induction ks rule: rev_induct)
  case Nil
  show ?case by (cases st) (auto simp: insert_batch_def)
next
  case (snoc k ks)
  then obtain tl q where IH: "insert_batch B ks st = st\<lparr>task_list := tl, task_queue := q\<rparr>" by blast
  show ?case
  proof (cases "B k")
    case None
    then show ?thesis using IH by (auto simp: insert_batch_snoc)
  next
    case (Some t)
    then show ?thesis
      using InsertTaskList_frame [of t "st\<lparr>task_list := tl, task_queue := q\<rparr>"]
      by (auto simp: insert_batch_snoc IH)
  qed
qed

lemma insert_batch_effect:
  assumes B: "\<And>k t. B k = Some t \<Longrightarrow> te_id t = k" and ks: "set ks \<subseteq> dom B" "distinct ks"
    and new: "set ks \<inter> dom (task_list st) = {}"
  shows "task_list (insert_batch B ks st) = task_list st ++ (B |` set ks)"
    and "task_queue (insert_batch B ks st) =
      task_queue st @ filter (\<lambda>k. indeg (the (B k)) = 0) ks"
proof -
  have "task_list (insert_batch B ks st) = task_list st ++ (B |` set ks) \<and>
    task_queue (insert_batch B ks st) = task_queue st @ filter (\<lambda>k. indeg (the (B k)) = 0) ks"
    using ks new
  proof (induction ks rule: rev_induct)
    case Nil
    then show ?case by (simp add: insert_batch_def)
  next
    case (snoc k ks)
    let ?s = "insert_batch B ks st"
    obtain t where t: "B k = Some t" using snoc.prems by auto
    have e: "insert_batch B (ks @ [k]) st = InsertTaskList t ?s"
      using t by (simp add: insert_batch_snoc)
    have IH: "task_list ?s = task_list st ++ (B |` set ks)"
      "task_queue ?s = task_queue st @ filter (\<lambda>k. indeg (the (B k)) = 0) ks"
      using snoc by auto
    have "task_list ?s k = None"
      using snoc.prems by (auto simp: IH map_add_def restrict_map_def domIff)
    moreover have "(task_list st ++ (B |` set ks))(k \<mapsto> t) = task_list st ++ (B |` set (ks @ [k]))"
      using t by (auto simp: fun_eq_iff map_add_def restrict_map_def split: option.splits)
    ultimately show ?case
      using t B [OF t] by (simp add: e InsertTaskList_def Let_def IH)
  qed
  then show "task_list (insert_batch B ks st) = task_list st ++ (B |` set ks)"
    and "task_queue (insert_batch B ks st) =
      task_queue st @ filter (\<lambda>k. indeg (the (B k)) = 0) ks" by blast+
qed

lemma insert_batch_ok:
  assumes st: "graph_ok (task_list st)" "queue_ok st R"
    and B: "graph_ok B" and ks: "set ks = dom B" "distinct ks"
    and new: "dom B \<inter> dom (task_list st) = {}"
  shows "graph_ok (task_list (insert_batch B ks st))" "queue_ok (insert_batch B ks st) R"
    "task_list (insert_batch B ks st) = task_list st ++ B"
proof -
  have k: "set ks \<inter> dom (task_list st) = {}" "set ks \<subseteq> dom B" using ks new by auto
  have eff: "task_list (insert_batch B ks st) = task_list st ++ (B |` set ks)"
    "task_queue (insert_batch B ks st) = task_queue st @ filter (\<lambda>k. indeg (the (B k)) = 0) ks"
    by (rule insert_batch_effect; use graph_okD(1) [OF B] k ks(2) in blast)+
  have r: "B |` set ks = B"
    unfolding ks(1) by (auto simp: fun_eq_iff restrict_map_def domIff split: option.splits)
  show tl: "task_list (insert_batch B ks st) = task_list st ++ B" using eff(1) r by simp
  show "graph_ok (task_list (insert_batch B ks st))"
    unfolding tl by (rule graph_ok_union) (use st B new in auto)
  have q: "set (filter (\<lambda>k. indeg (the (B k)) = 0) ks) = ready B"
    using ks(1) by (auto simp: ready_def)
  have rB: "ready B \<subseteq> dom B" and rA: "ready (task_list st) \<subseteq> dom (task_list st)"
    by (auto simp: ready_def)
  have u: "ready (task_list st ++ B) = ready (task_list st) \<union> ready B"
    by (rule ready_union) (use new in auto)
  have "ready B \<inter> ready (task_list st) = {}" using rA rB new by blast
  then have "ready B \<inter> set (task_queue st) = {}" "ready B \<inter> R = {}"
    using st(2) by (auto simp: queue_ok_def)
  then show "queue_ok (insert_batch B ks st) R"
    using st(2) q ks(2) unfolding queue_ok_def eff(2) tl u by auto
qed

section \<open>Removing a finished task\<close>

text \<open>An entry without its in-degree, which is all a removal changes of the others.\<close>

definition static :: "TaskEntry \<Rightarrow> TaskEntry" where
  "static t = t\<lparr>indeg := 0\<rparr>"

lemma static_eq:
  "static t = static u \<Longrightarrow>
   te_id t = te_id u \<and> te_submission t = te_submission u \<and> te_task t = te_task u \<and>
   te_priority t = te_priority u \<and> task_order t = task_order u \<and> edges t = edges u"
  by (auto simp: static_def dest: arg_cong [of _ _ te_id] arg_cong [of _ _ te_submission]
      arg_cong [of _ _ te_task] arg_cong [of _ _ te_priority] arg_cong [of _ _ task_order]
      arg_cong [of _ _ edges])

text \<open>
  The state inside the loop of \<open>Remove\<close> for the task \<open>tid\<close>, with the edges \<open>ns\<close> still to follow:
  in-degrees count the edges of the other tasks and the ones not followed yet.
\<close>

definition removing :: "int \<Rightarrow> int list \<Rightarrow> int set \<Rightarrow> JState \<Rightarrow> bool" where
  "removing tid ns R st \<longleftrightarrow>
     (let B = task_list st in
      finite (dom B) \<and> tid \<in> dom B \<and> tid \<notin> set ns \<and> set ns \<subseteq> dom B \<and>
      (\<forall>k t. B k = Some t \<longrightarrow>
         te_id t = k \<and> indeg t = int (in_count (B(tid := None)) k + count_list ns k) \<and>
         (\<forall>n \<in> set (edges t). edge_ok B t n)) \<and>
      distinct (task_queue st) \<and> set (task_queue st) \<inter> R = {} \<and>
      tid \<notin> set (task_queue st) \<and> tid \<notin> R \<and>
      set (task_queue st) \<union> R \<union> {tid} = ready B)"

lemma removing_start:
  assumes "graph_ok (task_list st)" "queue_ok st (insert tid R)" "tid \<notin> R"
    "task_list st tid = Some t"
  shows "removing tid (edges t) R st"
proof -
  let ?B = "task_list st"
  have f: "finite (dom ?B)" using assms(1) by (rule graph_ok_finite)
  have rd: "tid \<in> ready ?B" using assms(2) by (auto simp: queue_ok_def)
  have "tid \<notin> set (edges t)"
    using graph_ok_pred [OF assms(1,4)] rd by blast
  moreover have "set (edges t) \<subseteq> dom ?B"
    using graph_ok_target [OF assms(1,4)] by blast
  moreover have "in_count ?B k = in_count (?B(tid := None)) k + count_list (edges t) k" for k
    using f assms(4) by (rule in_count_split)
  ultimately show ?thesis
    using assms f unfolding removing_def Let_def queue_ok_def graph_ok_def by auto
qed

lemma removingI:
  assumes "finite (dom B)" "tid \<in> dom B" "tid \<notin> set ns" "set ns \<subseteq> dom B"
    and "\<And>k t. B k = Some t \<Longrightarrow>
         te_id t = k \<and> indeg t = int (in_count (B(tid := None)) k + count_list ns k) \<and>
         (\<forall>n \<in> set (edges t). edge_ok B t n)"
    and "distinct q" "set q \<inter> R = {}" "tid \<notin> set q" "tid \<notin> R" "set q \<union> R \<union> {tid} = ready B"
    and "task_list st = B" "task_queue st = q"
  shows "removing tid ns R st"
  unfolding removing_def Let_def assms(11,12) using assms(1-10) by blast

lemma removing_step:
  assumes inv: "removing tid (n # ns) R st" and t: "task_list st n = Some t"
  shows "removing tid ns R
    (let st = st\<lparr>task_list := (task_list st)(n \<mapsto> t\<lparr>indeg := indeg t - 1\<rparr>)\<rparr>
     in if indeg t - 1 = 0 then st\<lparr>task_queue := task_queue st @ [n]\<rparr> else st)"
proof -
  let ?B = "task_list st"
  let ?t = "t\<lparr>indeg := indeg t - 1\<rparr>"
  let ?C = "?B(n \<mapsto> ?t)"
  have ne: "n \<noteq> tid" using inv by (auto simp: removing_def Let_def)
  have entry: "te_id u = k" "indeg u = int (in_count (?B(tid := None)) k + count_list (n # ns) k)"
    "\<And>m. m \<in> set (edges u) \<Longrightarrow> edge_ok ?B u m" if "?B k = Some u" for k u
    using inv that by (auto simp: removing_def Let_def)
  have d: "indeg t \<noteq> 0" using entry(2) [OF t] by simp
  have c: "in_count (?C(tid := None)) k = in_count (?B(tid := None)) k" for k
    by (rule in_count_cong) (use t ne in auto)
  have e: "edge_ok ?C u m" if "edge_ok ?B u m" for u m
    using that by (rule edge_ok_upd) (use t in auto)
  have rd: "ready ?C = (if indeg t - 1 = 0 then insert n (ready ?B) else ready ?B)"
    using t d by (auto simp: ready_def)
  have nq: "n \<notin> ready ?B" using t d by (auto simp: ready_def)
  have ent: "te_id u = k \<and> indeg u = int (in_count (?C(tid := None)) k + count_list ns k) \<and>
      (\<forall>m \<in> set (edges u). edge_ok ?C u m)" if "?C k = Some u" for k u
  proof (cases "k = n")
    case True
    with that have "u = ?t" by simp
    then show ?thesis using entry [OF t] c e True by (auto simp: edge_ok_def)
  next
    case False
    with that have "?B k = Some u" by simp
    from entry [OF this] show ?thesis using c e False by auto
  qed
  have dom: "dom ?C = dom ?B" using t by auto
  from inv have "finite (dom ?B)" "tid \<in> dom ?B" "tid \<notin> set (n # ns)" "set (n # ns) \<subseteq> dom ?B"
    "distinct (task_queue st)" "set (task_queue st) \<inter> R = {}" "tid \<notin> set (task_queue st)" "tid \<notin> R"
    "set (task_queue st) \<union> R \<union> {tid} = ready ?B"
    by (auto simp: removing_def Let_def)
  note i = this
  have nn: "n \<notin> set (task_queue st)" "n \<notin> R" using i(9) nq by auto
  have i': "finite (dom ?C)" "tid \<in> dom ?C" "tid \<notin> set ns" "set ns \<subseteq> dom ?C"
    using i(1-4) unfolding dom by auto
  show ?thesis
  proof (cases "indeg t - 1 = 0")
    case True
    have q: "set (task_queue st @ [n]) \<union> R \<union> {tid} = ready ?C"
      unfolding rd if_P [OF True] i(9) [symmetric] by auto
    have d1: "distinct (task_queue st @ [n])" using i(5) nn(1) by simp
    have d2: "set (task_queue st @ [n]) \<inter> R = {}" using i(6) nn(2) by simp
    have d3: "tid \<notin> set (task_queue st @ [n])" using i(7) ne by simp
    from removingI [OF i' ent d1 d2 d3 i(8) q] show ?thesis
      unfolding Let_def if_P [OF True] by simp
  next
    case False
    have "set (task_queue st) \<union> R \<union> {tid} = ready ?C"
      unfolding rd if_not_P [OF False] by (rule i(9))
    from removingI [OF i' ent i(5-8) this] show ?thesis
      unfolding Let_def if_not_P [OF False] by simp
  qed
qed

text \<open>The loop never reads a missing id, and changes in-degrees and the queue only.\<close>

lemma Remove_edges_ok:
  assumes "removing tid ns R st"
  shows "\<exists>tl q. Remove_edges ns st = Inr (st\<lparr>task_list := tl, task_queue := q\<rparr>) \<and>
    removing tid [] R (st\<lparr>task_list := tl, task_queue := q\<rparr>) \<and>
    (\<forall>k. map_option static (tl k) = map_option static (task_list st k))"
  using assms
proof (induction ns arbitrary: st)
  case Nil
  have "st = st\<lparr>task_list := task_list st, task_queue := task_queue st\<rparr>" by simp
  with Nil show ?case by (intro exI [of _ "task_list st"] exI [of _ "task_queue st"]) simp
next
  case (Cons n ns)
  then obtain t where t: "task_list st n = Some t" by (auto simp: removing_def Let_def)
  define st' where "st' = (let st = st\<lparr>task_list := (task_list st)(n \<mapsto> t\<lparr>indeg := indeg t - 1\<rparr>)\<rparr>
     in if indeg t - 1 = 0 then st\<lparr>task_queue := task_queue st @ [n]\<rparr> else st)"
  have "removing tid ns R st'" unfolding st'_def using Cons.prems t by (rule removing_step)
  from Cons.IH [OF this] obtain tl q where
    r: "Remove_edges ns st' = Inr (st'\<lparr>task_list := tl, task_queue := q\<rparr>)"
    and i: "removing tid [] R (st'\<lparr>task_list := tl, task_queue := q\<rparr>)"
    and s: "\<forall>k. map_option static (tl k) = map_option static (task_list st' k)" by blast
  have eq: "st'\<lparr>task_list := tl, task_queue := q\<rparr> = st\<lparr>task_list := tl, task_queue := q\<rparr>"
    by (simp add: st'_def Let_def)
  have "map_option static (task_list st' k) = map_option static (task_list st k)" for k
    using t by (simp add: st'_def Let_def static_def)
  moreover have "Remove_edges (n # ns) st = Remove_edges ns st'"
    using t by (simp add: st'_def Let_def)
  ultimately show ?case using r i s unfolding eq by auto
qed

lemma Remove_ok:
  assumes "graph_ok (task_list st)" "queue_ok st (insert tid R)" "tid \<notin> R" "task_list st tid = Some t"
  shows "\<exists>tl q. Remove t st = Inr (st\<lparr>task_list := tl, task_queue := q\<rparr>) \<and>
    graph_ok tl \<and> queue_ok (st\<lparr>task_list := tl, task_queue := q\<rparr>) R \<and>
    (\<forall>k. map_option static (tl k) = (if k = tid then None else map_option static (task_list st k)))"
proof -
  have id: "te_id t = tid" using graph_okD(1) [OF assms(1,4)] .
  obtain tl q where
    r: "Remove_edges (edges t) st = Inr (st\<lparr>task_list := tl, task_queue := q\<rparr>)"
    and i: "removing tid [] R (st\<lparr>task_list := tl, task_queue := q\<rparr>)"
    and s: "\<forall>k. map_option static (tl k) = map_option static (task_list st k)"
    using Remove_edges_ok [OF removing_start [OF assms]] by blast
  let ?tl = "tl(tid := None)"
  have f: "finite (dom tl)" and entry: "te_id u = k" "indeg u = int (in_count ?tl k)"
      "m \<in> set (edges u) \<Longrightarrow> edge_ok tl u m" if "tl k = Some u" for k u m
    using i that by (auto simp: removing_def Let_def)
  have f: "finite (dom tl)" using i by (simp add: removing_def Let_def)
  obtain u0 where u0: "tl tid = Some u0" using i by (auto simp: removing_def Let_def)
  have "tid \<in> ready tl" using i by (auto simp: removing_def Let_def)
  then have "in_count ?tl tid = 0" using entry(2) u0 by (auto simp: ready_def)
  then have no: "m \<noteq> tid" if "tl k = Some u" "k \<noteq> tid" "m \<in> set (edges u)" for k u m
    using in_count_pos [of ?tl k u m] that f by auto
  have g: "graph_ok ?tl"
    unfolding graph_ok_def
  proof (rule conjI; (intro allI impI)?)
    show "finite (dom ?tl)" using f by simp
  next
    fix k u
    assume "?tl k = Some u"
    then have k: "tl k = Some u" "k \<noteq> tid" by (auto split: if_splits)
    have "edge_ok ?tl u m" if "m \<in> set (edges u)" for m
      using entry(3) [OF k(1) that] no [OF k that] by (auto simp: edge_ok_def)
    then show "te_id u = k \<and> indeg u = int (in_count ?tl k) \<and> (\<forall>n \<in> set (edges u). edge_ok ?tl u n)"
      using entry(1,2) [OF k(1)] by blast
  qed
  have "ready ?tl = ready tl - {tid}" by (auto simp: ready_def)
  then have "queue_ok (st\<lparr>task_list := ?tl, task_queue := q\<rparr>) R"
    using i by (auto simp: removing_def Let_def queue_ok_def)
  moreover have "Remove t st = Inr (st\<lparr>task_list := ?tl, task_queue := q\<rparr>)"
    using r by (simp add: Remove_def id)
  moreover have "map_option static (?tl k) = (if k = tid then None else map_option static (task_list st k))" for k
    using s by simp
  ultimately show ?thesis using g by blast
qed

end
