(* ===== verification/Layers.thy ===== *)
theory Layers
  imports Data
begin

text \<open>
  The order in which \<open>PushSubmission\<close> (\<open>src/tioj/submission.cpp\<close>) runs the testdata of a submission with
  \<open>skip_group\<close>: the greedy partition into layers, the binary search that finds a layer, and the rank
  of a testdata among all. The binary search is proved to find the layer the comment describes,
  because the layers are nested, and the ranks to be a permutation ordered by layer.
\<close>

section \<open>Binary search\<close>

text \<open>
  \<open>std::lower_bound\<close> with a predicate, over the positions \<open>first .. first + len\<close> of the vector.
\<close>

fun lower_bound :: "('a \<Rightarrow> bool) \<Rightarrow> 'a list \<Rightarrow> nat \<Rightarrow> nat \<Rightarrow> nat" where
  "lower_bound p xs first len =
     (if len = 0 then first
      else let half = len div 2; middle = first + half
           in if p (xs ! middle) then lower_bound p xs (middle + 1) (len - half - 1)
              else lower_bound p xs first half)"

declare lower_bound.simps [simp del]

text \<open>
  The contract of the search: a vector partitioned by the predicate. Then it returns the number of
  elements in the first part.
\<close>

locale partitioned =
  fixes p :: "'a \<Rightarrow> bool" and xs :: "'a list"
  assumes part: "i \<le> j \<Longrightarrow> j < length xs \<Longrightarrow> p (xs ! j) \<Longrightarrow> p (xs ! i)"
begin

lemma lower_bound_part:
  "first + len \<le> length xs \<Longrightarrow> \<forall>i < first. p (xs ! i) \<Longrightarrow>
   \<forall>i. first + len \<le> i \<and> i < length xs \<longrightarrow> \<not> p (xs ! i) \<Longrightarrow>
   lower_bound p xs first len \<le> length xs \<and>
   (\<forall>i < length xs. p (xs ! i) \<longleftrightarrow> i < lower_bound p xs first len)"
proof (induction len arbitrary: first rule: less_induct)
  case (less len)
  show ?case
  proof (cases "len = 0")
    case True
    then have "lower_bound p xs first len = first" by (simp add: lower_bound.simps)
    with True less.prems show ?thesis by (auto simp: not_less)
  next
    case False
    let ?m = "first + len div 2"
    have m: "?m < length xs" "len div 2 < len" "len - len div 2 - 1 < len"
      using False less.prems(1) by auto
    show ?thesis
    proof (cases "p (xs ! ?m)")
      case True
      have "\<forall>i < ?m + 1. p (xs ! i)" using part [OF _ m(1) True] by auto
      with less.IH [OF m(3), of "?m + 1"] less.prems(1,3) m show ?thesis
        using False True by (subst (1 2) lower_bound.simps) (simp add: Let_def)
    next
      case no: False
      have "\<not> p (xs ! i)" if "?m \<le> i" "i < length xs" for i using part [OF that] no by blast
      with less.IH [OF m(2), of first] less.prems(1,2) m show ?thesis
        using False no by (subst (1 2) lower_bound.simps) (simp add: Let_def)
    qed
  qed
qed

lemma lower_bound_split:
  "lower_bound p xs 0 (length xs) \<le> length xs"
  "i < length xs \<Longrightarrow> p (xs ! i) \<longleftrightarrow> i < lower_bound p xs 0 (length xs)"
proof -
  have "\<forall>i. length xs \<le> i \<and> i < length xs \<longrightarrow> \<not> p (xs ! i)" by auto
  note r = lower_bound_part [of 0 "length xs", simplified, OF this]
  from r show "lower_bound p xs 0 (length xs) \<le> length xs" by blast
  from r show "i < length xs \<Longrightarrow> p (xs ! i) \<longleftrightarrow> i < lower_bound p xs 0 (length xs)" by blast
qed

end

section \<open>Layers\<close>

text \<open>
  One round of the loop over \<open>scan_order\<close>: the state is \<open>group_layers\<close> and \<open>td_layer\<close>. The predicate
  is the \<open>all_of\<close> of the comparison.
\<close>

definition all_in :: "int list \<Rightarrow> int set \<Rightarrow> bool" where
  "all_in td_group layer \<longleftrightarrow> (\<forall>g \<in> set td_group. g \<in> layer)"

definition place_td :: "TestdataItem list \<Rightarrow> int set list \<times> nat list \<Rightarrow> nat \<Rightarrow> int set list \<times> nat list" where
  "place_td tds s td =
     (let (group_layers, td_layer) = s;
          td_group = td_groups (tds ! td);
          pos = lower_bound (all_in td_group) group_layers 0 (length group_layers);
          group_layers = (if pos = length group_layers then group_layers @ [{}] else group_layers)
      in (group_layers[pos := group_layers ! pos \<union> set td_group], td_layer[td := pos]))"

text \<open>\<open>std::stable_sort\<close> by decreasing number of groups is \<open>sort_key\<close> on its negation.\<close>

definition scan_order :: "TestdataItem list \<Rightarrow> nat list" where
  "scan_order tds = sort_key (\<lambda>i. - int (length (td_groups (tds ! i)))) [0 ..< length tds]"

definition td_layers :: "TestdataItem list \<Rightarrow> nat list" where
  "td_layers tds = snd (foldl (place_td tds) ([], replicate (length tds) 0) (scan_order tds))"

definition inv_order :: "TestdataItem list \<Rightarrow> nat list" where
  "inv_order tds = (let td_layer = td_layers tds in sort_key (\<lambda>i. td_layer ! i) [0 ..< length tds])"

definition td_order :: "bool \<Rightarrow> TestdataItem list \<Rightarrow> nat list" where
  "td_order skip tds =
     (if skip
      then let iv = inv_order tds
           in foldl (\<lambda>ord i. ord[iv ! i := i]) (replicate (length tds) 0) [0 ..< length tds]
      else [0 ..< length tds])"

section \<open>The layers are nested\<close>

text \<open>
  What the layers promise to the search: an earlier layer contains a later one. So each search splits
  them, whatever the groups sought.
\<close>

locale nested_layers =
  fixes ls :: "int set list"
  assumes nested: "i \<le> j \<Longrightarrow> j < length ls \<Longrightarrow> ls ! j \<subseteq> ls ! i"

sublocale nested_layers \<subseteq> search: partitioned "all_in gs" ls for gs
  by unfold_locales (use nested in \<open>auto simp: all_in_def\<close>)

text \<open>The specification of the search: the first layer that lacks one of the groups.\<close>

definition first_layer :: "int list \<Rightarrow> int set list \<Rightarrow> nat" where
  "first_layer gs ls = length (takeWhile (all_in gs) ls)"

lemma takeWhile_length_eqI:
  "n \<le> length xs \<Longrightarrow> \<forall>i < length xs. P (xs ! i) \<longleftrightarrow> i < n \<Longrightarrow> length (takeWhile P xs) = n"
proof (induction xs arbitrary: n)
  case Nil
  then show ?case by simp
next
  case (Cons x xs)
  show ?case
  proof (cases n)
    case 0
    with Cons.prems(2) have "\<not> P x" by auto
    with 0 show ?thesis by simp
  next
    case (Suc m)
    with Cons.prems(2) have "P x" by fastforce
    have "\<forall>i < length xs. P (xs ! i) \<longleftrightarrow> i < m" using Cons.prems(2) Suc by fastforce
    with Cons.IH [of m] Cons.prems(1) Suc \<open>P x\<close> show ?thesis by simp
  qed
qed

context nested_layers
begin

lemma lower_bound_first: "lower_bound (all_in gs) ls 0 (length ls) = first_layer gs ls"
  unfolding first_layer_def
  by (rule takeWhile_length_eqI [symmetric]) (use search.lower_bound_split [where gs = gs] in auto)

lemma first_layer_le: "first_layer gs ls \<le> length ls"
  by (simp add: first_layer_def length_takeWhile_le)

lemma before_first: "i < first_layer gs ls \<Longrightarrow> set gs \<subseteq> ls ! i"
proof -
  assume i: "i < first_layer gs ls"
  then have "i < length ls" using first_layer_le [of gs] by simp
  from search.lower_bound_split(2) [OF this, of gs] i show "set gs \<subseteq> ls ! i"
    by (auto simp: lower_bound_first all_in_def)
qed

lemma at_first: "first_layer gs ls < length ls \<Longrightarrow> \<not> set gs \<subseteq> ls ! first_layer gs ls"
  using search.lower_bound_split(2) [of "first_layer gs ls", where gs = gs] lower_bound_first [of gs]
  by (auto simp: all_in_def)

text \<open>Adding the groups to that layer keeps the layers nested.\<close>

lemma nested_add:
  assumes "i \<le> j" "j < length (fst (place_td tds (ls, lv) td))"
  shows "fst (place_td tds (ls, lv) td) ! j \<subseteq> fst (place_td tds (ls, lv) td) ! i"
proof -
  let ?gs = "td_groups (tds ! td)"
  let ?p = "first_layer ?gs ls"
  let ?ls = "if ?p = length ls then ls @ [{}] else ls"
  have e: "fst (place_td tds (ls, lv) td) = ?ls[?p := ?ls ! ?p \<union> set ?gs]"
    by (simp add: place_td_def Let_def lower_bound_first)
  have n: "?ls ! k \<subseteq> ?ls ! i" if "i \<le> k" "k < length ?ls" for i k
    using nested [of i k] that by (auto simp: nth_append)
  have g: "set ?gs \<subseteq> ?ls ! i" if "i < ?p" for i
    using before_first [OF that] that first_layer_le [of ?gs] by (simp add: nth_append)
  have j: "j < length ?ls" using assms(2) by (simp add: e)
  have p: "?p < length ?ls" using first_layer_le [of ?gs] by simp
  have u: "?ls[?p := x] ! k = (if k = ?p then x else ?ls ! k)" for x k
    using p by (simp add: nth_list_update)
  show ?thesis
    unfolding e u using n [OF assms(1) j] g [of i] assms(1) by (cases "j = ?p"; cases "i = ?p") auto
qed

end

definition layers_of :: "TestdataItem list \<Rightarrow> nat list \<Rightarrow> int set list" where
  "layers_of tds order = fst (foldl (place_td tds) ([], replicate (length tds) 0) order)"

interpretation lay: nested_layers "layers_of tds order" for tds order
proof (induction order rule: rev_induct)
  case Nil
  show ?case by unfold_locales (simp add: layers_of_def)
next
  case (snoc td order)
  obtain ls lv where s: "foldl (place_td tds) ([], replicate (length tds) 0) order = (ls, lv)"
    by fastforce
  with snoc have "nested_layers ls" by (simp add: layers_of_def)
  from nested_layers.nested_add [OF this] show ?case
    by unfold_locales (simp add: layers_of_def s)
qed

section \<open>The ranks\<close>

text \<open>The order by layer, then by index.\<close>

definition by_layer :: "nat list \<Rightarrow> nat \<Rightarrow> nat \<Rightarrow> bool" where
  "by_layer lv a b \<longleftrightarrow> lv ! a < lv ! b \<or> (lv ! a = lv ! b \<and> a < b)"

lemma sorted_wrt_by_layer:
  fixes f :: "nat \<Rightarrow> nat"
  assumes "sorted (map f ys)" "\<And>c. sorted_wrt (<) (filter (\<lambda>y. f y = c) ys)"
  shows "sorted_wrt (\<lambda>a b. f a < f b \<or> (f a = f b \<and> a < b)) ys"
  using assms
proof (induction ys)
  case Nil
  then show ?case by simp
next
  case (Cons y ys)
  have "sorted_wrt (<) (filter (\<lambda>z. f z = c) ys)" for c
    using Cons.prems(2) [of c] by (auto split: if_splits)
  then have "sorted_wrt (\<lambda>a b. f a < f b \<or> (f a = f b \<and> a < b)) ys"
    using Cons.IH Cons.prems(1) by simp
  moreover have "f y < f z \<or> (f y = f z \<and> y < z)" if "z \<in> set ys" for z
    using Cons.prems(1) Cons.prems(2) [of "f y"] that by (auto simp: order_le_less)
  ultimately show ?case by simp
qed

lemma inv_order_sorted: "sorted_wrt (by_layer (td_layers tds)) (inv_order tds)"
  unfolding inv_order_def Let_def by_layer_def
  by (rule sorted_wrt_by_layer) (simp_all add: sort_key_stable sorted_wrt_filter)

lemma inv_order_perm [simp]:
  "distinct (inv_order tds)" "set (inv_order tds) = {0 ..< length tds}"
  "length (inv_order tds) = length tds"
  by (simp_all add: inv_order_def Let_def)

lemma invert_fold:
  assumes "distinct iv" "set iv = {0 ..< length iv}" "m \<le> length iv"
  shows "length (foldl (\<lambda>ord i. ord[iv ! i := i]) (replicate (length iv) 0) [0 ..< m]) = length iv \<and>
    (\<forall>k < m. foldl (\<lambda>ord i. ord[iv ! i := i]) (replicate (length iv) 0) [0 ..< m] ! (iv ! k) = k)"
  using assms(3)
proof (induction m)
  case 0
  then show ?case by simp
next
  case (Suc m)
  have "iv ! k < length iv" if "k < length iv" for k
    using assms(2) nth_mem [OF that] by auto
  moreover have "iv ! m \<noteq> iv ! k" if "k < m" for k
    using assms(1) Suc.prems that by (simp add: nth_eq_iff_index_eq)
  ultimately show ?case using Suc by (auto simp: less_Suc_eq nth_list_update)
qed

lemma length_td_order [simp]: "length (td_order skip tds) = length tds"
  using invert_fold [of "inv_order tds" "length tds"] by (simp add: td_order_def Let_def)

lemma td_order_inv:
  "k < length tds \<Longrightarrow> td_order True tds ! (inv_order tds ! k) = k"
  using invert_fold [of "inv_order tds" "length tds"] by (simp add: td_order_def Let_def)

lemma inv_order_at: "i < length tds \<Longrightarrow> \<exists>k < length tds. inv_order tds ! k = i"
proof -
  assume "i < length tds"
  then have "i \<in> set (inv_order tds)" by simp
  then show ?thesis unfolding in_set_conv_nth inv_order_perm(3) .
qed

lemma td_order_less:
  assumes "i < length tds" "j < length tds"
  shows "td_order True tds ! i < td_order True tds ! j \<longleftrightarrow> by_layer (td_layers tds) i j"
proof -
  obtain k l where k: "k < length tds" "inv_order tds ! k = i" and l: "l < length tds" "inv_order tds ! l = j"
    using inv_order_at assms by meson
  have s: "by_layer (td_layers tds) (inv_order tds ! a) (inv_order tds ! b)" if "a < b" "b < length tds" for a b
    using inv_order_sorted [of tds] that by (simp add: sorted_wrt_iff_nth_less)
  have "td_order True tds ! i = k" "td_order True tds ! j = l" using td_order_inv k l by auto
  moreover have "k < l \<longleftrightarrow> by_layer (td_layers tds) i j"
    using s [of k l] s [of l k] k l by (cases k l rule: linorder_cases) (auto simp: by_layer_def)
  ultimately show ?thesis by simp
qed

lemma td_order_perm: "distinct (td_order skip tds)" "set (td_order skip tds) = {0 ..< length tds}"
proof -
  have "inj_on (\<lambda>i. td_order True tds ! i) {0 ..< length tds}"
  proof (rule inj_onI)
    fix i j
    assume "i \<in> {0 ..< length tds}" "j \<in> {0 ..< length tds}" "td_order True tds ! i = td_order True tds ! j"
    then show "i = j" using td_order_less [of i tds j] td_order_less [of j tds i]
      by (auto simp: by_layer_def)
  qed
  then have "distinct (td_order True tds)" by (auto simp: distinct_conv_nth inj_on_def)
  moreover have "set (td_order True tds) = {0 ..< length tds}"
  proof -
    have "td_order True tds ! i < length tds" if "i < length tds" for i
      using inv_order_at [OF that] td_order_inv by auto
    then have "set (td_order True tds) \<subseteq> {0 ..< length tds}" by (auto simp: in_set_conv_nth)
    moreover have "card (set (td_order True tds)) = length tds"
      using \<open>distinct (td_order True tds)\<close> by (simp add: distinct_card)
    ultimately show ?thesis by (simp add: card_subset_eq)
  qed
  ultimately show "distinct (td_order skip tds)" "set (td_order skip tds) = {0 ..< length tds}"
    by (cases skip; simp add: td_order_def)+
qed

section \<open>What the layers cover\<close>

text \<open>
  What the greedy loop keeps: a layer is the union of the groups placed there, and a testdata finds all
  its groups in every layer before its own.
\<close>

definition placed :: "TestdataItem list \<Rightarrow> nat set \<Rightarrow> int set list \<times> nat list \<Rightarrow> bool" where
  "placed tds seen s \<longleftrightarrow>
     length (snd s) = length tds \<and> seen \<subseteq> {0 ..< length tds} \<and>
     (\<forall>k < length (fst s). fst s ! k = (\<Union>td \<in> {td \<in> seen. snd s ! td = k}. set (td_groups (tds ! td)))) \<and>
     (\<forall>td \<in> seen. snd s ! td < length (fst s) \<and> (\<forall>k < snd s ! td. set (td_groups (tds ! td)) \<subseteq> fst s ! k))"

context nested_layers
begin

lemma placed_step:
  assumes "placed tds seen (ls, lv)" "td \<notin> seen" "td < length tds"
  shows "placed tds (insert td seen) (place_td tds (ls, lv) td)"
proof -
  let ?gs = "td_groups (tds ! td)"
  let ?p = "first_layer ?gs ls"
  let ?ls = "if ?p = length ls then ls @ [{}] else ls"
  have e: "place_td tds (ls, lv) td = (?ls[?p := ?ls ! ?p \<union> set ?gs], lv[td := ?p])"
    by (simp add: place_td_def Let_def lower_bound_first)
  have lv: "length lv = length tds" and seen: "seen \<subseteq> {0 ..< length tds}"
    and lay: "\<forall>k < length ls. ls ! k = (\<Union>t \<in> {t \<in> seen. lv ! t = k}. set (td_groups (tds ! t)))"
    and own: "\<forall>t \<in> seen. lv ! t < length ls \<and> (\<forall>k < lv ! t. set (td_groups (tds ! t)) \<subseteq> ls ! k)"
    using assms(1) by (auto simp: placed_def)
  have p: "?p < length ?ls" using first_layer_le [of ?gs] by simp
  have lv': "lv[td := ?p] ! t = (if t = td then ?p else lv ! t)" for t
    using assms(3) lv by (cases "t = td") simp_all
  have split: "{t \<in> insert td seen. lv[td := ?p] ! t = k} =
      {t \<in> seen. lv ! t = k} \<union> (if k = ?p then {td} else {})" for k
    using assms(2) by (auto simp: lv')
  have old: "?ls ! k = (\<Union>t \<in> {t \<in> seen. lv ! t = k}. set (td_groups (tds ! t)))" if "k < length ?ls" for k
  proof (cases "k < length ls")
    case True
    then show ?thesis using lay by (simp add: nth_append)
  next
    case False
    then have "k = length ls" using that by (simp split: if_splits)
    moreover from this have "?ls ! k = {}" using that by (auto split: if_splits)
    ultimately have "k = length ls" "?ls ! k = {}" by simp_all
    then show ?thesis using own by auto
  qed
  have g: "set ?gs \<subseteq> ?ls ! k" if "k < ?p" for k
    using before_first [OF that] that first_layer_le [of ?gs] by (simp add: nth_append)
  have grow: "ls ! k \<subseteq> ?ls[?p := ?ls ! ?p \<union> set ?gs] ! k" if "k < length ls" for k
    using that p by (cases "k = ?p") (auto simp: nth_append split: if_splits)
  show ?thesis
    unfolding placed_def e fst_conv snd_conv
  proof (intro conjI)
    show "length (lv[td := ?p]) = length tds" using lv by simp
    show "insert td seen \<subseteq> {0 ..< length tds}" using seen assms(3) by simp
    show "\<forall>k < length (?ls[?p := ?ls ! ?p \<union> set ?gs]). ?ls[?p := ?ls ! ?p \<union> set ?gs] ! k =
        (\<Union>t \<in> {t \<in> insert td seen. lv[td := ?p] ! t = k}. set (td_groups (tds ! t)))"
      unfolding split using old p by (auto simp: nth_list_update)
    show "\<forall>t \<in> insert td seen. lv[td := ?p] ! t < length (?ls[?p := ?ls ! ?p \<union> set ?gs]) \<and>
        (\<forall>k < lv[td := ?p] ! t. set (td_groups (tds ! t)) \<subseteq> ?ls[?p := ?ls ! ?p \<union> set ?gs] ! k)"
    proof
      fix t assume t: "t \<in> insert td seen"
      show "lv[td := ?p] ! t < length (?ls[?p := ?ls ! ?p \<union> set ?gs]) \<and>
        (\<forall>k < lv[td := ?p] ! t. set (td_groups (tds ! t)) \<subseteq> ?ls[?p := ?ls ! ?p \<union> set ?gs] ! k)"
      proof (cases "t = td")
        case True
        then show ?thesis using p g by (simp add: lv')
      next
        case False
        then have t: "t \<in> seen" using t by simp
        have "lv ! t < length ls" using own t by blast
        moreover have "set (td_groups (tds ! t)) \<subseteq> ?ls[?p := ?ls ! ?p \<union> set ?gs] ! k" if "k < lv ! t" for k
          using grow [of k] own t that \<open>lv ! t < length ls\<close> by fastforce
        ultimately show ?thesis using False by (simp add: lv')
      qed
    qed
  qed
qed

end

lemma placed_all:
  "distinct order \<Longrightarrow> set order \<subseteq> {0 ..< length tds} \<Longrightarrow>
   placed tds (set order) (foldl (place_td tds) ([], replicate (length tds) 0) order)"
proof (induction order rule: rev_induct)
  case Nil
  then show ?case by (simp add: placed_def)
next
  case (snoc td order)
  obtain ls lv where s: "foldl (place_td tds) ([], replicate (length tds) 0) order = (ls, lv)"
    by fastforce
  have "ls = layers_of tds order" by (simp add: layers_of_def s)
  then have n: "nested_layers ls" using lay.nested_layers_axioms by simp
  have "placed tds (set order) (ls, lv)" using snoc s by simp
  from nested_layers.placed_step [OF n this, of td] snoc.prems show ?case by (simp add: s)
qed

lemma layer_covers:
  assumes "j < length tds" "k < td_layers tds ! j" "g \<in> set (td_groups (tds ! j))"
  shows "\<exists>i < length tds. td_layers tds ! i = k \<and> g \<in> set (td_groups (tds ! i))"
proof -
  let ?s = "foldl (place_td tds) ([], replicate (length tds) 0) (scan_order tds)"
  have o: "distinct (scan_order tds)" "set (scan_order tds) = {0 ..< length tds}" by (simp_all add: scan_order_def)
  have p: "placed tds {0 ..< length tds} ?s" using placed_all [OF o(1)] o(2) by simp
  then have "td_layers tds ! j < length (fst ?s)" "set (td_groups (tds ! j)) \<subseteq> fst ?s ! k"
    using assms by (auto simp: placed_def td_layers_def)
  then have "g \<in> fst ?s ! k" "k < length (fst ?s)" using assms by auto
  then show ?thesis using p by (auto simp: placed_def td_layers_def)
qed

section \<open>Properties\<close>


definition sample_groups :: "int list \<Rightarrow> TestdataItem" where
  "sample_groups gs = \<lparr>input_file = [], answer_file = [], lim_vss = 0, lim_rss = 0, lim_output = 0, lim_time = 1,
     ignore_verdict = False, td_groups = gs\<rparr>"


end
