(* ===== verification/Push.thy ===== *)
theory Push
  imports GraphInv Layers
begin

text \<open>
  \<open>PushSubmission\<close>, \<open>CurrentSubmissionQueueSize\<close> and \<open>GetQueuedSubmissionID\<close> of
  \<open>src/tioj/submission.cpp\<close>: the dependency graph of a submission, built task by task in the order of
  the code, and its insertion into the scheduler. The chain of a testdata has consecutive task ids,
  so the facts on the graph (\<open>PushInv\<close>) are stated by id.
\<close>

section \<open>Building the graph\<close>

text \<open>The entries under construction, and \<open>task_count\<close>.\<close>

type_synonym build = "store \<times> int"

definition new_entry :: "int \<Rightarrow> Task \<Rightarrow> int \<Rightarrow> int \<Rightarrow> build \<Rightarrow> int \<times> build" where
  "new_entry sid task prio ord b =
     (let (B, c) = b in (c, B(c \<mapsto> TaskEntry_new c sid task prio ord), c + 1))"

abbreviation mk_task :: "TaskType \<Rightarrow> int \<Rightarrow> int \<Rightarrow> Task" where
  "mk_task ty i j \<equiv> \<lparr>task_type = ty, subtask = i, stage = j\<rparr>"

text \<open>One round of the inner loop with \<open>judge_between_stages\<close>, and one without.\<close>

definition stage_between ::
    "int \<Rightarrow> int \<Rightarrow> int \<Rightarrow> int \<Rightarrow> int list \<times> int list \<times> build \<Rightarrow> nat \<Rightarrow> int list \<times> int list \<times> build" where
  "stage_between sid prio i ord s j =
     (let (executes, scorings, b) = s;
          (e, b) = new_entry sid (mk_task EXECUTE i (int j)) prio ord b;
          (c, B, n) = new_entry sid (mk_task SCORING i (int j)) prio ord b;
          B = Link e c B;
          B = (if j > 0 then Link (scorings ! (j - 1)) e B else B)
      in (executes @ [e], scorings @ [c], B, n))"

definition stage_plain ::
    "int \<Rightarrow> int \<Rightarrow> int \<Rightarrow> int \<Rightarrow> int list \<times> build \<Rightarrow> nat \<Rightarrow> int list \<times> build" where
  "stage_plain sid prio i ord s j =
     (let (executes, b) = s;
          (e, B, n) = new_entry sid (mk_task EXECUTE i (int j)) prio ord b;
          B = (if j > 0 then Link (executes ! (j - 1)) e B else B)
      in (executes @ [e], B, n))"

definition td_tasks ::
    "bool \<Rightarrow> nat \<Rightarrow> int \<Rightarrow> int \<Rightarrow> int \<Rightarrow> int \<Rightarrow> build \<Rightarrow> int list \<times> int list \<times> build" where
  "td_tasks between nstages sid prio i ord b =
     (if between then foldl (stage_between sid prio i ord) ([], [], b) [0 ..< nstages]
      else let (executes, b) = foldl (stage_plain sid prio i ord) ([], b) [0 ..< nstages];
               (c, B, n) = new_entry sid (mk_task SCORING i (int nstages - 1)) prio ord b
           in (executes, [c], Link (last executes) c B, n))"

definition add_td ::
    "Submission \<Rightarrow> int \<Rightarrow> int \<Rightarrow> nat list \<Rightarrow> int list list \<times> int list list \<times> build \<Rightarrow> nat \<Rightarrow>
     int list list \<times> int list list \<times> build" where
  "add_td sb sid summary ord s i =
     (let (executes, scorings, b) = s;
          (ex, sc, B, n) = td_tasks (judge_between_stages sb) (nat (stages sb)) sid (priority sb)
            (int i) (int (ord ! i)) b
      in (executes @ [ex], scorings @ [sc], Link (last sc) summary B, n))"

text \<open>
  A compile task with its links. \<open>targets\<close> are the tasks \<open>i[stage]\<close> over all testdata, or the error
  where one of these reads is out of range.
\<close>

definition Link_all :: "int \<Rightarrow> int list \<Rightarrow> store \<Rightarrow> store" where
  "Link_all a bs B = foldl (\<lambda>B b. Link a b B) B bs"

definition add_compile :: "int \<Rightarrow> int \<Rightarrow> CompileSubtask \<Rightarrow> int list \<Rightarrow> int list \<times> build \<Rightarrow> int list \<times> build" where
  "add_compile sid prio s targets x =
     (let (inserted, b) = x;
          (c, B, n) = new_entry sid (mk_task COMPILE (int (subtask_int s)) 0) prio 0 b
      in (inserted @ [c], Link_all c targets B, n))"

fun at_stage :: "int list list \<Rightarrow> int \<Rightarrow> error + int list" where
  "at_stage [] j = Inr []"
| "at_stage (i # is) j =
     (if 0 \<le> j \<and> nat j < length i
      then (case at_stage is j of Inl e \<Rightarrow> Inl e | Inr ts \<Rightarrow> Inr (i ! nat j # ts)) else Inl OutOfRange)"

definition first_non_prob_stage :: "Submission \<Rightarrow> int" where
  "first_non_prob_stage sb =
     (case find (\<lambda>i. int i \<notin> set (problem_prog_stages sb)) [0 ..< nat (stages sb)] of
        Some i \<Rightarrow> int i | None \<Rightarrow> -1)"

definition first_prob_stage :: "Submission \<Rightarrow> int" where
  "first_prob_stage sb = (if problem_prog_stages sb = [] then -1 else hd (problem_prog_stages sb))"

text \<open>The links of one of the compilations that feed testdata tasks; \<open>stg\<close> is the stage, -1 for none.\<close>

definition compile_for ::
    "int \<Rightarrow> int \<Rightarrow> int \<Rightarrow> CompileSubtask \<Rightarrow> int list list \<Rightarrow> int \<Rightarrow> int list \<times> build \<Rightarrow> error + int list \<times> build" where
  "compile_for sid prio summary s tds stg x =
     (if stg = -1 then Inr x
      else (case at_stage tds stg of
              Inl e \<Rightarrow> Inl e
            | Inr ts \<Rightarrow> Inr (add_compile sid prio s (if tds = [] then [summary] else ts) x)))"

text \<open>
  The whole graph: the entries, the ids in the order of the \<open>InsertTaskList\<close> calls, and the new
  \<open>task_count\<close>. A compilation is inserted before the later ones are built; as it is not changed after
  that, all insertions can follow the construction.
\<close>

definition build_graph :: "Submission \<Rightarrow> int \<Rightarrow> int \<Rightarrow> error + int list \<times> build" where
  "build_graph sb sid c0 =
     (let prio = priority sb;
          ord = td_order (skip_group sb) (testdata sb);
          (summary, b) = new_entry sid (mk_task SUMMARY 0 0) prio 0 (Map.empty, c0);
          (executes, scorings, b) =
            foldl (add_td sb sid summary ord) ([], [], b) [0 ..< length (testdata sb)]
      in case compile_for sid prio summary CS_USERPROG executes (first_non_prob_stage sb) ([], b) of
           Inl e \<Rightarrow> Inl e
         | Inr x \<Rightarrow>
        (case compile_for sid prio summary CS_PROBPROG executes (first_prob_stage sb) x of
           Inl e \<Rightarrow> Inl e
         | Inr x \<Rightarrow>
        (case compile_for sid prio summary CS_SPECJUDGE scorings
                (if specjudge_type sb \<noteq> NORMAL then 0 else -1) x of
           Inl e \<Rightarrow> Inl e
         | Inr x \<Rightarrow>
           let (ins, b) = (if summary_type sb = Summary_CUSTOM
                           then add_compile sid prio CS_SUMMARY [summary] x else x)
           in Inr (ins @ concat executes @ concat scorings @ [summary], b))))"

section \<open>\<open>PushSubmission\<close>\<close>

definition clamp_stages :: "Submission \<Rightarrow> Submission" where
  "clamp_stages sb = sb\<lparr>stages := min (max 1 (stages sb)) 32\<rparr>"

text \<open>
  The result is the returned flag and the new state. \<open>max_queue = 0\<close> means no bound; \<open>insert\<close> keeps a
  value that is already there.
\<close>

definition CurrentSubmissionQueueSize :: "JState \<Rightarrow> nat" where
  "CurrentSubmissionQueueSize st = card (dom (submission_list st))"

definition enqueue :: "Submission \<Rightarrow> int \<Rightarrow> JState \<Rightarrow> JState" where
  "enqueue sb iid st =
     (let st = (if submission_list st iid = None
                then st\<lparr>submission_list := (submission_list st)
                       (iid \<mapsto> \<lparr>sub = sb, result = SubmissionResult_init\<rparr>)\<rparr> else st)
      in case submission_id_map st (submission_id sb) of
           None \<Rightarrow> st\<lparr>submission_id_map := (submission_id_map st)(submission_id sb \<mapsto> iid)\<rparr>
         | Some old \<Rightarrow> st\<lparr>cancelled_list := insert old (cancelled_list st),
                          submission_id_map := (submission_id_map st)(submission_id sb \<mapsto> iid)\<rparr>)"

definition PushSubmission :: "Submission \<Rightarrow> nat \<Rightarrow> JState \<Rightarrow> error + bool \<times> JState" where
  "PushSubmission sub0 max_queue st =
     (if max_queue > 0 \<and> CurrentSubmissionQueueSize st \<ge> max_queue then Inr (False, st)
      else let sb = clamp_stages sub0; iid = narrow_int (submission_internal_id sb)
           in case build_graph sb iid (task_count st) of
                Inl e \<Rightarrow> Inl e
              | Inr (ks, B, c) \<Rightarrow>
                  Inr (True, enqueue sb iid (insert_batch B ks (st\<lparr>task_count := c\<rparr>))))"

text \<open>The ids of the submissions not cancelled; the hash map lists them in no particular order.\<close>

definition GetQueuedSubmissionID :: "JState \<Rightarrow> int multiset" where
  "GetQueuedSubmissionID st =
     image_mset (\<lambda>k. submission_id (sub (the (submission_list st k))))
       (mset_set (dom (submission_list st) - cancelled_list st))"

end
