(* ===== verification/PushInv.thy ===== *)
theory PushInv
  imports Push
begin

text \<open>
  What \<open>PushSubmission\<close> builds: an acyclic graph over consecutive ids in which a path leads from every
  task to each task that must come after it (\<open>must_precede\<close>), and its insertion keeps the scheduler's
  invariants.
\<close>

section \<open>Graphs under construction\<close>

definition edge_rel :: "store \<Rightarrow> (int \<times> int) set" where
  "edge_rel B = {(a, b). \<exists>t. B a = Some t \<and> b \<in> set (edges t)}"

definition entry_at :: "store \<Rightarrow> int \<Rightarrow> Task \<Rightarrow> int \<Rightarrow> bool" where
  "entry_at B k task ord \<longleftrightarrow> (\<exists>t. B k = Some t \<and> te_task t = task \<and> task_order t = ord)"

definition built :: "int \<Rightarrow> int \<Rightarrow> int \<Rightarrow> store \<Rightarrow> int \<Rightarrow> bool" where
  "built sid prio c0 B c \<longleftrightarrow>
     graph_ok B \<and> c0 \<le> c \<and> dom B = {c0 ..< c} \<and>
     (\<forall>k t. B k = Some t \<longrightarrow> te_submission t = sid \<and> te_priority t = prio)"

text \<open>Later stages of the construction keep the entries and add edges.\<close>

definition ext :: "store \<Rightarrow> store \<Rightarrow> bool" where
  "ext B C \<longleftrightarrow> (\<forall>k task ord. entry_at B k task ord \<longrightarrow> entry_at C k task ord) \<and> edge_rel B \<subseteq> edge_rel C"

lemma ext_refl [simp]: "ext B B"
  by (simp add: ext_def)

lemma ext_trans [trans]: "ext B C \<Longrightarrow> ext C D \<Longrightarrow> ext B D"
  by (auto simp: ext_def)

lemma ext_entry: "ext B C \<Longrightarrow> entry_at B k task ord \<Longrightarrow> entry_at C k task ord"
  by (auto simp: ext_def)

lemma ext_edge: "ext B C \<Longrightarrow> e \<in> edge_rel B \<Longrightarrow> e \<in> edge_rel C"
  by (auto simp: ext_def)

lemma built_empty: "built sid prio c Map.empty c"
  by (auto simp: built_def)

lemma new_entry_ok:
  assumes "built sid prio c0 B c"
  obtains C where "new_entry sid task prio ord (B, c) = (c, C, c + 1)" "built sid prio c0 C (c + 1)"
    "ext B C" "entry_at C c task ord"
proof
  let ?t = "TaskEntry_new c sid task prio ord"
  let ?C = "B(c \<mapsto> ?t)"
  have c: "c \<notin> dom B" using assms by (auto simp: built_def)
  show "new_entry sid task prio ord (B, c) = (c, ?C, c + 1)" by (simp add: new_entry_def)
  have "graph_ok ?C"
    by (rule graph_ok_new) (use assms c in \<open>auto simp: built_def TaskEntry_new_def\<close>)
  moreover have "dom ?C = {c0 ..< c + 1}" using assms by (auto simp: built_def)
  ultimately show "built sid prio c0 ?C (c + 1)"
    using assms by (auto simp: built_def TaskEntry_new_def)
  show "ext B ?C" using c by (auto simp: ext_def entry_at_def edge_rel_def)
  show "entry_at ?C c task ord" by (simp add: entry_at_def TaskEntry_new_def)
qed

lemma Link_ok:
  assumes b: "built sid prio c0 B c" and a: "entry_at B a ta oa" and e: "entry_at B b tb ob"
    and r: "rank ta < rank tb"
  shows "built sid prio c0 (Link a b B) c" "ext B (Link a b B)" "(a, b) \<in> edge_rel (Link a b B)"
proof -
  obtain u v where u: "B a = Some u" "te_task u = ta" and v: "B b = Some v" "te_task v = tb"
    using a e by (auto simp: entry_at_def)
  have g: "graph_ok B" and s: "te_submission u = te_submission v"
    using b u v by (auto simp: built_def)
  have vid: "te_id v = b" using graph_okD(1) [OF g v(1)] .
  have "graph_ok (Link a b B)" by (rule graph_ok_Link [OF g u(1) v(1) s]) (simp add: u v r)
  then show "built sid prio c0 (Link a b B) c"
    using b by (auto simp: built_def dest!: Link_entry)
  have "a \<noteq> b" using u v r by auto
  note L = Link_simp [OF u(1) v(1) this vid]
  show "ext B (Link a b B)" unfolding L using u v by (auto simp: ext_def entry_at_def edge_rel_def)
  show "(a, b) \<in> edge_rel (Link a b B)"
    using Link_adds_edge [OF u(1) v(1) vid] by (auto simp: edge_rel_def)
qed

section \<open>The chain of a testdata\<close>

lemma rank_simps [simp]:
  "rank (mk_task COMPILE i j) = 0" "rank (mk_task EXECUTE i j) = 2 * j + 1"
  "rank (mk_task SCORING i j) = 2 * j + 2" "rank (mk_task SUMMARY i j) = 100"
  by (simp_all add: rank_def)

lemma stage_between_fold:
  assumes "built sid prio c0 B c"
  shows "\<exists>C. foldl (stage_between sid prio i ord) ([], [], B, c) [0 ..< m] =
        (map (\<lambda>j. c + 2 * int j) [0 ..< m], map (\<lambda>j. c + 2 * int j + 1) [0 ..< m], C, c + 2 * int m) \<and>
      built sid prio c0 C (c + 2 * int m) \<and> ext B C \<and>
      (\<forall>j < m. entry_at C (c + 2 * int j) (mk_task EXECUTE i (int j)) ord \<and>
        entry_at C (c + 2 * int j + 1) (mk_task SCORING i (int j)) ord \<and>
        (c + 2 * int j, c + 2 * int j + 1) \<in> edge_rel C \<and>
        (0 < j \<longrightarrow> (c + 2 * int j - 1, c + 2 * int j) \<in> edge_rel C))"
proof (induction m)
  case 0
  then show ?case using assms by simp
next
  case (Suc m)
  let ?e = "c + 2 * int m"
  obtain C where f: "foldl (stage_between sid prio i ord) ([], [], B, c) [0 ..< m] =
        (map (\<lambda>j. c + 2 * int j) [0 ..< m], map (\<lambda>j. c + 2 * int j + 1) [0 ..< m], C, ?e)"
    and C: "built sid prio c0 C ?e" "ext B C"
    and E: "\<forall>j < m. entry_at C (c + 2 * int j) (mk_task EXECUTE i (int j)) ord \<and>
        entry_at C (c + 2 * int j + 1) (mk_task SCORING i (int j)) ord \<and>
        (c + 2 * int j, c + 2 * int j + 1) \<in> edge_rel C \<and>
        (0 < j \<longrightarrow> (c + 2 * int j - 1, c + 2 * int j) \<in> edge_rel C)"
    using Suc by blast
  obtain D where D: "new_entry sid (mk_task EXECUTE i (int m)) prio ord (C, ?e) = (?e, D, ?e + 1)"
      "built sid prio c0 D (?e + 1)" "ext C D" "entry_at D ?e (mk_task EXECUTE i (int m)) ord"
    using new_entry_ok [OF C(1)] .
  obtain F where F: "new_entry sid (mk_task SCORING i (int m)) prio ord (D, ?e + 1) = (?e + 1, F, ?e + 1 + 1)"
      "built sid prio c0 F (?e + 1 + 1)" "ext D F" "entry_at F (?e + 1) (mk_task SCORING i (int m)) ord"
    using new_entry_ok [OF D(2)] .
  let ?G = "Link ?e (?e + 1) F"
  have G: "built sid prio c0 ?G (?e + 1 + 1)" "ext F ?G" "(?e, ?e + 1) \<in> edge_rel ?G"
    by (rule Link_ok [OF F(2) ext_entry [OF F(3) D(4)] F(4)]; simp)+
  have DG: "ext D ?G" using F(3) G(2) by (rule ext_trans)
  have CG: "ext C ?G" using D(3) DG by (rule ext_trans)
  let ?H = "if m > 0 then Link (?e - 1) ?e ?G else ?G"
  have H: "built sid prio c0 ?H (?e + 1 + 1) \<and> ext ?G ?H \<and> (0 < m \<longrightarrow> (?e - 1, ?e) \<in> edge_rel ?H)"
  proof (cases "0 < m")
    case True
    have "entry_at C (c + 2 * int (m - 1) + 1) (mk_task SCORING i (int (m - 1))) ord"
      using E True diff_less [OF zero_less_one True] by blast
    moreover have "c + 2 * int (m - 1) + 1 = ?e - 1" using True by (simp add: of_nat_diff)
    ultimately have s: "entry_at ?G (?e - 1) (mk_task SCORING i (int (m - 1))) ord"
      using ext_entry [OF CG] by simp
    have x: "entry_at ?G ?e (mk_task EXECUTE i (int m)) ord" using DG D(4) by (rule ext_entry)
    have "rank (mk_task SCORING i (int (m - 1))) < rank (mk_task EXECUTE i (int m))"
      using True by (simp add: of_nat_diff)
    from Link_ok [OF G(1) s x this] True show ?thesis by simp
  next
    case False
    with G show ?thesis by simp
  qed
  have BH: "ext B ?H" "ext C ?H" "ext D ?H" "ext F ?H" "ext ?G ?H"
    using H ext_trans [OF ext_trans [OF C(2) CG]] ext_trans [OF CG] ext_trans [OF DG] ext_trans [OF G(2)]
    by blast+
  have sc: "0 < m \<Longrightarrow> map (\<lambda>j. c + 2 * int j + 1) [0 ..< m] ! (m - 1) = ?e - 1"
    by (simp add: of_nat_diff)
  have "foldl (stage_between sid prio i ord) ([], [], B, c) [0 ..< Suc m] =
      stage_between sid prio i ord
        (map (\<lambda>j. c + 2 * int j) [0 ..< m], map (\<lambda>j. c + 2 * int j + 1) [0 ..< m], C, ?e) m"
    using f by simp
  also have "\<dots> = (map (\<lambda>j. c + 2 * int j) [0 ..< m] @ [?e],
      map (\<lambda>j. c + 2 * int j + 1) [0 ..< m] @ [?e + 1], ?H, ?e + 1 + 1)"
    unfolding stage_between_def using sc by (simp add: D(1) F(1) Let_def)
  also have "\<dots> = (map (\<lambda>j. c + 2 * int j) [0 ..< Suc m],
      map (\<lambda>j. c + 2 * int j + 1) [0 ..< Suc m], ?H, c + 2 * int (Suc m))" by simp
  finally have 1: "foldl (stage_between sid prio i ord) ([], [], B, c) [0 ..< Suc m] =
     (map (\<lambda>j. c + 2 * int j) [0 ..< Suc m],
      map (\<lambda>j. c + 2 * int j + 1) [0 ..< Suc m], ?H, c + 2 * int (Suc m))" .
  have 2: "built sid prio c0 ?H (c + 2 * int (Suc m))" using H by (simp add: algebra_simps)
  have 3: "entry_at ?H (c + 2 * int j) (mk_task EXECUTE i (int j)) ord \<and>
        entry_at ?H (c + 2 * int j + 1) (mk_task SCORING i (int j)) ord \<and>
        (c + 2 * int j, c + 2 * int j + 1) \<in> edge_rel ?H \<and>
        (0 < j \<longrightarrow> (c + 2 * int j - 1, c + 2 * int j) \<in> edge_rel ?H)" if "j < Suc m" for j
  proof (cases "j = m")
    case True
    then show ?thesis
      using ext_entry [OF BH(3) D(4)] ext_entry [OF BH(4) F(4)] ext_edge [OF BH(5) G(3)] H by simp
  next
    case False
    with that E ext_entry [OF BH(2)] ext_edge [OF BH(2)] show ?thesis by simp
  qed
  from 1 2 BH(1) 3 show ?case by blast
qed

lemma stage_plain_fold:
  assumes "built sid prio c0 B c"
  shows "\<exists>C. foldl (stage_plain sid prio i ord) ([], B, c) [0 ..< m] =
        (map (\<lambda>j. c + int j) [0 ..< m], C, c + int m) \<and>
      built sid prio c0 C (c + int m) \<and> ext B C \<and>
      (\<forall>j < m. entry_at C (c + int j) (mk_task EXECUTE i (int j)) ord \<and>
        (0 < j \<longrightarrow> (c + int j - 1, c + int j) \<in> edge_rel C))"
proof (induction m)
  case 0
  then show ?case using assms by simp
next
  case (Suc m)
  let ?e = "c + int m"
  obtain C where f: "foldl (stage_plain sid prio i ord) ([], B, c) [0 ..< m] =
        (map (\<lambda>j. c + int j) [0 ..< m], C, ?e)"
    and C: "built sid prio c0 C ?e" "ext B C"
    and E: "\<forall>j < m. entry_at C (c + int j) (mk_task EXECUTE i (int j)) ord \<and>
        (0 < j \<longrightarrow> (c + int j - 1, c + int j) \<in> edge_rel C)"
    using Suc by blast
  obtain D where D: "new_entry sid (mk_task EXECUTE i (int m)) prio ord (C, ?e) = (?e, D, ?e + 1)"
      "built sid prio c0 D (?e + 1)" "ext C D" "entry_at D ?e (mk_task EXECUTE i (int m)) ord"
    using new_entry_ok [OF C(1)] .
  let ?H = "if m > 0 then Link (?e - 1) ?e D else D"
  have H: "built sid prio c0 ?H (?e + 1) \<and> ext D ?H \<and> (0 < m \<longrightarrow> (?e - 1, ?e) \<in> edge_rel ?H)"
  proof (cases "0 < m")
    case True
    have "entry_at C (c + int (m - 1)) (mk_task EXECUTE i (int (m - 1))) ord"
      using E True diff_less [OF zero_less_one True] by blast
    moreover have "c + int (m - 1) = ?e - 1" using True by (simp add: of_nat_diff)
    ultimately have s: "entry_at D (?e - 1) (mk_task EXECUTE i (int (m - 1))) ord"
      using ext_entry D(3) by metis
    have "rank (mk_task EXECUTE i (int (m - 1))) < rank (mk_task EXECUTE i (int m))"
      using True by (simp add: of_nat_diff)
    from Link_ok [OF D(2) s D(4) this] True show ?thesis by simp
  next
    case False
    with D show ?thesis by simp
  qed
  have BH: "ext B ?H" "ext C ?H" "ext D ?H" 
    using H ext_trans [OF ext_trans [OF C(2) D(3)]] ext_trans [OF D(3)] by blast+
  have ex: "0 < m \<Longrightarrow> map (\<lambda>j. c + int j) [0 ..< m] ! (m - 1) = ?e - 1"
    by (simp add: of_nat_diff)
  have "foldl (stage_plain sid prio i ord) ([], B, c) [0 ..< Suc m] =
      stage_plain sid prio i ord (map (\<lambda>j. c + int j) [0 ..< m], C, ?e) m"
    using f by simp
  also have "\<dots> = (map (\<lambda>j. c + int j) [0 ..< m] @ [?e], ?H, ?e + 1)"
    unfolding stage_plain_def using ex by (simp add: D(1) Let_def add_diff_eq)
  also have "\<dots> = (map (\<lambda>j. c + int j) [0 ..< Suc m], ?H, c + int (Suc m))" by simp
  finally have 1: "foldl (stage_plain sid prio i ord) ([], B, c) [0 ..< Suc m] =
     (map (\<lambda>j. c + int j) [0 ..< Suc m], ?H, c + int (Suc m))" .
  have 2: "built sid prio c0 ?H (c + int (Suc m))" using H by (simp add: algebra_simps)
  have 3: "entry_at ?H (c + int j) (mk_task EXECUTE i (int j)) ord \<and>
        (0 < j \<longrightarrow> (c + int j - 1, c + int j) \<in> edge_rel ?H)" if "j < Suc m" for j
  proof (cases "j = m")
    case True
    then show ?thesis using ext_entry [OF BH(3) D(4)] H by simp
  next
    case False
    with that E ext_entry [OF BH(2)] ext_edge [OF BH(2)] show ?thesis by simp
  qed
  from 1 2 BH(1) 3 show ?case by blast
qed

text \<open>The chain of a testdata, by position, and the positions of its executions and scorings.\<close>

definition chain_len :: "bool \<Rightarrow> nat \<Rightarrow> nat" where
  "chain_len between ns = (if between then 2 * ns else ns + 1)"

definition chain_task :: "bool \<Rightarrow> nat \<Rightarrow> int \<Rightarrow> nat \<Rightarrow> Task" where
  "chain_task between ns i n =
     (if between then mk_task (if even n then EXECUTE else SCORING) i (int (n div 2))
      else if n < ns then mk_task EXECUTE i (int n) else mk_task SCORING i (int ns - 1))"

definition ex_ids :: "bool \<Rightarrow> nat \<Rightarrow> int \<Rightarrow> int list" where
  "ex_ids between ns c = map (\<lambda>j. c + (if between then 2 * int j else int j)) [0 ..< ns]"

definition sc_ids :: "bool \<Rightarrow> nat \<Rightarrow> int \<Rightarrow> int list" where
  "sc_ids between ns c =
     (if between then map (\<lambda>j. c + 2 * int j + 1) [0 ..< ns] else [c + int ns])"

definition chain_in :: "bool \<Rightarrow> nat \<Rightarrow> int \<Rightarrow> int \<Rightarrow> int \<Rightarrow> store \<Rightarrow> bool" where
  "chain_in between ns i ord c C \<longleftrightarrow>
     (\<forall>n < chain_len between ns. entry_at C (c + int n) (chain_task between ns i n) ord) \<and>
     (\<forall>n. Suc n < chain_len between ns \<longrightarrow> (c + int n, c + int n + 1) \<in> edge_rel C)"

lemma chain_in_ext: "ext B C \<Longrightarrow> chain_in between ns i ord c B \<Longrightarrow> chain_in between ns i ord c C"
  by (auto simp: chain_in_def ext_def)

lemma td_tasks_between:
  assumes "built sid prio c0 B c"
  shows "\<exists>C. td_tasks True ns sid prio i ord (B, c) =
      (ex_ids True ns c, sc_ids True ns c, C, c + int (chain_len True ns)) \<and>
    built sid prio c0 C (c + int (chain_len True ns)) \<and> ext B C \<and> chain_in True ns i ord c C"
proof -
  obtain C where f: "foldl (stage_between sid prio i ord) ([], [], B, c) [0 ..< ns] =
        (map (\<lambda>j. c + 2 * int j) [0 ..< ns], map (\<lambda>j. c + 2 * int j + 1) [0 ..< ns], C, c + 2 * int ns)"
    and C: "built sid prio c0 C (c + 2 * int ns)" "ext B C"
    and E: "\<forall>j < ns. entry_at C (c + 2 * int j) (mk_task EXECUTE i (int j)) ord \<and>
        entry_at C (c + 2 * int j + 1) (mk_task SCORING i (int j)) ord \<and>
        (c + 2 * int j, c + 2 * int j + 1) \<in> edge_rel C \<and>
        (0 < j \<longrightarrow> (c + 2 * int j - 1, c + 2 * int j) \<in> edge_rel C)"
    using stage_between_fold [OF assms] by blast
  have 1: "entry_at C (c + int n) (chain_task True ns i n) ord" if "n < 2 * ns" for n
  proof -
    have j: "n div 2 < ns" using that by auto
    show ?thesis
    proof (cases "even n")
      case True
      then have "n = 2 * (n div 2)" by simp
      then have "int n = 2 * int (n div 2)" by linarith
      with E j have "entry_at C (c + int n) (mk_task EXECUTE i (int (n div 2))) ord" by metis
      then show ?thesis using True by (simp add: chain_task_def)
    next
      case False
      then have "n = 2 * (n div 2) + 1" by presburger
      then have "c + 2 * int (n div 2) + 1 = c + int n" by linarith
      with E j have "entry_at C (c + int n) (mk_task SCORING i (int (n div 2))) ord" by metis
      then show ?thesis using False by (simp add: chain_task_def)
    qed
  qed
  have 2: "(c + int n, c + int n + 1) \<in> edge_rel C" if "Suc n < 2 * ns" for n
  proof (cases "even n")
    case True
    then have "n = 2 * (n div 2)" by simp
    then have "int n = 2 * int (n div 2)" by linarith
    moreover have "n div 2 < ns" using that by auto
    ultimately show ?thesis using E by metis
  next
    case False
    let ?j = "Suc n div 2"
    have "Suc n = 2 * ?j" using False by simp
    then have "int n + 1 = 2 * int ?j" by linarith
    then have n: "c + 2 * int ?j - 1 = c + int n" "c + 2 * int ?j = c + int n + 1" by linarith+
    have "?j < ns" "0 < ?j" using that \<open>Suc n = 2 * ?j\<close> by linarith+
    with E show ?thesis unfolding n [symmetric] by simp
  qed
  have "chain_in True ns i ord c C" using 1 2 by (simp add: chain_in_def chain_len_def)
  with f C show ?thesis by (simp add: td_tasks_def ex_ids_def sc_ids_def chain_len_def)
qed

lemma last_upt_map: "0 < n \<Longrightarrow> last (map f [0 ..< n]) = f (n - 1)"
  by (simp add: last_map)

lemma td_tasks_plain:
  assumes "built sid prio c0 B c" and ns: "0 < ns"
  shows "\<exists>C. td_tasks False ns sid prio i ord (B, c) =
      (ex_ids False ns c, sc_ids False ns c, C, c + int (chain_len False ns)) \<and>
    built sid prio c0 C (c + int (chain_len False ns)) \<and> ext B C \<and> chain_in False ns i ord c C"
proof -
  let ?s = "c + int ns"
  obtain C where f: "foldl (stage_plain sid prio i ord) ([], B, c) [0 ..< ns] =
        (map (\<lambda>j. c + int j) [0 ..< ns], C, ?s)"
    and C: "built sid prio c0 C ?s" "ext B C"
    and E: "\<forall>j < ns. entry_at C (c + int j) (mk_task EXECUTE i (int j)) ord \<and>
        (0 < j \<longrightarrow> (c + int j - 1, c + int j) \<in> edge_rel C)"
    using stage_plain_fold [OF assms(1)] by blast
  obtain D where D: "new_entry sid (mk_task SCORING i (int ns - 1)) prio ord (C, ?s) = (?s, D, ?s + 1)"
      "built sid prio c0 D (?s + 1)" "ext C D" "entry_at D ?s (mk_task SCORING i (int ns - 1)) ord"
    using new_entry_ok [OF C(1)] .
  have l: "last (map (\<lambda>j. c + int j) [0 ..< ns]) = ?s - 1"
    using ns by (simp add: last_upt_map of_nat_diff)
  have "entry_at C (c + int (ns - 1)) (mk_task EXECUTE i (int (ns - 1))) ord"
    using E diff_less [OF zero_less_one ns] by blast
  then have x: "entry_at D (?s - 1) (mk_task EXECUTE i (int ns - 1)) ord"
    using ext_entry [OF D(3)] ns by (simp add: of_nat_diff add_diff_eq)
  let ?H = "Link (?s - 1) ?s D"
  have H: "built sid prio c0 ?H (?s + 1)" "ext D ?H" "(?s - 1, ?s) \<in> edge_rel ?H"
    by (rule Link_ok [OF D(2) x D(4)]; simp)+
  have CH: "ext C ?H" using D(3) H(2) by (rule ext_trans)
  have 1: "entry_at ?H (c + int n) (chain_task False ns i n) ord" if "n < ns + 1" for n
    using that ext_entry [OF H(2) D(4)] E ext_entry [OF CH] by (cases "n = ns") (auto simp: chain_task_def)
  have 2: "(c + int n, c + int n + 1) \<in> edge_rel ?H" if "Suc n < ns + 1" for n
  proof (cases "Suc n = ns")
    case True
    then have "c + int n = ?s - 1" "c + int n + 1 = ?s" by linarith+
    then show ?thesis using H(3) by metis
  next
    case False
    with that have "Suc n < ns" by simp
    then have "(c + int (Suc n) - 1, c + int (Suc n)) \<in> edge_rel C" using E by blast
    then show ?thesis using ext_edge [OF CH] by (simp add: add_ac)
  qed
  have ch: "chain_in False ns i ord c ?H" using 1 2 unfolding chain_in_def chain_len_def by simp
  have "td_tasks False ns sid prio i ord (B, c) = (ex_ids False ns c, sc_ids False ns c, ?H, ?s + 1)"
    using l by (simp add: td_tasks_def f D(1) ex_ids_def sc_ids_def)
  moreover have "c + int (chain_len False ns) = ?s + 1" by (simp add: chain_len_def)
  ultimately show ?thesis using H(1) ext_trans [OF C(2) CH] ch by metis
qed

lemma td_tasks_ok:
  assumes "built sid prio c0 B c" and "0 < ns"
  shows "\<exists>C. td_tasks between ns sid prio i ord (B, c) =
      (ex_ids between ns c, sc_ids between ns c, C, c + int (chain_len between ns)) \<and>
    built sid prio c0 C (c + int (chain_len between ns)) \<and> ext B C \<and> chain_in between ns i ord c C"
  by (cases between) (simp_all only: td_tasks_between [OF assms(1)] td_tasks_plain [OF assms])

section \<open>The chains of all testdata\<close>

definition td_base :: "bool \<Rightarrow> nat \<Rightarrow> int \<Rightarrow> nat \<Rightarrow> int" where
  "td_base between ns c m = c + int m * int (chain_len between ns)"

text \<open>The first \<open>n\<close> chains are in the graph, each with an edge to the summary.\<close>

definition chains_in :: "bool \<Rightarrow> nat \<Rightarrow> int \<Rightarrow> nat list \<Rightarrow> int \<Rightarrow> nat \<Rightarrow> store \<Rightarrow> bool" where
  "chains_in between ns summary ord c n C \<longleftrightarrow>
     (\<forall>m < n. chain_in between ns (int m) (int (ord ! m)) (td_base between ns c m) C \<and>
        (td_base between ns c (Suc m) - 1, summary) \<in> edge_rel C)"

lemma chains_in_ext: "ext B C \<Longrightarrow> chains_in between ns s ord c n B \<Longrightarrow> chains_in between ns s ord c n C"
  using chain_in_ext ext_edge unfolding chains_in_def by blast

lemma last_sc_ids: "0 < ns \<Longrightarrow> last (sc_ids between ns c) = c + int (chain_len between ns) - 1"
  by (simp add: sc_ids_def chain_len_def last_upt_map of_nat_diff)

lemma chain_last:
  assumes "chain_in between ns i ord c C" "0 < ns"
  shows "entry_at C (c + int (chain_len between ns) - 1) (mk_task SCORING i (int ns - 1)) ord"
proof -
  have "chain_len between ns - 1 < chain_len between ns" using assms(2) by (simp add: chain_len_def)
  have "entry_at C (c + int (chain_len between ns - 1)) (chain_task between ns i (chain_len between ns - 1)) ord"
    using assms(1) \<open>chain_len between ns - 1 < chain_len between ns\<close> unfolding chain_in_def by blast
  moreover have "chain_task between ns i (chain_len between ns - 1) = mk_task SCORING i (int ns - 1)"
    using assms(2) by (auto simp: chain_task_def chain_len_def of_nat_diff)
  moreover have "c + int (chain_len between ns - 1) = c + int (chain_len between ns) - 1"
    using assms(2) by (simp add: chain_len_def of_nat_diff)
  ultimately show ?thesis by metis
qed

lemma add_td_fold:
  assumes "built sid (priority sb) c0 B c" "entry_at B summary (mk_task SUMMARY 0 0) 0"
    and ns: "stages sb = int ns" "0 < ns" "ns \<le> 32"
  defines "bt \<equiv> judge_between_stages sb"
  shows "\<exists>C. foldl (add_td sb sid summary ord) ([], [], B, c) [0 ..< n] =
      (map (\<lambda>m. ex_ids bt ns (td_base bt ns c m)) [0 ..< n],
       map (\<lambda>m. sc_ids bt ns (td_base bt ns c m)) [0 ..< n], C, td_base bt ns c n) \<and>
    built sid (priority sb) c0 C (td_base bt ns c n) \<and> ext B C \<and> chains_in bt ns summary ord c n C"
proof (induction n)
  case 0
  then show ?case using assms(1) by (simp add: td_base_def chains_in_def)
next
  case (Suc n)
  let ?c = "td_base bt ns c n"
  let ?d = "td_base bt ns c (Suc n)"
  have d: "?c + int (chain_len bt ns) = ?d" by (simp add: td_base_def algebra_simps)
  obtain C where f: "foldl (add_td sb sid summary ord) ([], [], B, c) [0 ..< n] =
      (map (\<lambda>m. ex_ids bt ns (td_base bt ns c m)) [0 ..< n],
       map (\<lambda>m. sc_ids bt ns (td_base bt ns c m)) [0 ..< n], C, ?c)"
    and C: "built sid (priority sb) c0 C ?c" "ext B C" "chains_in bt ns summary ord c n C"
    using Suc by blast
  obtain D where D: "td_tasks bt ns sid (priority sb) (int n) (int (ord ! n)) (C, ?c) =
        (ex_ids bt ns ?c, sc_ids bt ns ?c, D, ?d)"
      "built sid (priority sb) c0 D ?d" "ext C D" "chain_in bt ns (int n) (int (ord ! n)) ?c D"
    using td_tasks_ok [OF C(1) ns(2), of bt "int n" "int (ord ! n)"] unfolding d by blast
  let ?H = "Link (?d - 1) summary D"
  have s: "entry_at D summary (mk_task SUMMARY 0 0) 0"
    using ext_entry [OF ext_trans [OF C(2) D(3)] assms(2)] .
  have l: "entry_at D (?d - 1) (mk_task SCORING (int n) (int ns - 1)) (int (ord ! n))"
    using chain_last [OF D(4) ns(2)] unfolding d .
  have H: "built sid (priority sb) c0 ?H ?d" "ext D ?H" "(?d - 1, summary) \<in> edge_rel ?H"
    by (rule Link_ok [OF D(2) l s]; use ns(3) in simp)+
  have CH: "ext C ?H" using D(3) H(2) by (rule ext_trans)
  have ls: "last (sc_ids bt ns ?c) = ?d - 1" unfolding last_sc_ids [OF ns(2)] d ..
  have "foldl (add_td sb sid summary ord) ([], [], B, c) [0 ..< Suc n] =
      add_td sb sid summary ord (map (\<lambda>m. ex_ids bt ns (td_base bt ns c m)) [0 ..< n],
       map (\<lambda>m. sc_ids bt ns (td_base bt ns c m)) [0 ..< n], C, ?c) n"
    using f by simp
  also have "\<dots> = (map (\<lambda>m. ex_ids bt ns (td_base bt ns c m)) [0 ..< n] @ [ex_ids bt ns ?c],
       map (\<lambda>m. sc_ids bt ns (td_base bt ns c m)) [0 ..< n] @ [sc_ids bt ns ?c], ?H, ?d)"
    using D(1) by (simp add: add_td_def ns(1) bt_def [symmetric] ls)
  finally have 1: "foldl (add_td sb sid summary ord) ([], [], B, c) [0 ..< Suc n] =
      (map (\<lambda>m. ex_ids bt ns (td_base bt ns c m)) [0 ..< Suc n],
       map (\<lambda>m. sc_ids bt ns (td_base bt ns c m)) [0 ..< Suc n], ?H, ?d)" by simp
  have "chains_in bt ns summary ord c (Suc n) ?H"
    using chains_in_ext [OF CH C(3)] chain_in_ext [OF H(2) D(4)] H(3)
    unfolding chains_in_def by (simp add: less_Suc_eq)
  with 1 H(1) ext_trans [OF C(2) CH] show ?case by blast
qed

section \<open>The compilations\<close>

lemma Link_all_ok:
  assumes "built sid prio c0 B c" "entry_at B a ta oa"
    and "\<And>b. b \<in> set bs \<Longrightarrow> \<exists>tb ob. entry_at B b tb ob \<and> rank ta < rank tb"
  shows "built sid prio c0 (Link_all a bs B) c \<and> ext B (Link_all a bs B) \<and>
    (\<forall>b \<in> set bs. (a, b) \<in> edge_rel (Link_all a bs B))"
  using assms(3)
proof (induction bs rule: rev_induct)
  case Nil
  then show ?case using assms(1) by (simp add: Link_all_def)
next
  case (snoc b bs)
  let ?C = "Link_all a bs B"
  have C: "built sid prio c0 ?C c" "ext B ?C" "\<forall>b \<in> set bs. (a, b) \<in> edge_rel ?C"
    using snoc by auto
  obtain tb ob where tb: "entry_at B b tb ob" "rank ta < rank tb" using snoc.prems [of b] by auto
  note L = Link_ok [OF C(1) ext_entry [OF C(2) assms(2)] ext_entry [OF C(2) tb(1)] tb(2)]
  have "Link_all a (bs @ [b]) B = Link a b ?C" by (simp add: Link_all_def)
  then show ?case using L ext_trans [OF C(2) L(2)] ext_edge [OF L(2)] C(3) by auto
qed

text \<open>The positions in a chain that a compilation feeds.\<close>

definition ex_pos :: "bool \<Rightarrow> int \<Rightarrow> nat" where
  "ex_pos between j = (if between then 2 * nat j else nat j)"

fun compile_stage :: "Submission \<Rightarrow> CompileSubtask \<Rightarrow> int" where
  "compile_stage sb CS_USERPROG = first_non_prob_stage sb"
| "compile_stage sb CS_PROBPROG = first_prob_stage sb"
| "compile_stage sb CS_SPECJUDGE = (if specjudge_type sb \<noteq> NORMAL then 0 else -1)"
| "compile_stage sb CS_SUMMARY = (if summary_type sb = Summary_CUSTOM then 0 else -1)"

fun compile_pos :: "Submission \<Rightarrow> CompileSubtask \<Rightarrow> nat" where
  "compile_pos sb CS_SPECJUDGE = (if judge_between_stages sb then 1 else nat (stages sb))"
| "compile_pos sb s = ex_pos (judge_between_stages sb) (compile_stage sb s)"

definition compile_targets :: "Submission \<Rightarrow> int \<Rightarrow> CompileSubtask \<Rightarrow> int list" where
  "compile_targets sb c0 s =
     (if testdata sb = [] \<or> s = CS_SUMMARY then [c0]
      else map (\<lambda>m. td_base (judge_between_stages sb) (nat (stages sb)) (c0 + 1) m + int (compile_pos sb s))
             [0 ..< length (testdata sb)])"

definition compile_in :: "Submission \<Rightarrow> int \<Rightarrow> CompileSubtask \<Rightarrow> int \<Rightarrow> store \<Rightarrow> bool" where
  "compile_in sb c0 s k B \<longleftrightarrow>
     entry_at B k (mk_task COMPILE (int (subtask_int s)) 0) 0 \<and>
     (\<forall>t \<in> set (compile_targets sb c0 s). (k, t) \<in> edge_rel B)"

lemma compile_in_ext: "ext B C \<Longrightarrow> compile_in sb c0 s k B \<Longrightarrow> compile_in sb c0 s k C"
  using ext_entry ext_edge unfolding compile_in_def by blast

text \<open>The graph with the compilations \<open>cs\<close> built so far.\<close>

definition pushed :: "Submission \<Rightarrow> int \<Rightarrow> int \<Rightarrow> CompileSubtask list \<Rightarrow> store \<Rightarrow> bool" where
  "pushed sb sid c0 cs B \<longleftrightarrow>
     (let bt = judge_between_stages sb; ns = nat (stages sb); n = length (testdata sb);
          base = td_base bt ns (c0 + 1) n
      in built sid (priority sb) c0 B (base + int (length cs)) \<and>
         entry_at B c0 (mk_task SUMMARY 0 0) 0 \<and>
         chains_in bt ns c0 (td_order (skip_group sb) (testdata sb)) (c0 + 1) n B \<and>
         (\<forall>p < length cs. compile_in sb c0 (cs ! p) (base + int p) B))"

text \<open>A submission after \<open>clamp_stages\<close> whose stages are all in range.\<close>

definition push_ok :: "Submission \<Rightarrow> bool" where
  "push_ok sb \<longleftrightarrow> 1 \<le> stages sb \<and> stages sb \<le> 32 \<and>
     (testdata sb = [] \<or> first_prob_stage sb = -1 \<or>
      (0 \<le> first_prob_stage sb \<and> first_prob_stage sb < stages sb))"

lemma first_non_prob_range:
  "first_non_prob_stage sb = -1 \<or> (0 \<le> first_non_prob_stage sb \<and> first_non_prob_stage sb < stages sb)"
proof (cases "find (\<lambda>i. int i \<notin> set (problem_prog_stages sb)) [0 ..< nat (stages sb)]")
  case None
  then show ?thesis by (simp add: first_non_prob_stage_def)
next
  case (Some i)
  then have "i \<in> set [0 ..< nat (stages sb)]" by (auto simp: find_Some_iff intro: nth_mem)
  with Some show ?thesis by (simp add: first_non_prob_stage_def)
qed

lemma compile_stage_range:
  "push_ok sb \<Longrightarrow> testdata sb \<noteq> [] \<Longrightarrow> compile_stage sb s \<noteq> -1 \<Longrightarrow>
   0 \<le> compile_stage sb s \<and> compile_stage sb s < stages sb"
  using first_non_prob_range [of sb] by (cases s) (auto simp: push_ok_def split: if_splits)

lemma compile_pos_range:
  assumes "push_ok sb" "testdata sb \<noteq> []" "compile_stage sb s \<noteq> -1" "s \<noteq> CS_SUMMARY"
  shows "compile_pos sb s < chain_len (judge_between_stages sb) (nat (stages sb))"
  using compile_stage_range [OF assms(1-3)] assms(1,4)
  by (cases s) (auto simp: chain_len_def ex_pos_def push_ok_def)

lemma rank_chain_task: "0 < ns \<Longrightarrow> 0 < rank (chain_task between ns i n)"
  by (auto simp: chain_task_def)

lemma compile_target_entry:
  assumes "pushed sb sid c0 cs B" "push_ok sb" "compile_stage sb s \<noteq> -1" "t \<in> set (compile_targets sb c0 s)"
  shows "\<exists>tb ob. entry_at B t tb ob \<and> 0 < rank tb"
proof (cases "testdata sb = [] \<or> s = CS_SUMMARY")
  case True
  then have "t = c0" using assms(4) by (auto simp: compile_targets_def)
  with assms(1) show ?thesis by (auto simp: pushed_def Let_def intro!: exI)
next
  case False
  let ?bt = "judge_between_stages sb" and ?ns = "nat (stages sb)"
  obtain m where m: "m < length (testdata sb)" "t = td_base ?bt ?ns (c0 + 1) m + int (compile_pos sb s)"
    using assms(4) False by (auto simp: compile_targets_def)
  have "compile_pos sb s < chain_len ?bt ?ns" using compile_pos_range assms(2,3) False by blast
  then have "entry_at B t (chain_task ?bt ?ns (int m) (compile_pos sb s))
      (int (td_order (skip_group sb) (testdata sb) ! m))"
    using assms(1) m unfolding pushed_def Let_def chains_in_def chain_in_def by blast
  moreover have "0 < ?ns" using assms(2) by (simp add: push_ok_def)
  ultimately show ?thesis using rank_chain_task by blast
qed

lemma add_compile_ok:
  assumes "pushed sb sid c0 cs B" "push_ok sb" "compile_stage sb s \<noteq> -1"
  defines "base \<equiv> td_base (judge_between_stages sb) (nat (stages sb)) (c0 + 1) (length (testdata sb))"
  shows "\<exists>C. add_compile sid (priority sb) s (compile_targets sb c0 s) (ins, B, base + int (length cs)) =
      (ins @ [base + int (length cs)], C, base + int (length (cs @ [s]))) \<and> pushed sb sid c0 (cs @ [s]) C"
proof -
  let ?k = "base + int (length cs)"
  have b: "built sid (priority sb) c0 B ?k"
    using assms(1) by (simp add: pushed_def Let_def base_def)
  obtain D where D: "new_entry sid (mk_task COMPILE (int (subtask_int s)) 0) (priority sb) 0 (B, ?k) = (?k, D, ?k + 1)"
      "built sid (priority sb) c0 D (?k + 1)" "ext B D"
      "entry_at D ?k (mk_task COMPILE (int (subtask_int s)) 0) 0"
    using new_entry_ok [OF b] .
  let ?H = "Link_all ?k (compile_targets sb c0 s) D"
  have H: "built sid (priority sb) c0 ?H (?k + 1) \<and> ext D ?H \<and>
      (\<forall>b \<in> set (compile_targets sb c0 s). (?k, b) \<in> edge_rel ?H)"
    by (rule Link_all_ok [OF D(2,4)])
      (use compile_target_entry [OF assms(1-3)] ext_entry [OF D(3)] in fastforce)
  have BH: "ext B ?H" using D(3) H ext_trans by blast
  have "compile_in sb c0 s ?k ?H" using H ext_entry [OF _ D(4)] by (auto simp: compile_in_def)
  moreover have "compile_in sb c0 (cs ! p) (base + int p) ?H" if "p < length cs" for p
    using assms(1) that compile_in_ext [OF BH] by (auto simp: pushed_def Let_def base_def)
  ultimately have "compile_in sb c0 ((cs @ [s]) ! p) (base + int p) ?H" if "p < Suc (length cs)" for p
    using that by (cases "p = length cs") (auto simp: nth_append)
  moreover have "built sid (priority sb) c0 ?H (base + int (length (cs @ [s])))"
    using H by (simp add: add_ac)
  ultimately have "pushed sb sid c0 (cs @ [s]) ?H"
    using assms(1) ext_entry [OF BH] chains_in_ext [OF BH]
    unfolding pushed_def Let_def base_def by simp
  moreover have "add_compile sid (priority sb) s (compile_targets sb c0 s) (ins, B, ?k) =
      (ins @ [?k], ?H, base + int (length (cs @ [s])))"
    by (simp add: add_compile_def D(1) add_ac)
  ultimately show ?thesis by blast
qed

section \<open>The whole graph\<close>

lemma at_stage_map:
  "(\<And>m. m < n \<Longrightarrow> 0 \<le> j \<and> nat j < length (f m)) \<Longrightarrow>
   at_stage (map f [0 ..< n]) j = Inr (map (\<lambda>m. f m ! nat j) [0 ..< n])"
proof -
  assume r: "\<And>m. m < n \<Longrightarrow> 0 \<le> j \<and> nat j < length (f m)"
  have "at_stage (map f ms) j = Inr (map (\<lambda>m. f m ! nat j) ms)" if "set ms \<subseteq> {0 ..< n}" for ms
    using that r by (induction ms) auto
  then show ?thesis by simp
qed

lemma ex_ids_nth: "0 \<le> j \<Longrightarrow> nat j < ns \<Longrightarrow> ex_ids bt ns c ! nat j = c + int (ex_pos bt j)"
  by (simp add: ex_ids_def ex_pos_def)

lemma sc_ids_0: "0 < ns \<Longrightarrow> sc_ids bt ns c ! 0 = c + int (if bt then 1 else ns)"
  by (simp add: sc_ids_def)

text \<open>The vectors \<open>executes\<close> and \<open>scorings\<close>, and the vector each compilation uses.\<close>

definition executes_of :: "Submission \<Rightarrow> int \<Rightarrow> int list list" where
  "executes_of sb c0 =
     map (\<lambda>m. ex_ids (judge_between_stages sb) (nat (stages sb))
        (td_base (judge_between_stages sb) (nat (stages sb)) (c0 + 1) m)) [0 ..< length (testdata sb)]"

definition scorings_of :: "Submission \<Rightarrow> int \<Rightarrow> int list list" where
  "scorings_of sb c0 =
     map (\<lambda>m. sc_ids (judge_between_stages sb) (nat (stages sb))
        (td_base (judge_between_stages sb) (nat (stages sb)) (c0 + 1) m)) [0 ..< length (testdata sb)]"

fun tds_for :: "Submission \<Rightarrow> int \<Rightarrow> CompileSubtask \<Rightarrow> int list list" where
  "tds_for sb c0 CS_SPECJUDGE = scorings_of sb c0"
| "tds_for sb c0 _ = executes_of sb c0"

lemma compile_targets_eq:
  assumes "push_ok sb" "compile_stage sb s \<noteq> -1" "s \<noteq> CS_SUMMARY"
  shows "at_stage (tds_for sb c0 s) (compile_stage sb s) =
      Inr (if testdata sb = [] then [] else compile_targets sb c0 s)"
proof (cases "testdata sb = []")
  case True
  then show ?thesis by (cases s) (simp_all add: executes_of_def scorings_of_def)
next
  case False
  have r: "0 \<le> compile_stage sb s \<and> nat (compile_stage sb s) < nat (stages sb)" "0 < nat (stages sb)"
    using compile_stage_range [OF assms(1) False assms(2)] assms(1) by (auto simp: push_ok_def)
  show ?thesis
  proof (cases "s = CS_SPECJUDGE")
    case True
    then have "at_stage (tds_for sb c0 s) (compile_stage sb s) =
        Inr (map (\<lambda>m. sc_ids (judge_between_stages sb) (nat (stages sb))
           (td_base (judge_between_stages sb) (nat (stages sb)) (c0 + 1) m) ! 0) [0 ..< length (testdata sb)])"
      using at_stage_map [of "length (testdata sb)" "0" "\<lambda>m. sc_ids (judge_between_stages sb) (nat (stages sb))
           (td_base (judge_between_stages sb) (nat (stages sb)) (c0 + 1) m)"] r assms(2)
      by (simp add: scorings_of_def sc_ids_def split: if_splits)
    then show ?thesis
      using True False sc_ids_0 [OF r(2)] assms(2) by (simp add: compile_targets_def)
  next
    case no: False
    then have "tds_for sb c0 s = executes_of sb c0" by (cases s) simp_all
    moreover have "compile_pos sb s = ex_pos (judge_between_stages sb) (compile_stage sb s)"
      using no by (cases s) simp_all
    moreover have "at_stage (executes_of sb c0) (compile_stage sb s) =
        Inr (map (\<lambda>m. ex_ids (judge_between_stages sb) (nat (stages sb))
           (td_base (judge_between_stages sb) (nat (stages sb)) (c0 + 1) m) ! nat (compile_stage sb s))
           [0 ..< length (testdata sb)])"
      unfolding executes_of_def by (rule at_stage_map) (use r in \<open>simp add: ex_ids_def\<close>)
    ultimately show ?thesis
      using r False assms(3) by (simp add: compile_targets_def ex_ids_nth)
  qed
qed

lemma tds_for_empty: "tds_for sb c0 s = [] \<longleftrightarrow> testdata sb = []"
  by (cases s) (simp_all add: executes_of_def scorings_of_def)

text \<open>The state of the build while the compilations are added.\<close>

definition compiling :: "Submission \<Rightarrow> int \<Rightarrow> int \<Rightarrow> CompileSubtask list \<Rightarrow> int list \<times> build \<Rightarrow> bool" where
  "compiling sb sid c0 cs x \<longleftrightarrow>
     (let base = td_base (judge_between_stages sb) (nat (stages sb)) (c0 + 1) (length (testdata sb))
      in \<exists>B. x = (map (\<lambda>p. base + int p) [0 ..< length cs], B, base + int (length cs)) \<and>
         pushed sb sid c0 cs B)"

lemma compiling_step:
  assumes "compiling sb sid c0 cs x" "push_ok sb" "compile_stage sb s \<noteq> -1"
  shows "compiling sb sid c0 (cs @ [s]) (add_compile sid (priority sb) s (compile_targets sb c0 s) x)"
  using assms(1) add_compile_ok [OF _ assms(2,3)] unfolding compiling_def Let_def by fastforce

lemma compile_for_ok:
  assumes "compiling sb sid c0 cs x" "push_ok sb" "s \<noteq> CS_SUMMARY"
  shows "\<exists>y. compile_for sid (priority sb) c0 s (tds_for sb c0 s) (compile_stage sb s) x = Inr y \<and>
    compiling sb sid c0 (if compile_stage sb s = -1 then cs else cs @ [s]) y"
proof (cases "compile_stage sb s = -1")
  case True
  with assms(1) show ?thesis by (simp add: compile_for_def)
next
  case False
  have "(if tds_for sb c0 s = [] then [c0] else if testdata sb = [] then [] else compile_targets sb c0 s) =
      compile_targets sb c0 s"
    unfolding tds_for_empty by (simp add: compile_targets_def)
  with False compiling_step [OF assms(1,2) False] show ?thesis
    by (simp add: compile_for_def compile_targets_eq [OF assms(2) False assms(3)])
qed

definition wanted_compiles :: "Submission \<Rightarrow> CompileSubtask list" where
  "wanted_compiles sb =
     filter (\<lambda>s. compile_stage sb s \<noteq> -1) [CS_USERPROG, CS_PROBPROG, CS_SPECJUDGE, CS_SUMMARY]"

section \<open>The order of insertion\<close>

lemma set_chain_ids: "0 < ns \<Longrightarrow> set (ex_ids bt ns c) \<union> set (sc_ids bt ns c) = {c ..< c + int (chain_len bt ns)}"
  (is "_ \<Longrightarrow> ?A = _")
proof (rule equalityI; rule subsetI)
  fix k
  assume "k \<in> ?A" and "0 < ns"
  then show "k \<in> {c ..< c + int (chain_len bt ns)}"
    by (cases bt) (auto simp: ex_ids_def sc_ids_def chain_len_def)
next
  fix k
  assume k: "k \<in> {c ..< c + int (chain_len bt ns)}"
  show "k \<in> ?A"
  proof (cases bt)
    case True
    let ?j = "nat (k - c) div 2"
    have "?j < ns" "k = c + 2 * int ?j \<or> k = c + 2 * int ?j + 1"
      using k True by (simp_all add: chain_len_def) linarith+
    with True show ?thesis by (auto simp: ex_ids_def sc_ids_def)
  next
    case False
    show ?thesis
    proof (cases "k = c + int ns")
      case True
      with False show ?thesis by (simp add: sc_ids_def)
    next
      case ne: False
      with k False have "nat (k - c) < ns" "k = c + int (nat (k - c))"
        by (simp_all add: chain_len_def) linarith
      then have "k \<in> (\<lambda>j. c + int j) ` {0 ..< ns}" by (intro image_eqI) auto
      then have "k \<in> set (ex_ids bt ns c)" using False by (simp add: ex_ids_def)
      then show ?thesis ..
    qed
  qed
qed

lemma UN_blocks: "(\<Union>m \<in> {0 ..< n}. {td_base bt ns c m ..< td_base bt ns c (Suc m)}) = {c ..< td_base bt ns c n}"
proof (induction n)
  case 0
  then show ?case by (simp add: td_base_def)
next
  case (Suc n)
  have "c \<le> td_base bt ns c n" "td_base bt ns c n \<le> td_base bt ns c (Suc n)"
    by (simp_all add: td_base_def algebra_simps)
  then have "{c ..< td_base bt ns c n} \<union> {td_base bt ns c n ..< td_base bt ns c (Suc n)} =
      {c ..< td_base bt ns c (Suc n)}" by auto
  moreover have "{0 ..< Suc n} = insert n {0 ..< n}" by auto
  ultimately show ?case using Suc by (simp add: Un_commute)
qed

lemma td_base_Suc: "td_base bt ns c m + int (chain_len bt ns) = td_base bt ns c (Suc m)"
  by (simp add: td_base_def algebra_simps)

lemma length_concat_map: "(\<And>m. length (f m) = k) \<Longrightarrow> length (concat (map f [0 ..< n])) = n * k"
  by (induction n) auto

lemma set_td_ids:
  assumes "1 \<le> stages sb"
  shows "set (concat (executes_of sb c0)) \<union> set (concat (scorings_of sb c0)) =
    {c0 + 1 ..< td_base (judge_between_stages sb) (nat (stages sb)) (c0 + 1) (length (testdata sb))}"
proof -
  let ?bt = "judge_between_stages sb" and ?ns = "nat (stages sb)"
  have "0 < ?ns" using assms by simp
  have "set (concat (executes_of sb c0)) \<union> set (concat (scorings_of sb c0)) =
      (\<Union>m \<in> {0 ..< length (testdata sb)}. set (ex_ids ?bt ?ns (td_base ?bt ?ns (c0 + 1) m)) \<union>
         set (sc_ids ?bt ?ns (td_base ?bt ?ns (c0 + 1) m)))"
    by (auto simp: executes_of_def scorings_of_def)
  also have "\<dots> = (\<Union>m \<in> {0 ..< length (testdata sb)}.
      {td_base ?bt ?ns (c0 + 1) m ..< td_base ?bt ?ns (c0 + 1) (Suc m)})"
    unfolding set_chain_ids [OF \<open>0 < ?ns\<close>] td_base_Suc ..
  finally show ?thesis unfolding UN_blocks .
qed

lemma length_td_ids:
  assumes "1 \<le> stages sb"
  shows "length (concat (executes_of sb c0)) + length (concat (scorings_of sb c0)) =
    length (testdata sb) * chain_len (judge_between_stages sb) (nat (stages sb))"
proof -
  let ?n = "length (testdata sb)" and ?bt = "judge_between_stages sb" and ?ns = "nat (stages sb)"
  have "length (concat (executes_of sb c0)) = ?n * ?ns"
    unfolding executes_of_def by (rule length_concat_map) (simp add: ex_ids_def)
  moreover have "length (concat (scorings_of sb c0)) = ?n * (if ?bt then ?ns else 1)"
    unfolding scorings_of_def by (rule length_concat_map) (simp add: sc_ids_def)
  ultimately show ?thesis by (simp add: chain_len_def algebra_simps)
qed

definition insert_order :: "Submission \<Rightarrow> int \<Rightarrow> int list" where
  "insert_order sb c0 =
     map (\<lambda>p. td_base (judge_between_stages sb) (nat (stages sb)) (c0 + 1) (length (testdata sb)) + int p)
       [0 ..< length (wanted_compiles sb)] @
     concat (executes_of sb c0) @ concat (scorings_of sb c0) @ [c0]"

definition push_end :: "Submission \<Rightarrow> int \<Rightarrow> int" where
  "push_end sb c0 =
     td_base (judge_between_stages sb) (nat (stages sb)) (c0 + 1) (length (testdata sb)) +
     int (length (wanted_compiles sb))"

lemma insert_order_ok:
  assumes "1 \<le> stages sb"
  shows "set (insert_order sb c0) = {c0 ..< push_end sb c0}" "distinct (insert_order sb c0)"
proof -
  let ?b = "td_base (judge_between_stages sb) (nat (stages sb)) (c0 + 1) (length (testdata sb))"
  let ?w = "length (wanted_compiles sb)"
  have b: "c0 + 1 \<le> ?b" by (simp add: td_base_def)
  have "set (map (\<lambda>p. ?b + int p) [0 ..< ?w]) = {?b ..< ?b + int ?w}"
  proof -
    have "k \<in> (\<lambda>p. ?b + int p) ` {0 ..< ?w}" if "?b \<le> k" "k < ?b + int ?w" for k
      by (rule image_eqI [of _ _ "nat (k - ?b)"]) (use that in auto)
    then show ?thesis by auto
  qed
  then have "set (insert_order sb c0) = {?b ..< ?b + int ?w} \<union> {c0 + 1 ..< ?b} \<union> {c0}"
    using set_td_ids [OF assms, of c0] unfolding insert_order_def by auto
  also have "\<dots> = {c0 ..< push_end sb c0}" using b by (auto simp: push_end_def)
  finally show s: "set (insert_order sb c0) = {c0 ..< push_end sb c0}" .
  have "int (length (insert_order sb c0)) = push_end sb c0 - c0"
    using length_td_ids [OF assms, of c0]
    by (simp add: insert_order_def push_end_def td_base_def flip: of_nat_mult)
  then have "card (set (insert_order sb c0)) = length (insert_order sb c0)" unfolding s by simp
  then show "distinct (insert_order sb c0)" by (rule card_distinct)
qed

theorem build_graph_ok:
  assumes "push_ok sb"
  shows "\<exists>B. build_graph sb sid c0 = Inr (insert_order sb c0, B, push_end sb c0) \<and>
    pushed sb sid c0 (wanted_compiles sb) B"
proof -
  let ?bt = "judge_between_stages sb" and ?ns = "nat (stages sb)" and ?n = "length (testdata sb)"
  let ?ord = "td_order (skip_group sb) (testdata sb)"
  have ns: "stages sb = int ?ns" "0 < ?ns" "?ns \<le> 32" using assms by (auto simp: push_ok_def)
  obtain A where A: "new_entry sid (mk_task SUMMARY 0 0) (priority sb) 0 (Map.empty, c0) = (c0, A, c0 + 1)"
      "built sid (priority sb) c0 A (c0 + 1)" "entry_at A c0 (mk_task SUMMARY 0 0) 0"
    using new_entry_ok [OF built_empty [of sid "priority sb" c0]] by metis
  obtain C where C: "foldl (add_td sb sid c0 ?ord) ([], [], A, c0 + 1) [0 ..< ?n] =
      (executes_of sb c0, scorings_of sb c0, C, td_base ?bt ?ns (c0 + 1) ?n)"
    "built sid (priority sb) c0 C (td_base ?bt ?ns (c0 + 1) ?n)" "ext A C"
    "chains_in ?bt ?ns c0 ?ord (c0 + 1) ?n C"
    using add_td_fold [OF A(2,3) ns, of ?ord ?n] unfolding executes_of_def scorings_of_def by blast
  let ?x = "([], C, td_base ?bt ?ns (c0 + 1) ?n)"
  have c: "compiling sb sid c0 [] ?x"
    using C(2,4) ext_entry [OF C(3) A(3)] by (simp add: compiling_def pushed_def Let_def)
  obtain x1 where x1: "compile_for sid (priority sb) c0 CS_USERPROG (executes_of sb c0) (first_non_prob_stage sb) ?x = Inr x1"
      and c1: "compiling sb sid c0 (if first_non_prob_stage sb = -1 then [] else [CS_USERPROG]) x1"
    using compile_for_ok [OF c assms, of CS_USERPROG]
    by (simp only: compile_stage.simps tds_for.simps append_Nil CompileSubtask.distinct) blast
  obtain x2 where x2: "compile_for sid (priority sb) c0 CS_PROBPROG (executes_of sb c0) (first_prob_stage sb) x1 = Inr x2"
      and c2: "compiling sb sid c0 (filter (\<lambda>s. compile_stage sb s \<noteq> -1) [CS_USERPROG, CS_PROBPROG]) x2"
    using compile_for_ok [OF c1 assms, of CS_PROBPROG] by (auto split: if_splits)
  obtain x3 where x3: "compile_for sid (priority sb) c0 CS_SPECJUDGE (scorings_of sb c0)
        (if specjudge_type sb \<noteq> NORMAL then 0 else -1) x2 = Inr x3"
      and c3: "compiling sb sid c0 (filter (\<lambda>s. compile_stage sb s \<noteq> -1) [CS_USERPROG, CS_PROBPROG, CS_SPECJUDGE]) x3"
    using compile_for_ok [OF c2 assms, of CS_SPECJUDGE] by (auto split: if_splits)
  define x4 where "x4 = (if summary_type sb = Summary_CUSTOM
      then add_compile sid (priority sb) CS_SUMMARY [c0] x3 else x3)"
  have "compiling sb sid c0 (wanted_compiles sb) x4"
    using c3 compiling_step [OF c3 assms, of CS_SUMMARY]
    by (auto simp: x4_def wanted_compiles_def compile_targets_def split: if_splits)
  then obtain B where B: "pushed sb sid c0 (wanted_compiles sb) B"
    and x4: "x4 = (map (\<lambda>p. td_base ?bt ?ns (c0 + 1) ?n + int p) [0 ..< length (wanted_compiles sb)], B, push_end sb c0)"
    unfolding compiling_def Let_def push_end_def by blast
  have "build_graph sb sid c0 = Inr (insert_order sb c0, B, push_end sb c0)"
    unfolding build_graph_def Let_def
    by (simp add: A(1) C(1) x1 x2 x3 x4_def [symmetric] x4 insert_order_def)
  with B show ?thesis by blast
qed

section \<open>The order of the tasks\<close>

text \<open>
  The contract of the graph: which tasks of a submission come after which. The chain of a testdata
  runs stage by stage; an execution waits for the program its stage runs, a scoring for the special
  judge; the summary waits for everything.
\<close>

definition must_precede :: "int list \<Rightarrow> Task \<Rightarrow> Task \<Rightarrow> bool" where
  "must_precede pps a b \<longleftrightarrow>
     (case (task_type a, task_type b) of
        (COMPILE, EXECUTE) \<Rightarrow>
          compile_subtask a = (if stage b \<in> set pps then CS_PROBPROG else CS_USERPROG)
      | (COMPILE, SCORING) \<Rightarrow> compile_subtask a = CS_SPECJUDGE
      | (EXECUTE, EXECUTE) \<Rightarrow> subtask a = subtask b \<and> stage a < stage b
      | (EXECUTE, SCORING) \<Rightarrow> subtask a = subtask b \<and> stage a \<le> stage b
      | (SCORING, EXECUTE) \<Rightarrow> subtask a = subtask b \<and> stage a < stage b
      | (SCORING, SCORING) \<Rightarrow> subtask a = subtask b \<and> stage a < stage b
      | (a, SUMMARY) \<Rightarrow> a \<noteq> SUMMARY
      | _ \<Rightarrow> False)"

lemma entry_location:
  assumes "pushed sb sid c0 cs B" "entry_at B k a oa"
  defines "bt \<equiv> judge_between_stages sb" and "ns \<equiv> nat (stages sb)"
  obtains (summary) "k = c0" "a = mk_task SUMMARY 0 0"
    | (chain) m p where "m < length (testdata sb)" "p < chain_len bt ns" "k = td_base bt ns (c0 + 1) m + int p"
        "a = chain_task bt ns (int m) p"
    | (compile) p where "p < length cs" "k = td_base bt ns (c0 + 1) (length (testdata sb)) + int p"
        "a = mk_task COMPILE (int (subtask_int (cs ! p))) 0" "compile_in sb c0 (cs ! p) k B"
proof -
  let ?n = "length (testdata sb)"
  let ?b = "td_base bt ns (c0 + 1) ?n"
  have k: "c0 \<le> k" "k < ?b + int (length cs)"
    using assms(1,2) by (auto simp: pushed_def Let_def built_def entry_at_def bt_def ns_def)
  have u: "entry_at B k b ob \<Longrightarrow> a = b" for b ob using assms(2) by (auto simp: entry_at_def)
  consider "k = c0" | "c0 + 1 \<le> k" "k < ?b" | "?b \<le> k" using k(1) by linarith
  then show thesis
  proof cases
    case 1
    then show thesis using summary u [of "mk_task SUMMARY 0 0" 0] assms(1) by (simp add: pushed_def Let_def)
  next
    case 2
    then have "k \<in> (\<Union>m \<in> {0 ..< ?n}. {td_base bt ns (c0 + 1) m ..< td_base bt ns (c0 + 1) (Suc m)})"
      unfolding UN_blocks by simp
    then obtain m where m: "m < ?n" "td_base bt ns (c0 + 1) m \<le> k" "k < td_base bt ns (c0 + 1) m + int (chain_len bt ns)"
      unfolding td_base_Suc [symmetric] by auto
    let ?p = "nat (k - td_base bt ns (c0 + 1) m)"
    have p: "?p < chain_len bt ns" "k = td_base bt ns (c0 + 1) m + int ?p" using m(2,3) by linarith+
    then have "entry_at B k (chain_task bt ns (int m) ?p) (int (td_order (skip_group sb) (testdata sb) ! m))"
      using assms(1) m(1) unfolding pushed_def Let_def chains_in_def chain_in_def bt_def ns_def by metis
    then show thesis using chain [OF m(1) p] u by blast
  next
    case 3
    let ?p = "nat (k - ?b)"
    have p: "?p < length cs" "k = ?b + int ?p" using 3 k(2) by linarith+
    then have "compile_in sb c0 (cs ! ?p) k B"
      using assms(1) unfolding pushed_def Let_def bt_def ns_def by metis
    then show thesis using compile [OF p] u by (auto simp: compile_in_def)
  qed
qed

lemma chain_path:
  assumes "chain_in bt ns i ord c C" "q < chain_len bt ns" "p < q"
  shows "(c + int p, c + int q) \<in> (edge_rel C)\<^sup>+"
  using assms(2,3)
proof (induction q)
  case 0
  then show ?case by simp
next
  case (Suc q)
  have e: "(c + int q, c + int (Suc q)) \<in> edge_rel C"
    using assms(1) Suc.prems(1) by (auto simp: chain_in_def add_ac)
  show ?case
  proof (cases "p = q")
    case True
    with e show ?thesis by auto
  next
    case False
    with Suc have "(c + int p, c + int q) \<in> (edge_rel C)\<^sup>+" by simp
    with e show ?thesis by auto
  qed
qed

lemma chain_path_summary:
  assumes "chains_in bt ns s ord c n C" "m < n" "p < chain_len bt ns"
  shows "(td_base bt ns c m + int p, s) \<in> (edge_rel C)\<^sup>+"
proof -
  let ?q = "chain_len bt ns - 1"
  have ch: "chain_in bt ns (int m) (int (ord ! m)) (td_base bt ns c m) C"
    and "(td_base bt ns c (Suc m) - 1, s) \<in> edge_rel C"
    using assms(1,2) by (auto simp: chains_in_def)
  moreover have "td_base bt ns c (Suc m) - 1 = td_base bt ns c m + int ?q"
    using assms(3) unfolding td_base_Suc [symmetric] by (simp add: of_nat_diff)
  ultimately have e: "(td_base bt ns c m + int ?q, s) \<in> edge_rel C" by simp
  show ?thesis
  proof (cases "p = ?q")
    case True
    with e show ?thesis by auto
  next
    case False
    with assms(3) have "p < ?q" "?q < chain_len bt ns" by auto
    from chain_path [OF ch this(2,1)] e show ?thesis by auto
  qed
qed

lemma chain_rank_mono:
  assumes "p \<le> q" "q < chain_len bt ns" "0 < ns"
  shows "rank (chain_task bt ns i p) \<le> rank (chain_task bt ns i q)"
proof (cases bt)
  case True
  have "rank (chain_task bt ns i n) = int n + 1" for n
    using True by (cases "even n") (auto simp: chain_task_def elim!: evenE oddE)
  then show ?thesis using assms(1) by simp
next
  case False
  with assms show ?thesis by (auto simp: chain_task_def chain_len_def)
qed

lemma chain_task_not:
  "task_type (chain_task bt ns i p) \<noteq> COMPILE" "task_type (chain_task bt ns i p) \<noteq> SUMMARY"
  "subtask (chain_task bt ns i p) = i"
  by (auto simp: chain_task_def)

lemma must_precede_chain:
  assumes "must_precede pps (chain_task bt ns i p) (chain_task bt ns i' q)"
  shows "i = i' \<and> rank (chain_task bt ns i p) < rank (chain_task bt ns i' q)"
  using assms by (auto simp: must_precede_def chain_task_def split: if_splits)

lemma chain_execute_pos:
  "task_type (chain_task bt ns i q) = EXECUTE \<Longrightarrow>
   q = ex_pos bt (stage (chain_task bt ns i q)) \<and> 0 \<le> stage (chain_task bt ns i q)"
  by (auto simp: chain_task_def ex_pos_def split: if_splits)

lemma chain_scoring_pos:
  "task_type (chain_task bt ns i q) = SCORING \<Longrightarrow> q < chain_len bt ns \<Longrightarrow> (if bt then 1 else ns) \<le> q"
  by (auto simp: chain_task_def chain_len_def Suc_le_eq odd_pos split: if_splits)

lemma compile_pos_le:
  assumes "must_precede (problem_prog_stages sb) (mk_task COMPILE (int (subtask_int s)) 0)
      (chain_task (judge_between_stages sb) (nat (stages sb)) i q)"
    and "sorted (problem_prog_stages sb)" "push_ok sb" "testdata sb \<noteq> []" "compile_stage sb s \<noteq> -1"
    and "q < chain_len (judge_between_stages sb) (nat (stages sb))"
  shows "compile_pos sb s \<le> q \<and> s \<noteq> CS_SUMMARY"
proof -
  let ?t = "chain_task (judge_between_stages sb) (nat (stages sb)) i q"
  consider (ex) "task_type ?t = EXECUTE" "s = (if stage ?t \<in> set (problem_prog_stages sb) then CS_PROBPROG else CS_USERPROG)"
    | (sc) "task_type ?t = SCORING" "s = CS_SPECJUDGE"
    using assms(1) chain_task_not
    by (auto simp: must_precede_def compile_subtask_int split: TaskType.splits if_splits)
  then show ?thesis
  proof cases
    case ex
    note q = chain_execute_pos [OF ex(1)]
    have "0 \<le> compile_stage sb s \<and> compile_stage sb s \<le> stage ?t"
    proof (cases "stage ?t \<in> set (problem_prog_stages sb)")
      case True
      then have s: "s = CS_PROBPROG" and "problem_prog_stages sb \<noteq> []" using ex(2) by auto
      then have "compile_stage sb s \<le> stage ?t"
        using True assms(2) by (cases "problem_prog_stages sb") (auto simp: first_prob_stage_def)
      with compile_stage_range [OF assms(3-5)] show ?thesis by simp
    next
      case False
      then have s: "s = CS_USERPROG" using ex(2) by auto
      have "first_non_prob_stage sb \<le> stage ?t"
      proof (cases "find (\<lambda>i. int i \<notin> set (problem_prog_stages sb)) [0 ..< nat (stages sb)]")
        case None
        then show ?thesis using q by (simp add: first_non_prob_stage_def)
      next
        case (Some j)
        then obtain m where m: "m < nat (stages sb)" "j = m"
            "\<forall>l < m. int l \<in> set (problem_prog_stages sb)"
          by (auto simp: find_Some_iff)
        have "\<not> nat (stage ?t) < m" using m(3) False q by auto
        then show ?thesis using Some m(2) q by (simp add: first_non_prob_stage_def) linarith
      qed
      with compile_stage_range [OF assms(3-5)] show ?thesis using s by simp
    qed
    moreover have "s \<noteq> CS_SUMMARY" "compile_pos sb s = ex_pos (judge_between_stages sb) (compile_stage sb s)"
      using ex(2) by auto
    moreover have "ex_pos bt j \<le> ex_pos bt j'" if "j \<le> j'" for bt j j'
      using that by (simp add: ex_pos_def nat_mono)
    ultimately show ?thesis using q by metis
  next
    case sc
    then show ?thesis using chain_scoring_pos [OF sc(1) assms(6)] by simp
  qed
qed

lemma compile_path_chain:
  assumes "pushed sb sid c0 cs B" "compile_in sb c0 s k B" "m < length (testdata sb)" "s \<noteq> CS_SUMMARY"
    and "compile_pos sb s \<le> q" "q < chain_len (judge_between_stages sb) (nat (stages sb))"
  shows "(k, td_base (judge_between_stages sb) (nat (stages sb)) (c0 + 1) m + int q) \<in> (edge_rel B)\<^sup>+"
proof -
  let ?b = "td_base (judge_between_stages sb) (nat (stages sb)) (c0 + 1) m"
  have "testdata sb \<noteq> []" using assms(3) by auto
  then have "?b + int (compile_pos sb s) \<in> set (compile_targets sb c0 s)"
    using assms(3,4) by (auto simp: compile_targets_def)
  then have e: "(k, ?b + int (compile_pos sb s)) \<in> edge_rel B" using assms(2) by (simp add: compile_in_def)
  have ch: "chain_in (judge_between_stages sb) (nat (stages sb)) (int m)
      (int (td_order (skip_group sb) (testdata sb) ! m)) ?b B"
    using assms(1,3) by (simp add: pushed_def Let_def chains_in_def)
  show ?thesis
  proof (cases "compile_pos sb s = q")
    case True
    with e show ?thesis by auto
  next
    case False
    with assms(5) have "compile_pos sb s < q" by simp
    from chain_path [OF ch assms(6) this] e show ?thesis by (metis trancl_into_trancl2)
  qed
qed

text \<open>Every compilation leads to the summary.\<close>

lemma compile_path_summary:
  assumes "pushed sb sid c0 cs B" "compile_in sb c0 s k B" "push_ok sb" "compile_stage sb s \<noteq> -1"
  shows "(k, c0) \<in> (edge_rel B)\<^sup>+"
proof (cases "testdata sb = [] \<or> s = CS_SUMMARY")
  case True
  then have "(k, c0) \<in> edge_rel B" using assms(2) by (auto simp: compile_in_def compile_targets_def)
  then show ?thesis by auto
next
  case False
  let ?L = "chain_len (judge_between_stages sb) (nat (stages sb))"
  have p: "compile_pos sb s < ?L" using compile_pos_range assms(3,4) False by blast
  have n: "0 < length (testdata sb)" using False by simp
  have s: "s \<noteq> CS_SUMMARY" using False by simp
  have ch: "chains_in (judge_between_stages sb) (nat (stages sb)) c0
      (td_order (skip_group sb) (testdata sb)) (c0 + 1) (length (testdata sb)) B"
    using assms(1) by (simp add: pushed_def Let_def)
  show ?thesis
    using compile_path_chain [OF assms(1,2) n s order_refl p] chain_path_summary [OF ch n p]
    by (rule trancl_trans)
qed

theorem pushed_order:
  assumes "pushed sb sid c0 cs B" "push_ok sb" "sorted (problem_prog_stages sb)"
    and "\<forall>s \<in> set cs. compile_stage sb s \<noteq> -1"
    and "entry_at B k a oa" "entry_at B l b ob" "must_precede (problem_prog_stages sb) a b"
  shows "(k, l) \<in> (edge_rel B)\<^sup>+"
proof -
  let ?bt = "judge_between_stages sb" and ?ns = "nat (stages sb)"
  have ch: "chains_in ?bt ?ns c0 (td_order (skip_group sb) (testdata sb)) (c0 + 1) (length (testdata sb)) B"
    using assms(1) by (simp add: pushed_def Let_def)
  have ns: "0 < ?ns" using assms(2) by (simp add: push_ok_def)
  show ?thesis
  proof (rule entry_location [OF assms(1,6)])
    assume l: "l = c0" "b = mk_task SUMMARY 0 0"
    show ?thesis
    proof (rule entry_location [OF assms(1,5)])
      assume "a = mk_task SUMMARY 0 0"
      with assms(7) l show ?thesis by (simp add: must_precede_def)
    next
      fix m p
      assume "m < length (testdata sb)" "p < chain_len ?bt ?ns" "k = td_base ?bt ?ns (c0 + 1) m + int p"
      with chain_path_summary [OF ch] l show ?thesis by blast
    next
      fix p
      assume "p < length cs" "compile_in sb c0 (cs ! p) k B"
      with compile_path_summary [OF assms(1) _ assms(2)] assms(4) l show ?thesis by auto
    qed
  next
    fix m q
    assume l: "m < length (testdata sb)" "q < chain_len ?bt ?ns" "l = td_base ?bt ?ns (c0 + 1) m + int q"
      "b = chain_task ?bt ?ns (int m) q"
    show ?thesis
    proof (rule entry_location [OF assms(1,5)])
      assume "a = mk_task SUMMARY 0 0"
      with assms(7) show ?thesis by (simp add: must_precede_def l(4) split: TaskType.splits)
    next
      fix m' p
      assume k: "m' < length (testdata sb)" "p < chain_len ?bt ?ns"
        "k = td_base ?bt ?ns (c0 + 1) m' + int p" "a = chain_task ?bt ?ns (int m') p"
      have "m' = m" and r: "rank a < rank b"
        using must_precede_chain [of "problem_prog_stages sb" ?bt ?ns "int m'" p "int m" q] assms(7) k(4) l(4) by auto
      then have "p < q"
        using chain_rank_mono [of q p ?bt ?ns "int m"] k(2,4) l(4) ns by (metis leD le_less_linear)
      moreover have "chain_in ?bt ?ns (int m) (int (td_order (skip_group sb) (testdata sb) ! m))
          (td_base ?bt ?ns (c0 + 1) m) B"
        using ch l(1) by (simp add: chains_in_def)
      ultimately show ?thesis using chain_path l(2,3) k(3) \<open>m' = m\<close> by metis
    next
      fix p
      assume k: "p < length cs" "a = mk_task COMPILE (int (subtask_int (cs ! p))) 0" "compile_in sb c0 (cs ! p) k B"
      have c: "compile_stage sb (cs ! p) \<noteq> -1" using assms(4) k(1) by auto
      have "testdata sb \<noteq> []" using l(1) by auto
      from compile_pos_le [OF assms(7) [unfolded k(2) l(4)] assms(3,2) this c l(2)]
      show ?thesis using compile_path_chain [OF assms(1) k(3) l(1) _ _ l(2)] l(3) by blast
    qed
  next
    fix p
    assume "b = mk_task COMPILE (int (subtask_int (cs ! p))) 0"
    with assms(7) show ?thesis by (simp add: must_precede_def split: TaskType.splits)
  qed
qed

end
