(* ===== verification/SchedInv.thy ===== *)
theory SchedInv
  imports Handlers PushInv
begin

text \<open>
  The invariant of the scheduler's state between two rounds of \<open>WorkLoop\<close>, relative to the set of
  running tasks: the graph is sound, every task belongs to a queued submission, tasks that must wait
  are reachable from those they wait for, and each testdata whose first execution is over has a
  result unless it was skipped. Running a handler and removing a task keep it.
\<close>

section \<open>Paths\<close>

lemma path_not_ready:
  assumes "graph_ok B" "(a, b) \<in> (edge_rel B)\<^sup>+"
  shows "b \<notin> ready B"
proof -
  obtain c where "(c, b) \<in> edge_rel B" using assms(2) by (meson tranclD2)
  then show ?thesis using graph_ok_pred [OF assms(1)] by (auto simp: edge_rel_def)
qed

lemma path_remove:
  assumes "(a, b) \<in> (edge_rel B)\<^sup>+" "a \<noteq> tid" "\<And>x. (x, tid) \<notin> edge_rel B"
    and "\<And>x y. (x, y) \<in> edge_rel B \<Longrightarrow> x \<noteq> tid \<Longrightarrow> (x, y) \<in> edge_rel C"
  shows "(a, b) \<in> (edge_rel C)\<^sup>+"
proof -
  from assms(1) have "(a, b) \<in> (edge_rel C)\<^sup>+ \<and> b \<noteq> tid"
  proof induction
    case (base y)
    then show ?case using assms(2-4) by blast
  next
    case (step y z)
    then have "(y, z) \<in> edge_rel C" "z \<noteq> tid" using assms(3,4) by blast+
    with step.IH show ?case by (meson trancl_into_trancl)
  qed
  then show ?thesis by blast
qed

lemma static_edge: "map_option static (C k) = map_option static (B k) \<Longrightarrow> (k, m) \<in> edge_rel C \<longleftrightarrow> (k, m) \<in> edge_rel B"
  by (cases "B k"; cases "C k") (auto simp: edge_rel_def dest: static_eq)

lemma static_Some:
  "map_option static (C k) = map_option static (B k) \<Longrightarrow> C k = Some t \<Longrightarrow>
   \<exists>u. B k = Some u \<and> te_submission u = te_submission t \<and> te_task u = te_task t \<and>
     te_priority u = te_priority t \<and> task_order u = task_order t \<and> edges u = edges t"
  by (cases "B k") (auto dest: static_eq)

section \<open>The invariant\<close>

definition sub_ok :: "int \<Rightarrow> Submission \<Rightarrow> bool" where
  "sub_ok k sb \<longleftrightarrow>
     submission_internal_id sb = k \<and> push_ok sb \<and> sorted (problem_prog_stages sb) \<and> groups_ok sb"

definition tasks_ok :: "JState \<Rightarrow> bool" where
  "tasks_ok st \<longleftrightarrow>
     (\<forall>tid t. task_list st tid = Some t \<longrightarrow> tid < task_count st \<and>
        (\<exists>sr. submission_list st (te_submission t) = Some sr \<and> task_wf (sub sr) (te_task t)))"

definition order_ok :: "JState \<Rightarrow> bool" where
  "order_ok st \<longleftrightarrow>
     (\<forall>a b ta tb sr. task_list st a = Some ta \<and> task_list st b = Some tb \<and>
        te_submission ta = te_submission tb \<and> submission_list st (te_submission ta) = Some sr \<and>
        must_precede (problem_prog_stages (sub sr)) (te_task ta) (te_task tb) \<longrightarrow>
        (a, b) \<in> (edge_rel (task_list st))\<^sup>+)"

definition summary_of :: "JState \<Rightarrow> int \<Rightarrow> int \<Rightarrow> bool" where
  "summary_of st k tid \<longleftrightarrow>
     (\<exists>t. task_list st tid = Some t \<and> te_submission t = k \<and> task_type (te_task t) = SUMMARY)"

definition subs_ok :: "JState \<Rightarrow> bool" where
  "subs_ok st \<longleftrightarrow>
     (\<forall>k sr. submission_list st k = Some sr \<longrightarrow>
        sub_ok k (sub sr) \<and> length (td_results (result sr)) \<le> length (testdata (sub sr)) \<and>
        (\<exists>!tid. summary_of st k tid))"

definition first_execution :: "JState \<Rightarrow> int \<Rightarrow> nat \<Rightarrow> bool" where
  "first_execution st k i \<longleftrightarrow>
     (\<exists>tid t. task_list st tid = Some t \<and> te_submission t = k \<and> te_task t = mk_task EXECUTE (int i) 0)"

definition has_result :: "JState \<Rightarrow> int \<Rightarrow> SubmissionAndResult \<Rightarrow> nat \<Rightarrow> bool" where
  "has_result st k sr i \<longleftrightarrow>
     i < length (td_results (result sr)) \<or> verdict (result sr) \<noteq> NUL \<or>
     IsCancelled st k (td_groups (testdata (sub sr) ! i))"

definition results_ok :: "JState \<Rightarrow> bool" where
  "results_ok st \<longleftrightarrow>
     (\<forall>k sr i. submission_list st k = Some sr \<and> i < length (testdata (sub sr)) \<and>
        \<not> first_execution st k i \<longrightarrow> has_result st k sr i)"

definition running_ok :: "JState \<Rightarrow> int set \<Rightarrow> bool" where
  "running_ok st R \<longleftrightarrow>
     (\<forall>tid \<in> R. \<forall>t sr. task_list st tid = Some t \<and> submission_list st (te_submission t) = Some sr \<and>
        task_type (te_task t) = SCORING \<longrightarrow> nat (subtask (te_task t)) < length (td_results (result sr)))"

text \<open>
  \<open>Q\<close> is the set of ready tasks that are not in the queue: the running ones and, within a round, the
  one at hand. \<open>R\<close> is the set of running tasks.
\<close>

definition jinv :: "int set \<Rightarrow> int set \<Rightarrow> JState \<Rightarrow> bool" where
  "jinv Q R st \<longleftrightarrow>
     graph_ok (task_list st) \<and> queue_ok st Q \<and> tasks_ok st \<and> order_ok st \<and> subs_ok st \<and>
     results_ok st \<and> running_ok st R"

lemma jinvD:
  assumes "jinv Q R st"
  shows "graph_ok (task_list st)" "queue_ok st Q" "tasks_ok st" "order_ok st" "subs_ok st"
    "results_ok st" "running_ok st R"
  using assms by (auto simp: jinv_def)

lemma jinv_init: "jinv {} {} JState_init"
  by (simp add: jinv_def JState_init_def queue_ok_def tasks_ok_def order_ok_def subs_ok_def
      results_ok_def running_ok_def ready_def)

lemma running_ready: "queue_ok st R \<Longrightarrow> tid \<in> R \<Longrightarrow> tid \<in> ready (task_list st)"
  by (auto simp: queue_ok_def)

text \<open>A ready task is preceded by no task of its submission.\<close>

lemma ready_first:
  assumes "graph_ok (task_list st)" "order_ok st" "b \<in> ready (task_list st)"
    "task_list st a = Some ta" "task_list st b = Some tb" "te_submission ta = te_submission tb"
    "submission_list st (te_submission ta) = Some sr"
  shows "\<not> must_precede (problem_prog_stages (sub sr)) (te_task ta) (te_task tb)"
  using assms path_not_ready unfolding order_ok_def by blast

text \<open>A task of a testdata that is ready, but not its first execution, finds a result or a skip.\<close>

lemma ready_has_result:
  assumes "jinv Q R st" "tid \<in> ready (task_list st)" "task_list st tid = Some t"
    and "submission_list st (te_submission t) = Some sr"
    and "task_type (te_task t) = SCORING \<and> 0 \<le> stage (te_task t) \<or> task_type (te_task t) = EXECUTE \<and> 0 < stage (te_task t)"
  shows "has_result st (te_submission t) sr (nat (subtask (te_task t)))"
proof -
  let ?i = "nat (subtask (te_task t))"
  have w: "task_wf (sub sr) (te_task t)" using jinvD(3) [OF assms(1)] assms(3,4) by (force simp: tasks_ok_def)
  have "\<not> first_execution st (te_submission t) ?i"
  proof
    assume "first_execution st (te_submission t) ?i"
    then obtain a ta where a: "task_list st a = Some ta" "te_submission ta = te_submission t"
        "te_task ta = mk_task EXECUTE (int ?i) 0"
      by (auto simp: first_execution_def)
    have "\<not> must_precede (problem_prog_stages (sub sr)) (te_task ta) (te_task t)"
      by (rule ready_first [OF jinvD(1,4) [OF assms(1)] assms(2) a(1) assms(3) a(2)]) (use a(2) assms(4) in simp)
    then show False using a(3) assms(5) w by (auto simp: must_precede_def task_wf_def)
  qed
  then show ?thesis
    using jinvD(6) [OF assms(1)] assms(4,5) w by (auto simp: results_ok_def task_wf_def)
qed

section \<open>Handlers\<close>

text \<open>A handler that only grows its submission's result keeps everything but the running tasks' part.\<close>

lemma has_result_grows:
  "has_result st k sr i \<Longrightarrow> grows st st' \<Longrightarrow> sr_le sr sr' \<Longrightarrow> has_result (put_submission k' sr'' st') k sr' i"
  using grows_IsCancelled [of st st' k] unfolding has_result_def sr_le_def
  by (auto simp: IsCancelled_def put_submission_def)

lemma jinv_put:
  assumes inv: "jinv Q R st" and k: "submission_list st k = Some sr" and g: "grows st st'" and le: "sr_le sr sr'"
  shows "jinv Q R (put_submission k sr' st')"
proof -
  let ?s = "put_submission k sr' st'"
  note f = grows_fields [OF g]
  have tl: "task_list ?s = task_list st" and q: "task_queue ?s = task_queue st"
    and sl: "submission_list ?s = (submission_list st)(k \<mapsto> sr')" and tc: "task_count ?s = task_count st"
    using f by (simp_all add: put_submission_def)
  have s: "sub sr' = sub sr" using le by (simp add: sr_le_def)
  have "queue_ok ?s Q" using jinvD(2) [OF inv] by (simp add: queue_ok_def tl q)
  moreover have "tasks_ok ?s"
    using jinvD(3) [OF inv] k s unfolding tasks_ok_def tl sl tc by (force split: if_splits)
  moreover have "order_ok ?s"
    using jinvD(4) [OF inv] k s unfolding order_ok_def tl sl by (auto split: if_splits)
  moreover have "subs_ok ?s"
  proof -
    have "summary_of ?s = summary_of st" by (simp add: summary_of_def tl fun_eq_iff)
    then show ?thesis using jinvD(5) [OF inv] k s le unfolding subs_ok_def sl
      by (auto simp: sr_le_def split: if_splits)
  qed
  moreover have "results_ok ?s"
    unfolding results_ok_def
  proof (intro allI impI)
    fix k1 sr1 i
    assume a: "submission_list ?s k1 = Some sr1 \<and> i < length (testdata (sub sr1)) \<and> \<not> first_execution ?s k1 i"
    then have n: "\<not> first_execution st k1 i" by (simp add: first_execution_def tl)
    show "has_result ?s k1 sr1 i"
    proof (cases "k1 = k")
      case True
      then have "sr1 = sr'" using a sl by simp
      moreover have "has_result st k sr i"
        using jinvD(6) [OF inv] k n True a s \<open>sr1 = sr'\<close> by (auto simp: results_ok_def)
      ultimately show ?thesis using has_result_grows g le True by blast
    next
      case False
      then have "has_result st k1 sr1 i" using jinvD(6) [OF inv] n a sl by (auto simp: results_ok_def)
      then show ?thesis using has_result_grows [OF _ g sr_le_refl] by blast
    qed
  qed
  moreover have "running_ok ?s R"
    using jinvD(7) [OF inv] k le unfolding running_ok_def tl sl
    by (fastforce simp: sr_le_def split: if_splits)
  ultimately show ?thesis using jinvD(1) [OF inv] by (simp add: jinv_def tl)
qed

section \<open>Taking a task from the queue\<close>

definition pop_task :: "int \<Rightarrow> JState \<Rightarrow> JState" where
  "pop_task tid st = st\<lparr>task_queue := remove1 tid (task_queue st)\<rparr>"

lemma pop_fields [simp]:
  "task_list (pop_task tid st) = task_list st" "submission_list (pop_task tid st) = submission_list st"
  "handle_map (pop_task tid st) = handle_map st" "task_count (pop_task tid st) = task_count st"
  "cancelled_list (pop_task tid st) = cancelled_list st" "cancelled_group (pop_task tid st) = cancelled_group st"
  by (simp_all add: pop_task_def)

lemma has_result_cong:
  "cancelled_list st' = cancelled_list st \<Longrightarrow> cancelled_group st' k = cancelled_group st k \<Longrightarrow>
   has_result st' k sr i = has_result st k sr i"
  by (simp add: has_result_def IsCancelled_def)

lemma jinv_pop:
  assumes "jinv Q R st" "tid \<in> set (task_queue st)"
  shows "jinv (insert tid Q) R (pop_task tid st)" "tid \<notin> Q"
proof -
  note q = jinvD(2) [OF assms(1)]
  show "tid \<notin> Q" using q assms(2) by (auto simp: queue_ok_def)
  have "queue_ok (pop_task tid st) (insert tid Q)"
    using q assms(2) by (auto simp: queue_ok_def pop_task_def set_remove1_eq distinct_remove1)
  moreover have "first_execution (pop_task tid st) = first_execution st" "summary_of (pop_task tid st) = summary_of st"
    by (simp_all add: first_execution_def summary_of_def fun_eq_iff)
  ultimately show "jinv (insert tid Q) R (pop_task tid st)"
    using assms(1) has_result_cong [of "pop_task tid st" st]
    by (simp add: jinv_def tasks_ok_def order_ok_def subs_ok_def results_ok_def running_ok_def)
qed

section \<open>Removing a task\<close>

lemma removed_entry:
  assumes "\<And>k. map_option static (C k) = (if k = tid then None else map_option static (B k))" "C k = Some t"
  shows "k \<noteq> tid \<and> (\<exists>u. B k = Some u \<and> te_submission u = te_submission t \<and> te_task u = te_task t)"
  using assms(1) [of k] assms(2) static_Some [of C k B t] by (auto split: if_splits)

lemma removed_kept:
  assumes "\<And>k. map_option static (C k) = (if k = tid then None else map_option static (B k))" "B k = Some u" "k \<noteq> tid"
  shows "\<exists>t. C k = Some t \<and> te_submission t = te_submission u \<and> te_task t = te_task u"
  using assms(1) [of k] assms(2,3) static_Some [of B k C u] by (auto split: if_splits)

lemma removed_path:
  assumes s: "\<And>k. map_option static (C k) = (if k = tid then None else map_option static (B k))"
    and "graph_ok B" "tid \<in> ready B" "(a, b) \<in> (edge_rel B)\<^sup>+" "a \<noteq> tid"
  shows "(a, b) \<in> (edge_rel C)\<^sup>+"
proof (rule path_remove [OF assms(4,5)])
  show "(x, tid) \<notin> edge_rel B" for x
    using graph_ok_pred [OF assms(2)] assms(3) by (auto simp: edge_rel_def)
  show "(x, y) \<in> edge_rel C" if "(x, y) \<in> edge_rel B" "x \<noteq> tid" for x y
    using static_edge [of C x B y] s [of x] that by simp
qed

text \<open>
  The state \<open>st1\<close> after the handler of the last task of the submissions in \<open>D\<close> (none, or the one whose
  summary is done): these are gone, the others untouched.
\<close>

definition dropped :: "int set \<Rightarrow> JState \<Rightarrow> JState \<Rightarrow> bool" where
  "dropped D st st1 \<longleftrightarrow>
     task_list st1 = task_list st \<and> task_queue st1 = task_queue st \<and> task_count st1 = task_count st \<and>
     handle_map st1 = handle_map st \<and> cancelled_list st1 = cancelled_list st - D \<and>
     (\<forall>k. k \<notin> D \<longrightarrow> cancelled_group st1 k = cancelled_group st k) \<and>
     submission_list st1 = submission_list st |` (- D)"

lemma dropped_refl: "dropped {} st st"
  by (simp add: dropped_def restrict_map_def)

lemma dropped_has_result: "dropped D st st1 \<Longrightarrow> k \<notin> D \<Longrightarrow> has_result st1 k sr i = has_result st k sr i"
  by (auto simp: dropped_def has_result_def IsCancelled_def)

lemma jinv_remove:
  assumes inv: "jinv (insert tid Q) R st" and Q: "tid \<notin> Q" and t: "task_list st tid = Some t"
    and D: "dropped D st st1" "task_type (te_task t) = SUMMARY \<Longrightarrow> te_submission t \<in> D"
      "\<And>x u. task_list st x = Some u \<Longrightarrow> te_submission u \<in> D \<Longrightarrow> x = tid"
    and res: "\<And>i sr. te_task t = mk_task EXECUTE (int i) 0 \<Longrightarrow> submission_list st (te_submission t) = Some sr \<Longrightarrow>
        has_result st (te_submission t) sr i"
  shows "\<exists>st'. Remove t st1 = Inr st' \<and> jinv Q (R - {tid}) st' \<and>
    dom (task_list st') = dom (task_list st) - {tid} \<and> submission_list st' = submission_list st |` (- D) \<and>
    handle_map st' = handle_map st \<and> task_count st' = task_count st"
proof -
  note d = D(1) [unfolded dropped_def]
  have q1: "queue_ok st1 (insert tid Q)" and g1: "graph_ok (task_list st1)" and t1: "task_list st1 tid = Some t"
    using jinvD(1,2) [OF inv] d t by (simp_all add: queue_ok_def)
  obtain tl q where r: "Remove t st1 = Inr (st1\<lparr>task_list := tl, task_queue := q\<rparr>)"
    and g: "graph_ok tl" and qo: "queue_ok (st1\<lparr>task_list := tl, task_queue := q\<rparr>) Q"
    and s': "\<forall>k. map_option static (tl k) = (if k = tid then None else map_option static (task_list st1 k))"
    using Remove_ok [OF g1 q1 Q t1] by blast
  have s: "map_option static (tl k) = (if k = tid then None else map_option static (task_list st k))" for k
    using s' d by simp
  let ?s = "st1\<lparr>task_list := tl, task_queue := q\<rparr>"
  have rd: "tid \<in> ready (task_list st)" using running_ready [OF jinvD(2) [OF inv], of tid] by simp
  note E = removed_entry [OF s] and K = removed_kept [OF s]
  have sl: "submission_list ?s k = (if k \<in> D then None else submission_list st k)" for k
    using d by (simp add: restrict_map_def)
  have ED: "te_submission u \<notin> D" if "tl x = Some u" for x u
    using E [OF that] D(3) by auto
  have "tasks_ok ?s" unfolding tasks_ok_def
  proof (intro allI impI)
    fix k u
    assume "task_list ?s k = Some u"
    then have u: "tl k = Some u" by simp
    with E obtain v where "task_list st k = Some v" "te_submission v = te_submission u" "te_task v = te_task u"
      by blast
    with jinvD(3) [OF inv] d ED [OF u] show "k < task_count ?s \<and>
        (\<exists>sr. submission_list ?s (te_submission u) = Some sr \<and> task_wf (sub sr) (te_task u))"
      unfolding sl by (fastforce simp: tasks_ok_def)
  qed
  moreover have "order_ok ?s" unfolding order_ok_def
  proof (intro allI impI)
    fix a b ta tb sr
    assume a: "task_list ?s a = Some ta \<and> task_list ?s b = Some tb \<and> te_submission ta = te_submission tb \<and>
      submission_list ?s (te_submission ta) = Some sr \<and>
      must_precede (problem_prog_stages (sub sr)) (te_task ta) (te_task tb)"
    then have "tl a = Some ta" "tl b = Some tb" by simp_all
    then obtain ua ub where "task_list st a = Some ua" "te_submission ua = te_submission ta" "te_task ua = te_task ta"
        "task_list st b = Some ub" "te_submission ub = te_submission tb" "te_task ub = te_task tb" "a \<noteq> tid"
      using E by metis
    moreover have "submission_list st (te_submission ta) = Some sr" using a unfolding sl by (auto split: if_splits)
    ultimately have "(a, b) \<in> (edge_rel (task_list st))\<^sup>+"
      using jinvD(4) [OF inv] a unfolding order_ok_def by simp
    then show "(a, b) \<in> (edge_rel (task_list ?s))\<^sup>+"
      using removed_path [OF s jinvD(1) [OF inv] rd] \<open>a \<noteq> tid\<close> by simp
  qed
  moreover have "subs_ok ?s"
  proof -
    have sm: "summary_of ?s k x = summary_of st k x" if k: "k \<notin> D" for k x
    proof
      assume "summary_of ?s k x"
      then obtain u where "tl x = Some u" "te_submission u = k" "task_type (te_task u) = SUMMARY"
        by (auto simp: summary_of_def)
      with E [of x u] show "summary_of st k x" by (auto simp: summary_of_def)
    next
      assume "summary_of st k x"
      then obtain u where "task_list st x = Some u" "te_submission u = k" "task_type (te_task u) = SUMMARY"
        by (auto simp: summary_of_def)
      moreover from this have "x \<noteq> tid" using t D(2) k by auto
      ultimately show "summary_of ?s k x" using K [of x u] by (auto simp: summary_of_def)
    qed
    show ?thesis unfolding subs_ok_def sl
    proof (intro allI impI)
      fix k sr
      assume k: "(if k \<in> D then None else submission_list st k) = Some sr"
      then have "k \<notin> D" "submission_list st k = Some sr" by (auto split: if_splits)
      with jinvD(5) [OF inv] sm show "sub_ok k (sub sr) \<and> length (td_results (result sr)) \<le> length (testdata (sub sr)) \<and>
          (\<exists>!x. summary_of ?s k x)"
        by (simp add: subs_ok_def)
    qed
  qed
  moreover have "results_ok ?s" unfolding results_ok_def
  proof (intro allI impI)
    fix k sr i
    assume a: "submission_list ?s k = Some sr \<and> i < length (testdata (sub sr)) \<and> \<not> first_execution ?s k i"
    then have k: "k \<notin> D" "submission_list st k = Some sr" unfolding sl by (auto split: if_splits)
    have c: "has_result ?s k sr i = has_result st k sr i"
      using dropped_has_result [OF D(1) k(1)] has_result_cong [of ?s st1 k] by simp
    show "has_result ?s k sr i"
    proof (cases "first_execution st k i")
      case True
      then obtain x u where x: "task_list st x = Some u" "te_submission u = k" "te_task u = mk_task EXECUTE (int i) 0"
        by (auto simp: first_execution_def)
      have "x = tid"
        using a K [of x u] x by (auto simp: first_execution_def)
      then have "u = t" using x t by simp
      then show ?thesis using res [of i sr] x k c by simp
    next
      case False
      then show ?thesis using jinvD(6) [OF inv] a k c by (simp add: results_ok_def)
    qed
  qed
  moreover have "running_ok ?s (R - {tid})" unfolding running_ok_def
  proof (intro ballI allI impI)
    fix x u sr
    assume x: "x \<in> R - {tid}" and a: "task_list ?s x = Some u \<and> submission_list ?s (te_submission u) = Some sr \<and>
        task_type (te_task u) = SCORING"
    then have "tl x = Some u" "submission_list st (te_submission u) = Some sr"
      unfolding sl by (auto split: if_splits)
    with E obtain v where "task_list st x = Some v" "te_submission v = te_submission u" "te_task v = te_task u"
      by blast
    with jinvD(7) [OF inv] x a \<open>submission_list st (te_submission u) = Some sr\<close>
    show "nat (subtask (te_task u)) < length (td_results (result sr))"
      unfolding running_ok_def by fastforce
  qed
  ultimately have "jinv Q (R - {tid}) ?s" using g qo by (simp add: jinv_def)
  moreover have "dom tl = dom (task_list st) - {tid}" using E K by fast
  ultimately show ?thesis using r d by (intro exI [of _ ?s]) simp
qed

text \<open>When the summary of a submission is ready, it is the last task of it.\<close>

lemma summary_last:
  assumes inv: "jinv Q R st" and rd: "tid \<in> ready (task_list st)" and t: "task_list st tid = Some t"
    and sm: "task_type (te_task t) = SUMMARY" and x: "task_list st x = Some u" "te_submission u = te_submission t"
  shows "x = tid"
proof (rule ccontr)
  assume ne: "x \<noteq> tid"
  obtain sr where sr: "submission_list st (te_submission t) = Some sr"
    using jinvD(3) [OF inv] t by (force simp: tasks_ok_def)
  have "\<not> must_precede (problem_prog_stages (sub sr)) (te_task u) (te_task t)"
    by (rule ready_first [OF jinvD(1,4) [OF inv] rd x(1) t x(2)]) (simp add: x(2) sr)
  then have "task_type (te_task u) = SUMMARY" using sm by (auto simp: must_precede_def split: TaskType.splits)
  then have "summary_of st (te_submission t) x" "summary_of st (te_submission t) tid"
    using x t sm by (auto simp: summary_of_def)
  then show False using jinvD(5) [OF inv] sr ne unfolding subs_ok_def by blast
qed

section \<open>One task\<close>

lemma jinv_running: "jinv Q R st \<Longrightarrow> running_ok st R' \<Longrightarrow> jinv Q R' st"
  by (simp add: jinv_def)

lemma running_ok_insert:
  assumes "running_ok st R" "task_list st tid = Some t" "submission_list st (te_submission t) = Some sr"
    and "task_type (te_task t) = SCORING \<Longrightarrow> nat (subtask (te_task t)) < length (td_results (result sr))"
  shows "running_ok st (insert tid R)"
  using assms by (auto simp: running_ok_def)

text \<open>The task at hand in a round: taken from the queue or the running tasks, with its submission.\<close>

definition at_hand :: "int set \<Rightarrow> int set \<Rightarrow> JState \<Rightarrow> int \<Rightarrow> TaskEntry \<Rightarrow> SubmissionAndResult \<Rightarrow> bool" where
  "at_hand Q R st tid t sr \<longleftrightarrow>
     jinv (insert tid Q) R st \<and> tid \<notin> Q \<and> task_list st tid = Some t \<and>
     submission_list st (te_submission t) = Some sr"

lemma at_handD:
  assumes "at_hand Q R st tid t sr"
  shows "jinv (insert tid Q) R st" "tid \<notin> Q" "task_list st tid = Some t"
    "submission_list st (te_submission t) = Some sr" "tid \<in> ready (task_list st)" "task_wf (sub sr) (te_task t)"
proof -
  show inv: "jinv (insert tid Q) R st" and "tid \<notin> Q" and entry: "task_list st tid = Some t"
    and owner: "submission_list st (te_submission t) = Some sr"
    using assms by (simp_all add: at_hand_def)
  show "tid \<in> ready (task_list st)" using running_ready [OF jinvD(2) [OF inv], of tid] by simp
  show "task_wf (sub sr) (te_task t)" using jinvD(3) [OF inv] entry owner by (force simp: tasks_ok_def)
qed

lemma at_hand_sub:
  assumes h: "at_hand Q R st tid t sr"
  shows "submission_internal_id (sub sr) = te_submission t"
  "length (td_results (result sr)) \<le> length (testdata (sub sr))" "groups_ok (sub sr)"
  using jinvD(5) [OF at_handD(1) [OF h]] at_handD(4) [OF h] by (auto simp: subs_ok_def sub_ok_def)

lemma at_hand_result:
  assumes h: "at_hand Q R st tid t sr"
    and "task_type (te_task t) = SCORING \<or> task_type (te_task t) = EXECUTE \<and> 0 < stage (te_task t)"
  shows "has_result st (te_submission t) sr (nat (subtask (te_task t)))"
  by (rule ready_has_result [OF at_handD(1,5,3,4) [OF h]])
    (use assms(2) at_handD(6) [OF h] in \<open>auto simp: task_wf_def\<close>)

lemma setup_total:
  assumes h: "at_hand Q R st tid t sr" and r: "run_setup cfg fs sr t st = Inl e"
  shows "e = FsError \<or> e = LengthError"
proof -
  note wf = at_handD(6) [OF h] and sub_facts = at_hand_sub [OF h] and result_there = at_hand_result [OF h]
  note assms = r
  show ?thesis
proof (cases "task_type (te_task t)")
  case COMPILE
  with assms show ?thesis by (simp add: run_setup_def split: prod.splits)
next
  case EXECUTE
  then have e: "SetupExecute cfg fs sr t st = Inl e"
    using assms by (auto simp: run_setup_def and_then_def split: sum.splits)
  have "stage (te_task t) \<le> 0 \<or> nat (subtask (te_task t)) < length (td_results (result sr)) \<or>
      verdict (result sr) \<noteq> NUL \<or>
      IsCancelled st (submission_internal_id (sub sr)) (td_groups (testdata (sub sr) ! nat (subtask (te_task t))))"
    using result_there EXECUTE sub_facts(1) by (auto simp: has_result_def not_le)
  from SetupExecute_total [OF wf EXECUTE this e] show ?thesis ..
next
  case SCORING
  have "nat (subtask (te_task t)) < length (td_results (result sr)) \<or> verdict (result sr) \<noteq> NUL \<or>
      IsCancelled st (submission_internal_id (sub sr)) (td_groups (testdata (sub sr) ! nat (subtask (te_task t))))"
    using result_there SCORING sub_facts(1) by (simp add: has_result_def)
  from SetupScoring_total [OF wf SCORING this, of cfg fs] assms SCORING show ?thesis by (simp add: run_setup_def)
next
  case SUMMARY
  then show ?thesis using assms SetupSummary_total [OF sub_facts(2)] by (auto simp: run_setup_def)
qed
qed

lemma setup_result:
  assumes h: "at_hand Q R st tid t sr" and su: "run_setup cfg fs sr t st = Inr (b, sr', st')"
  defines "s \<equiv> put_submission (te_submission t) sr' st'"
  shows "jinv (insert tid Q) R s" "task_list s tid = Some t" "submission_list s (te_submission t) = Some sr'"
    "b \<Longrightarrow> jinv (insert tid Q) (insert tid R) s"
    "\<not> b \<Longrightarrow> te_task t = mk_task EXECUTE (int i) 0 \<Longrightarrow> has_result s (te_submission t) sr' i"
    "task_list s = task_list st" "submission_list s = (submission_list st)(te_submission t \<mapsto> sr')"
    "handle_map s = handle_map st" "task_count s = task_count st" "sub sr' = sub sr"
proof -
  note inv = at_handD(1) [OF h] and entry = at_handD(3) [OF h] and owner = at_handD(4) [OF h]
  note sub_facts = at_hand_sub [OF h]
  note F = run_setup_frame [OF su]
  note f = grows_fields [OF F(1)]
  show 1: "jinv (insert tid Q) R s" unfolding s_def by (rule jinv_put [OF inv owner F])
  show 2: "task_list s tid = Some t" "submission_list s (te_submission t) = Some sr'"
    using f entry by (simp_all add: s_def put_submission_def)
  show "task_list s = task_list st" "submission_list s = (submission_list st)(te_submission t \<mapsto> sr')"
    "handle_map s = handle_map st" "task_count s = task_count st"
    using f by (simp_all add: s_def put_submission_def)
  show "sub sr' = sub sr" using F(2) by (simp add: sr_le_def)
  show "b \<Longrightarrow> jinv (insert tid Q) (insert tid R) s"
  proof (rule jinv_running [OF 1 running_ok_insert [OF jinvD(7) [OF 1] 2]])
    assume b: b and sc: "task_type (te_task t) = SCORING"
    then have "SetupScoring cfg fs sr t st = Inr (b, sr', st')" using su by (simp add: run_setup_def)
    from SetupScoring_frame(3) [OF this b] show "nat (subtask (te_task t)) < length (td_results (result sr'))" .
  qed
  assume b: "\<not> b" and ex: "te_task t = mk_task EXECUTE (int i) 0"
  then have "SetupExecute cfg fs sr t st = Inr (False, st')" and "sr' = sr"
    using su by (auto simp: run_setup_def and_then_Inr)
  from SetupExecute_skip [OF this(1)] ex have "has_result st (te_submission t) sr i"
    using sub_facts(1) by (simp add: has_result_def)
  then show "has_result s (te_submission t) sr' i"
    unfolding s_def using has_result_grows [OF _ F] by blast
qed

end
