(* ===== verification/Rounds.thy ===== *)
theory Rounds
  imports SchedInv
begin

text \<open>
  \<open>FinalizeTask\<close> and \<open>DispatchTask\<close> keep the scheduler's invariant and fail only where a file-system
  query or the printing of a score does: no vector, map or iterator is used out of range.
\<close>

section \<open>Finalizing\<close>

lemma restrict_compl_single: "m |` (- {k}) = m(k := None)"
  by (auto simp: restrict_map_def fun_eq_iff)

lemma FinalizeSummary_dropped:
  assumes "FinalizeSummary cfg fs sr task cres skipped st = Inr st1" "submission_internal_id (sub sr) = k"
  shows "dropped {k} st st1"
  using FinalizeSummary_frame [OF assms(1)] assms(2)
  by (simp add: dropped_def restrict_compl_single)

text \<open>What remains of the submissions after a task.\<close>

definition subs_after :: "TaskEntry \<Rightarrow> (int \<rightharpoonup> SubmissionAndResult) \<Rightarrow> (int \<rightharpoonup> SubmissionAndResult) \<Rightarrow> bool" where
  "subs_after t m m' \<longleftrightarrow>
     (if task_type (te_task t) = SUMMARY then m' = m(te_submission t := None)
      else dom m' = dom m \<and> (\<forall>k. map_option sub (m' k) = map_option sub (m k)))"

definition finished_task :: "int set \<Rightarrow> int set \<Rightarrow> int \<Rightarrow> TaskEntry \<Rightarrow> JState \<Rightarrow> JState \<Rightarrow> bool" where
  "finished_task Q R tid t st st' \<longleftrightarrow>
     jinv Q (R - {tid}) st' \<and> dom (task_list st') = dom (task_list st) - {tid} \<and>
     subs_after t (submission_list st) (submission_list st') \<and>
     handle_map st' = handle_map st \<and> task_count st' = task_count st"

lemma finish_summary:
  assumes h: "at_hand Q R st tid t sr" and sm: "task_type (te_task t) = SUMMARY"
  shows "\<exists>st'. FinalizeTask cfg fs tid cres skipped st = Inr st' \<and> finished_task Q R tid t st st'"
proof -
  note H = at_handD [OF h] and S = at_hand_sub [OF h]
  obtain st1 where st1: "FinalizeSummary cfg fs sr t cres skipped st = Inr st1"
    using FinalizeSummary_total [OF S(2,3)] by blast
  note D = FinalizeSummary_dropped [OF st1 S(1)]
  have "\<exists>st'. Remove t st1 = Inr st' \<and> jinv Q (R - {tid}) st' \<and>
      dom (task_list st') = dom (task_list st) - {tid} \<and>
      submission_list st' = submission_list st |` (- {te_submission t}) \<and>
      handle_map st' = handle_map st \<and> task_count st' = task_count st"
    by (rule jinv_remove [OF H(1-3) D]) (use summary_last [OF H(1,5,3) sm] sm in \<open>auto\<close>)
  then show ?thesis
    using H(3,4) sm st1
    by (auto simp: FinalizeTask_def run_finalize_def finished_task_def subs_after_def restrict_compl_single)
qed

lemma finish_skipped:
  assumes h: "at_hand Q R st tid t sr" and ns: "task_type (te_task t) \<noteq> SUMMARY"
    and res: "\<And>i. te_task t = mk_task EXECUTE (int i) 0 \<Longrightarrow> has_result st (te_submission t) sr i"
  shows "\<exists>st'. FinalizeTask cfg fs tid cres True st = Inr st' \<and> finished_task Q R tid t st st'"
proof -
  note H = at_handD [OF h]
  have "\<exists>st'. Remove t st = Inr st' \<and> jinv Q (R - {tid}) st' \<and>
      dom (task_list st') = dom (task_list st) - {tid} \<and>
      submission_list st' = submission_list st |` (- {}) \<and>
      handle_map st' = handle_map st \<and> task_count st' = task_count st"
    by (rule jinv_remove [OF H(1-3) dropped_refl]) (use ns res H(4) in auto)
  then show ?thesis
    using H(3) ns by (auto simp: FinalizeTask_def finished_task_def subs_after_def restrict_map_def)
qed

text \<open>The handlers of a task that has run; only the message of a compilation can be unreadable.\<close>

lemma run_finalize_ok:
  assumes h: "at_hand Q R st tid t sr" and ns: "task_type (te_task t) \<noteq> SUMMARY"
    and sc: "task_type (te_task t) = SCORING \<Longrightarrow> nat (subtask (te_task t)) < length (td_results (result sr))"
  shows "run_finalize cfg fs sr t cres False st = Inl FsError \<or>
    (\<exists>sr' st'. run_finalize cfg fs sr t cres False st = Inr (put_submission (te_submission t) sr' st') \<and>
       grows st st' \<and> sr_le sr sr' \<and>
       (task_type (te_task t) = EXECUTE \<longrightarrow> nat (subtask (te_task t)) < length (td_results (result sr'))))"
proof (cases "task_type (te_task t)")
  case COMPILE
  show ?thesis
  proof (cases "FinalizeCompile cfg fs sr t cres st")
    case (Inl e)
    then show ?thesis using FinalizeCompile_total [OF Inl] COMPILE by (simp add: run_finalize_def)
  next
    case (Inr x)
    then show ?thesis
      using FinalizeCompile_sr_le [of cfg fs sr t cres st "fst x" "snd x"] COMPILE
      by (cases x) (auto simp: run_finalize_def)
  qed
next
  case EXECUTE
  note w = at_handD(6) [OF h]
  obtain sr' st' where r: "FinalizeExecute cfg fs sr t cres st = Inr (sr', st')"
    using FinalizeExecute_total [OF w EXECUTE, of cfg fs cres st] by auto
  then show ?thesis using FinalizeExecute_sr_le [OF r w EXECUTE] EXECUTE by (auto simp: run_finalize_def)
next
  case SCORING
  have "nat (subtask (te_task t)) < length (testdata (sub sr))"
    using at_handD(6) [OF h] SCORING by (auto simp: task_wf_def)
  from FinalizeScoring_total [OF sc [OF SCORING] this, of cfg fs cres False st]
  obtain sr' st' where r: "FinalizeScoring cfg fs sr t cres False st = Inr (sr', st')" by auto
  then show ?thesis using FinalizeScoring_frame(1,2) [OF r] SCORING by (auto simp: run_finalize_def)
next
  case SUMMARY
  with ns show ?thesis by simp
qed

lemma finish_run:
  assumes h: "at_hand Q R st tid t sr"
    and sc: "task_type (te_task t) = SCORING \<Longrightarrow> nat (subtask (te_task t)) < length (td_results (result sr))"
  shows "FinalizeTask cfg fs tid cres False st = Inl FsError \<or>
    (\<exists>st'. FinalizeTask cfg fs tid cres False st = Inr st' \<and> finished_task Q R tid t st st')"
proof (cases "task_type (te_task t) = SUMMARY")
  case True
  from finish_summary [OF h True] show ?thesis by blast
next
  case ns: False
  note H = at_handD [OF h]
  have ft: "FinalizeTask cfg fs tid cres False st = and_then (run_finalize cfg fs sr t cres False st) (Remove t)"
    using H(3,4) by (simp add: FinalizeTask_def)
  from run_finalize_ok [OF h ns sc] show ?thesis
  proof
    assume "run_finalize cfg fs sr t cres False st = Inl FsError"
    then show ?thesis by (simp add: ft)
  next
    assume "\<exists>sr' st'. run_finalize cfg fs sr t cres False st = Inr (put_submission (te_submission t) sr' st') \<and>
       grows st st' \<and> sr_le sr sr' \<and>
       (task_type (te_task t) = EXECUTE \<longrightarrow> nat (subtask (te_task t)) < length (td_results (result sr')))"
    then obtain sr' st' where r: "run_finalize cfg fs sr t cres False st = Inr (put_submission (te_submission t) sr' st')"
      and g: "grows st st'" and le: "sr_le sr sr'"
      and ex: "task_type (te_task t) = EXECUTE \<Longrightarrow> nat (subtask (te_task t)) < length (td_results (result sr'))" by blast
    let ?s = "put_submission (te_submission t) sr' st'"
    note f = grows_fields [OF g]
    have 1: "jinv (insert tid Q) R ?s" by (rule jinv_put [OF H(1,4) g le])
    have 2: "task_list ?s tid = Some t" "submission_list ?s (te_submission t) = Some sr'"
      using H(3) f by (simp_all add: put_submission_def)
    have "\<exists>st2. Remove t ?s = Inr st2 \<and> jinv Q (R - {tid}) st2 \<and>
        dom (task_list st2) = dom (task_list ?s) - {tid} \<and> submission_list st2 = submission_list ?s |` (- {}) \<and>
        handle_map st2 = handle_map ?s \<and> task_count st2 = task_count ?s"
      by (rule jinv_remove [OF 1 H(2) 2(1) dropped_refl]) (use ns ex 2(2) in \<open>auto simp: has_result_def\<close>)
    then obtain st2 where st2: "Remove t ?s = Inr st2" "jinv Q (R - {tid}) st2"
        "dom (task_list st2) = dom (task_list ?s) - {tid}" "submission_list st2 = submission_list ?s |` (- {})"
        "handle_map st2 = handle_map ?s" "task_count st2 = task_count ?s" by blast
    have "subs_after t (submission_list st) (submission_list st2)"
    proof -
      have m: "submission_list st2 = (submission_list st)(te_submission t \<mapsto> sr')"
        using st2(4) f by (simp add: restrict_map_def put_submission_def fun_eq_iff)
      have "dom (submission_list st2) = dom (submission_list st)" unfolding m using H(4) by auto
      moreover have "map_option sub (submission_list st2 k) = map_option sub (submission_list st k)" for k
        unfolding m using H(4) le by (simp add: sr_le_def)
      ultimately show ?thesis using ns by (simp add: subs_after_def)
    qed
    then have "finished_task Q R tid t st st2"
      using st2 f by (simp add: finished_task_def put_submission_def)
    moreover have "FinalizeTask cfg fs tid cres False st = Inr st2" using r st2(1) by (simp add: ft)
    ultimately show ?thesis by blast
  qed
qed

section \<open>Dispatching\<close>

lemma dispatch_ok:
  assumes h: "at_hand Q R st tid t sr"
  shows "case DispatchTask cfg env tid (st, ts) of
      Inl e \<Rightarrow> e = FsError \<or> e = LengthError \<or>
        (\<exists>e'. RunTask cfg (env_pipe env) (env_pid env) ts = Inl e' \<and> e = e')
    | Inr (b, st', ts') \<Rightarrow>
        if b then (\<exists>hd. RunTask cfg (env_pipe env) (env_pid env) ts = Inr (hd, ts') \<and>
          jinv (insert tid Q) (insert tid R) st' \<and> dom (task_list st') = dom (task_list st) \<and>
          (\<forall>k. map_option sub (submission_list st' k) = map_option sub (submission_list st k)) \<and>
          handle_map st' = (handle_map st)(hd \<mapsto> tid) \<and> task_count st' = task_count st)
        else ts' = ts \<and> finished_task Q R tid t st st'"
proof -
  note H = at_handD [OF h]
  have dt: "DispatchTask cfg env tid (st, ts) =
      and_then (run_setup cfg (env_fs env) sr t st) (\<lambda>(res, sr, st).
        let st = put_submission (te_submission t) sr st
        in if \<not> res then and_then (FinalizeTask cfg (env_fs env) tid cjail_zero True st) (\<lambda>st. Inr (False, st, ts))
           else and_then (RunTask cfg (env_pipe env) (env_pid env) ts) (\<lambda>(h, ts).
             Inr (True, st\<lparr>handle_map := (handle_map st)(h \<mapsto> tid)\<rparr>, ts)))"
    using H(3,4) by (simp add: DispatchTask_def)
  show ?thesis
  proof (cases "run_setup cfg (env_fs env) sr t st")
    case (Inl e)
    with setup_total [OF h Inl] show ?thesis by (auto simp: dt)
  next
    case (Inr x)
    then obtain b sr' st1 where su: "run_setup cfg (env_fs env) sr t st = Inr (b, sr', st1)" by (cases x) auto
    let ?s = "put_submission (te_submission t) sr' st1"
    note S = setup_result [OF h su]
    have sl: "map_option sub (submission_list ?s k) = map_option sub (submission_list st k)" for k
      using S(7,10) H(4) by simp
    have h': "at_hand Q R ?s tid t sr'" unfolding at_hand_def using S(1-3) H(2) by blast
    show ?thesis
    proof (cases b)
      case False
      have "\<exists>st'. FinalizeTask cfg (env_fs env) tid cjail_zero True ?s = Inr st' \<and> finished_task Q R tid t ?s st'"
      proof (cases "task_type (te_task t) = SUMMARY")
        case True
        from finish_summary [OF h' True] show ?thesis .
      next
        case ns: False
        from finish_skipped [OF h' ns S(5) [OF False]] show ?thesis .
      qed
      then obtain st' where st': "FinalizeTask cfg (env_fs env) tid cjail_zero True ?s = Inr st'"
        and ft: "finished_task Q R tid t ?s st'" by blast
      have "subs_after t (submission_list st) (submission_list st')"
        using ft sl S(7) H(4) by (auto simp: finished_task_def subs_after_def)
      then have "finished_task Q R tid t st st'" using ft S(6,8,9) by (simp add: finished_task_def)
      then show ?thesis using False st' by (simp add: dt su Let_def)
    next
      case True
      show ?thesis
      proof (cases "RunTask cfg (env_pipe env) (env_pid env) ts")
        case (Inl e)
        then show ?thesis using True by (simp add: dt su Let_def)
      next
        case (Inr y)
        obtain hd ts' where y: "y = (hd, ts')" by (cases y)
        have "jinv (insert tid Q) (insert tid R) (?s\<lparr>handle_map := m\<rparr>)" for m
          using S(4) [OF True]
          by (simp add: jinv_def queue_ok_def tasks_ok_def order_ok_def subs_ok_def results_ok_def running_ok_def
              summary_of_def first_execution_def has_result_def IsCancelled_def)
        then show ?thesis using True Inr y S(6,8,9) sl by (simp add: dt su Let_def)
      qed
    qed
  qed
qed

end
