(* ===== verification/PushOk.thy ===== *)
theory PushOk
  imports SchedInv
begin

text \<open>
  \<open>PushSubmission\<close> keeps the scheduler's invariant: the tasks it inserts belong to the new submission,
  every testdata starts with its first execution, and there is one summary.
\<close>

lemma pushed_tasks:
  assumes "pushed sb sid c0 cs B" "push_ok sb" "B k = Some t"
  shows "te_submission t = sid" "task_wf sb (te_task t)" "task_type (te_task t) = SUMMARY \<longleftrightarrow> k = c0"
proof -
  show "te_submission t = sid" using assms(1,3) by (auto simp: pushed_def Let_def built_def)
  have e: "entry_at B k (te_task t) (task_order t)" using assms(3) by (simp add: entry_at_def)
  have ns: "0 < nat (stages sb)" "stages sb = int (nat (stages sb))" using assms(2) by (auto simp: push_ok_def)
  have b: "c0 < td_base bt m (c0 + 1) n + int p" for bt m n p
  proof -
    have "0 \<le> int n * int (chain_len bt m)" by simp
    then show ?thesis unfolding td_base_def by linarith
  qed
  show "task_wf sb (te_task t)"
  proof (rule entry_location [OF assms(1) e])
    fix m p
    assume "m < length (testdata sb)" "te_task t = chain_task (judge_between_stages sb) (nat (stages sb)) (int m) p"
      "p < chain_len (judge_between_stages sb) (nat (stages sb))"
    then show ?thesis using ns by (auto simp: task_wf_def chain_task_def chain_len_def)
  qed (auto simp: task_wf_def)
  show "task_type (te_task t) = SUMMARY \<longleftrightarrow> k = c0"
  proof (rule entry_location [OF assms(1) e])
    fix m p
    assume "k = td_base (judge_between_stages sb) (nat (stages sb)) (c0 + 1) m + int p"
      "te_task t = chain_task (judge_between_stages sb) (nat (stages sb)) (int m) p"
    then show ?thesis
      using b [of "judge_between_stages sb" "nat (stages sb)" m p] by (simp add: chain_task_not)
  next
    fix p
    assume "k = td_base (judge_between_stages sb) (nat (stages sb)) (c0 + 1) (length (testdata sb)) + int p"
      "te_task t = mk_task COMPILE (int (subtask_int (cs ! p))) 0"
    then show ?thesis
      using b [of "judge_between_stages sb" "nat (stages sb)" "length (testdata sb)" p] by simp
  qed auto
qed

lemma pushed_first:
  assumes "pushed sb sid c0 cs B" "push_ok sb" "i < length (testdata sb)"
  shows "\<exists>k t. B k = Some t \<and> te_submission t = sid \<and> te_task t = mk_task EXECUTE (int i) 0"
proof -
  let ?bt = "judge_between_stages sb" and ?ns = "nat (stages sb)"
  have "0 < ?ns" using assms(2) by (simp add: push_ok_def)
  then have "0 < chain_len ?bt ?ns" "chain_task ?bt ?ns (int i) 0 = mk_task EXECUTE (int i) 0"
    by (auto simp: chain_len_def chain_task_def)
  then have "entry_at B (td_base ?bt ?ns (c0 + 1) i + int 0) (mk_task EXECUTE (int i) 0)
      (int (td_order (skip_group sb) (testdata sb) ! i))"
    using assms(1,3) unfolding pushed_def Let_def chains_in_def chain_in_def by metis
  then show ?thesis using pushed_tasks(1) [OF assms(1,2)] by (auto simp: entry_at_def)
qed

lemma wanted_compile_stage: "\<forall>s \<in> set (wanted_compiles sb). compile_stage sb s \<noteq> -1"
  by (simp add: wanted_compiles_def)

lemma edge_rel_union:
  "dom A \<inter> dom B = {} \<Longrightarrow> edge_rel A \<subseteq> edge_rel (A ++ B)" "edge_rel B \<subseteq> edge_rel (A ++ B)"
  by (auto simp: edge_rel_def map_add_Some_iff domIff)

text \<open>The fields after \<open>enqueue\<close>, for a fresh id.\<close>

lemma enqueue_fields:
  assumes "submission_list st iid = None"
  shows "task_list (enqueue sb iid st) = task_list st" "task_queue (enqueue sb iid st) = task_queue st"
    "task_count (enqueue sb iid st) = task_count st" "handle_map (enqueue sb iid st) = handle_map st"
    "submission_list (enqueue sb iid st) =
       (submission_list st)(iid \<mapsto> \<lparr>sub = sb, result = SubmissionResult_init\<rparr>)"
    "cancelled_list st \<subseteq> cancelled_list (enqueue sb iid st)"
    "cancelled_group (enqueue sb iid st) = cancelled_group st" "events (enqueue sb iid st) = events st"
  using assms by (auto simp: enqueue_def Let_def split: option.splits)

lemma insert_batch_fields:
  "submission_list (insert_batch B ks st) = submission_list st" "task_count (insert_batch B ks st) = task_count st"
  "handle_map (insert_batch B ks st) = handle_map st" "cancelled_list (insert_batch B ks st) = cancelled_list st"
  "cancelled_group (insert_batch B ks st) = cancelled_group st" "events (insert_batch B ks st) = events st"
  "submission_id_map (insert_batch B ks st) = submission_id_map st"
  using insert_batch_frame [of B ks st] by auto

definition push_pre :: "Submission \<Rightarrow> JState \<Rightarrow> bool" where
  "push_pre sb0 st \<longleftrightarrow>
     (let sb = clamp_stages sb0; iid = submission_internal_id sb0
      in narrow_int iid = iid \<and> submission_list st iid = None \<and>
         push_ok sb \<and> sorted (problem_prog_stages sb0) \<and> groups_ok sb0)"

text \<open>The tasks of a queued submission together with what is in the list already.\<close>

lemma push_state:
  assumes inv: "jinv Q R st" and pre: "push_pre sb0 st"
    and full: "max_queue = 0 \<or> CurrentSubmissionQueueSize st < max_queue"
  defines "sb \<equiv> clamp_stages sb0" and "iid \<equiv> submission_internal_id sb0" and "c0 \<equiv> task_count st"
  obtains B st' where "PushSubmission sb0 max_queue st = Inr (True, st')"
    "pushed sb iid c0 (wanted_compiles sb) B" "dom (task_list st) \<inter> dom B = {}"
    "task_list st' = task_list st ++ B" "graph_ok (task_list st')" "queue_ok st' Q"
    "task_count st' = push_end sb c0" "handle_map st' = handle_map st"
    "submission_list st' = (submission_list st)(iid \<mapsto> \<lparr>sub = sb, result = SubmissionResult_init\<rparr>)"
    "cancelled_list st \<subseteq> cancelled_list st'" "cancelled_group st' = cancelled_group st" "events st' = events st"
proof -
  have p: "push_ok sb" "narrow_int iid = iid" "submission_list st iid = None"
    using pre by (simp_all add: push_pre_def Let_def sb_def iid_def)
  obtain B where B: "build_graph sb iid c0 = Inr (insert_order sb c0, B, push_end sb c0)"
    and pu: "pushed sb iid c0 (wanted_compiles sb) B"
    using build_graph_ok [OF p(1)] by blast
  have g: "graph_ok B" and dB: "dom B = {c0 ..< push_end sb c0}"
    using pu by (auto simp: pushed_def Let_def built_def push_end_def)
  have disj: "dom B \<inter> dom (task_list st) = {}"
  proof -
    have "k < c0" if "k \<in> dom (task_list st)" for k
      using jinvD(3) [OF inv] that by (auto simp: tasks_ok_def c0_def)
    then show ?thesis unfolding dB by force
  qed
  let ?st = "st\<lparr>task_count := push_end sb c0\<rparr>"
  let ?st' = "enqueue sb iid (insert_batch B (insert_order sb c0) ?st)"
  have io: "set (insert_order sb c0) = dom B" "distinct (insert_order sb c0)"
    using insert_order_ok [of sb c0] p(1) dB by (auto simp: push_ok_def)
  have pre': "graph_ok (task_list ?st)" "queue_ok ?st Q" "dom B \<inter> dom (task_list ?st) = {}"
    using jinvD(1,2) [OF inv] disj by (simp_all add: queue_ok_def)
  note I = insert_batch_ok [OF pre'(1,2) g io pre'(3)]
  have n: "submission_list (insert_batch B (insert_order sb c0) ?st) iid = None"
    using p(3) by (simp add: insert_batch_fields)
  note e = enqueue_fields [OF n, of sb]
  have "queue_ok ?st' Q" using I(2) by (simp add: queue_ok_def e)
  moreover have "PushSubmission sb0 max_queue st = Inr (True, ?st')"
    using full B p(2) by (auto simp: PushSubmission_def Let_def sb_def iid_def c0_def clamp_stages_def)
  ultimately show thesis
    using that [of ?st' B] pu disj I(1,3) e by (auto simp: insert_batch_fields Int_commute)
qed

theorem push_jinv:
  assumes inv: "jinv Q R st" and RQ: "R \<subseteq> Q" and pre: "push_pre sb0 st"
    and full: "max_queue = 0 \<or> CurrentSubmissionQueueSize st < max_queue"
  shows "\<exists>st'. PushSubmission sb0 max_queue st = Inr (True, st') \<and> jinv Q R st' \<and>
    submission_list st' = (submission_list st)(submission_internal_id sb0 \<mapsto>
      \<lparr>sub = clamp_stages sb0, result = SubmissionResult_init\<rparr>) \<and>
    handle_map st' = handle_map st \<and> dom (task_list st) \<subseteq> dom (task_list st')"
proof -
  let ?sb = "clamp_stages sb0" and ?iid = "submission_internal_id sb0" and ?c0 = "task_count st"
  obtain B st' where ps: "PushSubmission sb0 max_queue st = Inr (True, st')"
    and pu: "pushed ?sb ?iid ?c0 (wanted_compiles ?sb) B" and d: "dom (task_list st) \<inter> dom B = {}"
    and tl: "task_list st' = task_list st ++ B" and g: "graph_ok (task_list st')" and q: "queue_ok st' Q"
    and tc: "task_count st' = push_end ?sb ?c0" and hm: "handle_map st' = handle_map st"
    and sl: "submission_list st' = (submission_list st)(?iid \<mapsto> \<lparr>sub = ?sb, result = SubmissionResult_init\<rparr>)"
    and cl: "cancelled_list st \<subseteq> cancelled_list st'" and cg: "cancelled_group st' = cancelled_group st"
    by (rule push_state [OF inv pre full])
  have p: "push_ok ?sb" "submission_list st ?iid = None" "sorted (problem_prog_stages ?sb)" "groups_ok ?sb"
    using pre by (simp_all add: push_pre_def Let_def clamp_stages_def groups_ok_def)
  have iid: "submission_internal_id ?sb = ?iid" by (simp add: clamp_stages_def)
  have c: "?c0 \<le> push_end ?sb ?c0" by (simp add: push_end_def td_base_def)
  have dB: "dom B = {?c0 ..< push_end ?sb ?c0}"
    using pu by (auto simp: pushed_def Let_def built_def push_end_def)
  note P = pushed_tasks [OF pu p(1)]
  have entry: "task_list st' k = Some t \<longleftrightarrow> task_list st k = Some t \<or> B k = Some t" for k t
    using d by (auto simp: tl map_add_Some_iff domIff)
  have old: "te_submission t \<noteq> ?iid \<and> k < ?c0" if "task_list st k = Some t" for k t
    using jinvD(3) [OF inv] that p(2) by (fastforce simp: tasks_ok_def)
  have "tasks_ok st'"
    unfolding tasks_ok_def
  proof (intro allI impI)
    fix k t
    assume "task_list st' k = Some t"
    then consider "task_list st k = Some t" | "B k = Some t" using entry by blast
    then show "k < task_count st' \<and> (\<exists>sr. submission_list st' (te_submission t) = Some sr \<and> task_wf (sub sr) (te_task t))"
    proof cases
      case 1
      then show ?thesis using jinvD(3) [OF inv] old [OF 1] c by (fastforce simp: tasks_ok_def sl tc)
    next
      case 2
      then have "k \<in> dom B" by blast
      then show ?thesis using P(1,2) [OF 2] dB by (simp add: sl tc)
    qed
  qed
  moreover have "order_ok st'"
    unfolding order_ok_def
  proof (intro allI impI)
    fix a b ta tb sr
    assume h: "task_list st' a = Some ta \<and> task_list st' b = Some tb \<and> te_submission ta = te_submission tb \<and>
        submission_list st' (te_submission ta) = Some sr \<and>
        must_precede (problem_prog_stages (sub sr)) (te_task ta) (te_task tb)"
    then consider "task_list st a = Some ta" "task_list st b = Some tb" | "B a = Some ta" "B b = Some tb"
      using entry P(1) old by metis
    then show "(a, b) \<in> (edge_rel (task_list st'))\<^sup>+"
    proof cases
      case 1
      then have "(a, b) \<in> (edge_rel (task_list st))\<^sup>+"
        using jinvD(4) [OF inv] h old [OF 1(1)] unfolding order_ok_def by (auto simp: sl)
      then show ?thesis using trancl_mono edge_rel_union(1) [OF d] unfolding tl by blast
    next
      case 2
      then have "sr = \<lparr>sub = ?sb, result = SubmissionResult_init\<rparr>" using h P(1) by (simp add: sl)
      then have "must_precede (problem_prog_stages ?sb) (te_task ta) (te_task tb)" using h by simp
      moreover have "entry_at B a (te_task ta) (task_order ta)" "entry_at B b (te_task tb) (task_order tb)"
        using 2 by (simp_all add: entry_at_def)
      ultimately have "(a, b) \<in> (edge_rel B)\<^sup>+"
        using pushed_order [OF pu p(1,3) wanted_compile_stage] by blast
      then show ?thesis using trancl_mono edge_rel_union(2) unfolding tl by blast
    qed
  qed
  moreover have "subs_ok st'"
    unfolding subs_ok_def
  proof (intro allI impI)
    fix k sr
    assume h: "submission_list st' k = Some sr"
    show "sub_ok k (sub sr) \<and> length (td_results (result sr)) \<le> length (testdata (sub sr)) \<and>
        (\<exists>!tid. summary_of st' k tid)"
    proof (cases "k = ?iid")
      case True
      have "?c0 \<in> dom B" using pu by (auto simp: pushed_def Let_def entry_at_def)
      then obtain t where t: "B ?c0 = Some t" by blast
      have "summary_of st' k x \<longleftrightarrow> x = ?c0" for x
        using True entry P old t by (fastforce simp: summary_of_def)
      then show ?thesis using h True p iid by (auto simp: sl sub_ok_def SubmissionResult_init_def)
    next
      case False
      then have "summary_of st' k = summary_of st k" using entry P(1) by (fastforce simp: summary_of_def)
      then show ?thesis using jinvD(5) [OF inv] h False by (simp add: subs_ok_def sl)
    qed
  qed
  moreover have "results_ok st'"
    unfolding results_ok_def
  proof (intro allI impI)
    fix k sr i
    assume h: "submission_list st' k = Some sr \<and> i < length (testdata (sub sr)) \<and> \<not> first_execution st' k i"
    show "has_result st' k sr i"
    proof (cases "k = ?iid")
      case True
      then have "sub sr = ?sb" using h by (auto simp: sl)
      then show ?thesis using h True pushed_first [OF pu p(1), of i] entry by (auto simp: first_execution_def)
    next
      case False
      then have "\<not> first_execution st k i" using h entry by (auto simp: first_execution_def)
      then have "has_result st k sr i" using jinvD(6) [OF inv] h False by (auto simp: results_ok_def sl)
      then show ?thesis using cl by (auto simp: has_result_def IsCancelled_def cg)
    qed
  qed
  moreover have "running_ok st' R"
    unfolding running_ok_def
  proof (intro ballI allI impI)
    fix x t sr
    assume x: "x \<in> R" and h: "task_list st' x = Some t \<and> submission_list st' (te_submission t) = Some sr \<and>
        task_type (te_task t) = SCORING"
    have "x \<in> ready (task_list st)" using running_ready [OF jinvD(2) [OF inv]] x RQ by blast
    then obtain u where "task_list st x = Some u" by (auto simp: ready_def)
    then have "task_list st' x = Some u" using entry by blast
    then have "u = t" using h by simp
    with \<open>task_list st x = Some u\<close> have u: "task_list st x = Some t" by simp
    with old [OF u] jinvD(7) [OF inv] x h show "nat (subtask (te_task t)) < length (td_results (result sr))"
      by (simp add: running_ok_def sl)
  qed
  ultimately have "jinv Q R st'" using g q by (simp add: jinv_def)
  with ps sl hm show ?thesis using tl by auto
qed

end
