(* ===== verification/WorkLoop.thy ===== *)
theory WorkLoop
  imports Rounds PushOk
begin

text \<open>
  The work loop as a transition system: rounds of the inner loop of \<open>WorkLoop\<close> and calls of
  \<open>PushSubmission\<close>, in any interleaving. Every reachable state satisfies \<open>winv\<close>; from such a state a
  round never leaves a vector, map or pool, never runs two tasks with one user id, and makes progress
  until all submissions are finalised.
\<close>

section \<open>Handles\<close>

lemma map_fst_map_put:
  "k \<notin> fst ` set xs \<Longrightarrow> mset (map fst (map_put k v xs)) = add_mset k (mset (map fst xs))"
  using arg_cong [OF mset_map_put [of k xs v], of "image_mset fst"] by simp

lemma collect_finished:
  "distinct (map fst xs) \<Longrightarrow> set (map fst xs) \<inter> set (map fst (finished ts)) = {} \<Longrightarrow>
   map fst (finished (foldl (collect res) ts xs)) = map fst (finished ts) @ map fst xs"
proof (induction xs arbitrary: ts)
  case Nil
  then show ?case by simp
next
  case (Cons x xs)
  have f: "map fst (finished (collect res ts x)) = map fst (finished ts) @ [fst x]"
    using Cons.prems(2) by (cases x) (auto simp: collect_def hash_put_def)
  have "set (map fst xs) \<inter> set (map fst (finished (collect res ts x))) = {}"
    unfolding f using Cons.prems by auto
  with Cons.IH [of "collect res ts x"] Cons.prems(1) show ?case by (simp add: f)
qed

lemma Wait_handles:
  assumes "distinct (handles ts)" "Wait sel res ts = (b, ts')"
  shows "mset (handles ts') = mset (handles ts)"
proof (cases "running ts = [] \<or> sel = None")
  case True
  then show ?thesis using assms(2) by (auto simp: Wait_def split: option.splits)
next
  case False
  then obtain fds where sel: "sel = Some fds" and ne: "running ts \<noteq> []" by auto
  let ?d = "filter (\<lambda>x. fst x \<in> fds) (running ts)"
  have "distinct (map fst ?d)" "set (map fst ?d) \<inter> set (map fst (finished ts)) = {}"
    using assms(1) by (auto simp: handles_def distinct_map_filter)
  note c = collect_finished [OF this, of res]
  have "ts' = foldl (collect res) ts ?d\<lparr>running := filter (\<lambda>x. fst x \<notin> fds) (running ts)\<rparr>"
    using assms(2) sel ne by (auto simp: Wait_def Let_def collect_fold)
  then have "mset (handles ts') = mset (map fst (filter (\<lambda>x. fst x \<notin> fds) (running ts))) +
      mset (map fst (finished ts)) + mset (map fst ?d)"
    by (simp add: handles_def c)
  also have "\<dots> = (mset (map fst ?d) + mset (map fst (filter (\<lambda>x. fst x \<notin> fds) (running ts)))) +
      mset (map fst (finished ts))" by (simp only: ac_simps)
  also have "\<dots> = mset (handles ts)" unfolding mset_map_split by (simp add: handles_def)
  finally show ?thesis .
qed

lemma mset_take_drop: "p < length xs \<Longrightarrow> add_mset (xs ! p) (mset (take p xs @ drop (Suc p) xs)) = mset xs"
  using arg_cong [OF id_take_nth_drop [of p xs], of mset] by simp

lemma pop_finished_handles:
  assumes "pop_finished pos ts = Inr ((h, r), ts')"
  shows "add_mset h (mset (handles ts')) = mset (handles ts)"
proof -
  have ne: "finished ts \<noteq> []" using assms by (auto simp: pop_finished_def)
  let ?p = "pos mod length (finished ts)"
  have p: "?p < length (map fst (finished ts))" using ne by simp
  have "h = map fst (finished ts) ! ?p"
    "map fst (finished ts') = take ?p (map fst (finished ts)) @ drop (Suc ?p) (map fst (finished ts))"
    "running ts' = running ts"
    using assms p by (auto simp: pop_finished_def Let_def take_map drop_map split: if_splits dest: arg_cong [of _ _ fst])
  then show ?thesis using mset_take_drop [OF p] by (simp add: handles_def)
qed

text \<open>\<open>select\<close> blocks until a running task has written its result.\<close>

definition select_ok :: "int set option \<Rightarrow> TState \<Rightarrow> bool" where
  "select_ok sel ts \<longleftrightarrow> (\<exists>fds. sel = Some fds \<and> (\<exists>x \<in> set (running ts). fst x \<in> fds))"

lemma WaitAnyResult_ok:
  assumes d: "distinct (handles ts)" and ne: "handles ts \<noteq> []"
    and sel: "finished ts = [] \<Longrightarrow> select_ok sel ts"
  obtains h r ts' where "WaitAnyResult sel res pos ts = Inr ((h, r), ts')"
    "add_mset h (mset (handles ts')) = mset (handles ts)" "pool_init ts' = pool_init ts"
proof -
  let ?ts = "if finished ts = [] then snd (Wait sel res ts) else ts"
  have m: "mset (handles ?ts) = mset (handles ts)"
    using Wait_handles [OF d, of sel res "fst (Wait sel res ts)" "snd (Wait sel res ts)"] by simp
  have i: "pool_init ?ts = pool_init ts"
    by (auto simp: Wait_def Let_def collect_fold split: option.splits)
  have "finished ?ts \<noteq> []"
  proof (cases "finished ts = []")
    case True
    then obtain fds x where x: "sel = Some fds" "x \<in> set (running ts)" "fst x \<in> fds"
      using sel by (auto simp: select_ok_def)
    let ?d = "filter (\<lambda>x. fst x \<in> fds) (running ts)"
    have "distinct (map fst ?d)" "set (map fst ?d) \<inter> set (map fst (finished ts)) = {}"
      using d True by (auto simp: handles_def distinct_map_filter)
    note c = collect_finished [OF this, of res]
    have "running ts \<noteq> []" using x(2) by auto
    then have "finished (snd (Wait sel res ts)) = finished (foldl (collect res) ts ?d)"
      using x(1) by (simp add: Wait_def Let_def)
    then have "map fst (finished (snd (Wait sel res ts))) = map fst ?d" using c True by simp
    moreover have "?d \<noteq> []" using x(2,3) by (auto simp: filter_empty_conv)
    ultimately show ?thesis using True by auto
  next
    case False
    then show ?thesis by simp
  qed
  then obtain h r ts' where p: "pop_finished pos ?ts = Inr ((h, r), ts')"
    by (auto simp: pop_finished_def Let_def) (metis surj_pair)
  have "pool_init ts' = pool_init ?ts" using p by (auto simp: pop_finished_def Let_def split: if_splits)
  moreover have "WaitAnyResult sel res pos ts = Inr ((h, r), ts')"
    using p ne by (auto simp: WaitAnyResult_def handles_def)
  ultimately show thesis using that pop_finished_handles [OF p] m i by metis
qed

lemma RunTask_ok:
  assumes "pool_init ts \<or> handles ts = [] \<and> uid_pool ts = []" "pipefd = Some fd" "fd \<notin> set (handles ts)" "0 \<le> pid"
    and "pool_init ts \<Longrightarrow> uid_pool ts \<noteq> []"
  obtains ts' where "RunTask cfg pipefd pid ts = Inr (fd, ts')"
    "mset (handles ts') = add_mset fd (mset (handles ts))" "pool_init ts'"
proof -
  let ?ts = "if pool_init ts then ts else InitPools cfg ts"
  have r: "running ?ts = running ts" "finished ?ts = finished ts" "pool_init ?ts"
    by (simp_all add: InitPools_def)
  have u: "uid_pool ?ts \<noteq> []"
    using assms(1,5) by (auto simp: InitPools_def kUidPoolSize_def)
  have "fd \<notin> fst ` set (running ts)" using assms(3) by (auto simp: handles_def)
  then have "mset (map fst (map_put fd x (running ts))) = add_mset fd (mset (map fst (running ts)))" for x
    by (rule map_fst_map_put)
  then show thesis
    using that assms(2,4) r u by (auto simp: RunTask_def Let_def handles_def split: if_splits)
qed

section \<open>The invariant of the loop\<close>

definition all_uids :: "int multiset" where
  "all_uids = mset (map (\<lambda>i. int i + kUidBase) [0 ..< kUidPoolSize])"

definition pools_ok :: "Config \<Rightarrow> TState \<Rightarrow> bool" where
  "pools_ok cfg ts \<longleftrightarrow>
     (if pool_init ts
      then uids_free ts + uids_held ts = all_uids \<and>
           cpus_free ts + cpus_held ts = filter_mset (\<lambda>c. c \<noteq> -1) (mset (kPinnedCpus cfg))
      else handles ts = [] \<and> uid_pool ts = [] \<and> cpuid_pool ts = [])"

definition handles_ok :: "JState \<Rightarrow> TState \<Rightarrow> bool" where
  "handles_ok st ts \<longleftrightarrow>
     distinct (handles ts) \<and> dom (handle_map st) = set (handles ts) \<and> inj_on (handle_map st) (dom (handle_map st))"

text \<open>
  Where the worker is in the loop: holding the lock, waiting with the lock released, or with a
  collected result before it has the lock again.
\<close>

datatype worker = Locked | Unlocked | Collected int cjail_result

fun collected :: "worker \<Rightarrow> int set" where
  "collected (Collected tid res) = {tid}"
| "collected Locked = {}"
| "collected Unlocked = {}"

definition active :: "worker \<Rightarrow> World \<Rightarrow> int set" where
  "active pc w = ran (handle_map (js w)) \<union> collected pc"

definition winv :: "Config \<Rightarrow> worker \<Rightarrow> World \<Rightarrow> bool" where
  "winv cfg pc w \<longleftrightarrow>
     jinv (active pc w) (active pc w) (js w) \<and>
     handles_ok (js w) (tstate w) \<and> pools_ok cfg (tstate w) \<and>
     collected pc \<inter> ran (handle_map (js w)) = {} \<and>
     task_running w = int (length (handles (tstate w)) + card (collected pc)) \<and>
     task_running w \<le> kMaxParallel cfg \<and> (pc = Unlocked \<longrightarrow> 0 < task_running w)"

lemma winvD:
  assumes "winv cfg pc w"
  shows "jinv (active pc w) (active pc w) (js w)" "handles_ok (js w) (tstate w)" "pools_ok cfg (tstate w)"
    "collected pc \<inter> ran (handle_map (js w)) = {}"
    "task_running w = int (length (handles (tstate w)) + card (collected pc))"
    "task_running w \<le> kMaxParallel cfg"
  using assms by (simp_all add: winv_def)

text \<open>
  The bound on \<open>kMaxParallel\<close> is the size of the pool of user ids. The environment is what the kernel
  guarantees: \<open>pipe\<close> and \<open>fork\<close> succeed, a pipe is a new descriptor, and \<open>select\<close> returns when a task is
  done.
\<close>

definition config_ok :: "Config \<Rightarrow> bool" where
  "config_ok cfg \<longleftrightarrow> 0 < kMaxParallel cfg \<and> kMaxParallel cfg \<le> int kUidPoolSize"

definition env_ok :: "Env \<Rightarrow> World \<Rightarrow> bool" where
  "env_ok env w \<longleftrightarrow>
     (\<exists>fd. env_pipe env = Some fd \<and> fd \<notin> set (handles (tstate w))) \<and> 0 \<le> env_pid env \<and>
     (running (tstate w) \<noteq> [] \<longrightarrow> select_ok (env_select env) (tstate w))"

lemma winv_init:
  assumes "config_ok cfg"
  shows "winv cfg Locked World_init"
proof -
  have "handle_map JState_init = Map.empty" by (simp add: JState_init_def)
  then show ?thesis
    using jinv_init assms
    by (simp add: winv_def World_init_def TState_init_def handles_ok_def pools_ok_def handles_def active_def config_ok_def)
qed

lemma size_held_le: "size (uids_held ts) = length (running ts)"
  by (simp add: uids_held_def)

lemma uid_available:
  assumes "pools_ok cfg ts" "pool_init ts" "int (length (handles ts)) < kMaxParallel cfg" "config_ok cfg"
  shows "uid_pool ts \<noteq> []"
proof
  assume "uid_pool ts = []"
  then have "uids_held ts = all_uids" using assms(1,2) by (simp add: pools_ok_def uids_free_def)
  then have "length (running ts) = kUidPoolSize" using size_held_le [of ts] by (simp add: all_uids_def)
  moreover have "int (length (running ts)) < int kUidPoolSize"
    using assms(3,4) by (simp add: handles_def config_ok_def)
  ultimately show False by simp
qed

lemma InitPools_pools: "handles ts = [] \<Longrightarrow> uid_pool ts = [] \<Longrightarrow> cpuid_pool ts = [] \<Longrightarrow> pools_ok cfg (InitPools cfg ts)"
  by (simp add: pools_ok_def InitPools_def pool_defs all_uids_def handles_def)

lemma RunTask_pools:
  assumes "pools_ok cfg ts" "fd \<notin> set (handles ts)" "RunTask cfg (Some fd) pid ts = Inr (h, ts')" "pool_init ts'"
  shows "pools_ok cfg ts'"
proof (cases "pool_init ts")
  case True
  have "uids_free ts' + uids_held ts' = uids_free ts + uids_held ts"
    "cpus_free ts' + cpus_held ts' = cpus_free ts + cpus_held ts"
    by (rule uids.run [OF True _ assms(3)] cpus.run [OF True _ assms(3)]; use assms(2) in simp)+
  with assms(1,4) True show ?thesis by (simp add: pools_ok_def)
next
  case False
  let ?ts = "InitPools cfg ts"
  have i: "pool_init ?ts" "handles ?ts = handles ts" by (simp_all add: InitPools_def handles_def)
  have "pools_ok cfg ?ts" by (rule InitPools_pools) (use assms(1) False in \<open>simp_all add: pools_ok_def\<close>)
  moreover have r: "RunTask cfg (Some fd) pid ?ts = Inr (h, ts')"
    using assms(3) False i(1) by (simp add: RunTask_def Let_def)
  have "uids_free ts' + uids_held ts' = uids_free ?ts + uids_held ?ts"
    "cpus_free ts' + cpus_held ts' = cpus_free ?ts + cpus_held ?ts"
    by (rule uids.run [OF i(1) _ r] cpus.run [OF i(1) _ r]; use assms(2) i(2) in simp)+
  ultimately show ?thesis using assms(4) i(1) by (simp add: pools_ok_def)
qed

lemma WaitAnyResult_pools:
  assumes "pools_ok cfg ts" "handles ts \<noteq> []" "WaitAnyResult sel res pos ts = Inr (r, ts')" "pool_init ts' = pool_init ts"
  shows "pools_ok cfg ts'"
  using uids.wait_any [OF assms(3)] cpus.wait_any [OF assms(3)] assms(1,2,4) by (auto simp: pools_ok_def split: if_splits)

section \<open>The steps of a round\<close>

text \<open>Twice the tasks left, less one for each that runs: what every round decreases.\<close>

definition work_left :: "World \<Rightarrow> int" where
  "work_left w = 2 * int (card (dom (task_list (js w)))) - task_running w"

lemma jinv_handle_map [simp]: "jinv Q R (st\<lparr>handle_map := m\<rparr>) = jinv Q R st"
  by (simp add: jinv_def queue_ok_def tasks_ok_def order_ok_def subs_ok_def results_ok_def running_ok_def
      summary_of_def first_execution_def has_result_def IsCancelled_def)

lemma task_at_hand:
  assumes "jinv (insert tid Q) R st" "tid \<notin> Q"
  shows "\<exists>t sr. at_hand Q R st tid t sr"
proof -
  have "tid \<in> ready (task_list st)" using running_ready [OF jinvD(2) [OF assms(1)], of tid] by simp
  then obtain t where t: "task_list st tid = Some t" by (auto simp: ready_def)
  then obtain sr where "submission_list st (te_submission t) = Some sr"
    using jinvD(3) [OF assms(1)] by (force simp: tasks_ok_def)
  with t assms show ?thesis by (auto simp: at_hand_def)
qed

lemma jinv_finite: "jinv Q R st \<Longrightarrow> finite (dom (task_list st))"
  using jinvD(1) graph_ok_finite by blast

lemma finished_card:
  assumes "finished_task Q R tid t st st'" "task_list st tid = Some t" "finite (dom (task_list st))"
  shows "int (card (dom (task_list st'))) = int (card (dom (task_list st))) - 1"
proof -
  have m: "tid \<in> dom (task_list st)" using assms(2) by blast
  have "card (dom (task_list st')) = card (dom (task_list st) - {tid})" using assms(1) by (simp add: finished_task_def)
  then show ?thesis using card_Suc_Diff1 [OF assms(3) m] by linarith
qed

lemma handles_ok_start:
  assumes "handles_ok st ts" "mset (handles ts') = add_mset fd (mset (handles ts))" "fd \<notin> set (handles ts)"
    and "handle_map st' = (handle_map st)(fd \<mapsto> tid)" "tid \<notin> ran (handle_map st)"
  shows "handles_ok st' ts'" "ran (handle_map st') = insert tid (ran (handle_map st))"
    "length (handles ts') = Suc (length (handles ts))"
proof -
  have d: "handle_map st fd = None" using assms(1,3) by (auto simp: handles_ok_def)
  have s: "set (handles ts') = insert fd (set (handles ts))" using arg_cong [OF assms(2), of set_mset] by simp
  show l: "length (handles ts') = Suc (length (handles ts))" using arg_cong [OF assms(2), of size] by simp
  have "mset (fd # handles ts) = mset (handles ts')" using assms(2) by simp
  then have "distinct (fd # handles ts) = distinct (handles ts')" by (rule mset_eq_imp_distinct_iff)
  then have "distinct (handles ts')" using assms(1,3) by (simp add: handles_ok_def)
  moreover have "inj_on (handle_map st') (dom (handle_map st'))"
  proof -
    have "inj_on (handle_map st) (dom (handle_map st))" using assms(1) unfolding handles_ok_def by blast
    moreover have "handle_map st x \<noteq> Some tid" for x using assms(5) by (auto simp: ran_def)
    ultimately show ?thesis unfolding assms(4) using d by (auto simp: inj_on_def domIff)
  qed
  moreover have "dom (handle_map st') = set (handles ts')" using assms(1,4) s by (auto simp: handles_ok_def)
  ultimately show "handles_ok st' ts'" by (simp add: handles_ok_def)
  show "ran (handle_map st') = insert tid (ran (handle_map st))" using d by (simp add: assms(4))
qed

lemma handles_ok_stop:
  assumes "handles_ok st ts" "add_mset h (mset (handles ts')) = mset (handles ts)"
    and "handle_map st' = (handle_map st)(h := None)"
  shows "\<exists>tid. handle_map st h = Some tid \<and> handles_ok st' ts' \<and> tid \<notin> ran (handle_map st') \<and>
    ran (handle_map st) = insert tid (ran (handle_map st')) \<and> length (handles ts) = Suc (length (handles ts'))"
proof -
  have i: "inj_on (handle_map st) (dom (handle_map st))" and d: "distinct (handles ts)"
    and dm: "dom (handle_map st) = set (handles ts)" using assms(1) unfolding handles_ok_def by blast+
  have s: "set (handles ts) = insert h (set (handles ts'))" using arg_cong [OF assms(2), of set_mset] by simp
  have l: "length (handles ts) = Suc (length (handles ts'))" using arg_cong [OF assms(2), of size] by simp
  have "h \<in> dom (handle_map st)" using dm s by simp
  then obtain tid where t: "handle_map st h = Some tid" by blast
  have "mset (h # handles ts') = mset (handles ts)" using assms(2) by simp
  then have "distinct (h # handles ts')" using d mset_eq_imp_distinct_iff by blast
  then have d': "distinct (handles ts')" and n: "h \<notin> set (handles ts')" by simp_all
  have "dom (handle_map st') = set (handles ts')" using n s dm by (auto simp: assms(3))
  moreover have "inj_on (handle_map st') (dom (handle_map st'))"
    using i by (auto simp: assms(3) inj_on_def)
  moreover have "tid \<notin> ran (handle_map st')"
    using i t by (auto simp: assms(3) ran_def) (metis domI inj_onD)
  moreover have "ran (handle_map st) = insert tid (ran (handle_map st'))"
    using t by (auto simp: assms(3) ran_def) (metis option.inject)
  ultimately show ?thesis using t d' l by (auto simp: handles_ok_def)
qed

text \<open>Dispatching: only the file system or the printing of a score can fail.\<close>

lemma dispatch_step_ok:
  assumes w: "winv cfg Locked w" and cfg: "config_ok cfg" and dp: "dispatching cfg w" and env: "env_ok env w"
    and tid: "tid \<in> set (task_queue (js w))"
  shows "case dispatch_step cfg env tid w of
      Inl e \<Rightarrow> e = FsError \<or> e = LengthError
    | Inr w' \<Rightarrow> winv cfg Locked w' \<and> work_left w' < work_left w"
proof -
  let ?st = "js w" and ?ts = "tstate w" and ?R = "ran (handle_map (js w))"
  note W = winvD [OF w, unfolded active_def, simplified]
  have pop: "jinv (insert tid ?R) ?R (pop_task tid ?st)" "tid \<notin> ?R" by (rule jinv_pop [OF W(1) tid])+
  from task_at_hand [OF pop] obtain t sr where h: "at_hand ?R ?R (pop_task tid ?st) tid t sr" by blast
  obtain fd where fd: "env_pipe env = Some fd" "fd \<notin> set (handles ?ts)" "0 \<le> env_pid env"
    using env by (auto simp: env_ok_def)
  have pools: "pool_init ?ts \<or> handles ?ts = [] \<and> uid_pool ?ts = []"
    using W(3) by (auto simp: pools_ok_def split: if_splits)
  have "uid_pool ?ts \<noteq> []" if "pool_init ?ts"
    using uid_available [OF W(3) that _ cfg] dp W(5) by (simp add: dispatching_def)
  then obtain ts' where run: "RunTask cfg (env_pipe env) (env_pid env) ?ts = Inr (fd, ts')"
    and m: "mset (handles ts') = add_mset fd (mset (handles ?ts))" and i: "pool_init ts'"
    by (rule RunTask_ok [OF pools fd(1,2,3)])
  have po: "pools_ok cfg ts'" using RunTask_pools [OF W(3) fd(2)] run fd(1) i by simp
  have ds: "dispatch_step cfg env tid w = and_then (DispatchTask cfg env tid (pop_task tid ?st, ?ts)) (\<lambda>(b, st, ts).
      Inr (w\<lparr>js := st, tstate := ts, task_running := task_running w + (if b then 1 else 0)\<rparr>))"
    by (simp add: dispatch_step_def pop_task_def Let_def)
  note D = dispatch_ok [OF h, of cfg env ?ts]
  show ?thesis
  proof (cases "DispatchTask cfg env tid (pop_task tid ?st, ?ts)")
    case (Inl e)
    then show ?thesis using D run by (auto simp: ds)
  next
    case (Inr x)
    then obtain b st' ts'' where x: "x = (b, st', ts'')" by (cases x) auto
    show ?thesis
    proof (cases b)
      case True
      then have hm: "handle_map st' = (handle_map ?st)(fd \<mapsto> tid)" and ts: "ts'' = ts'"
        and j: "jinv (insert tid ?R) (insert tid ?R) st'" and dm: "dom (task_list st') = dom (task_list ?st)"
        using D Inr x run by auto
      note H = handles_ok_start [OF W(2) m fd(2) hm pop(2)]
      have "winv cfg Locked (w\<lparr>js := st', tstate := ts', task_running := task_running w + 1\<rparr>)"
        using j H po W(5,6) dp by (simp add: winv_def active_def dispatching_def)
      then show ?thesis using Inr x True ts dm by (simp add: ds work_left_def)
    next
      case False
      then have ts: "ts'' = ?ts" and ft: "finished_task ?R ?R tid t (pop_task tid ?st) st'"
        using D Inr x by auto
      have j: "jinv ?R ?R st'" and hm: "handle_map st' = handle_map ?st"
        using ft pop(2) by (simp_all add: finished_task_def)
      have "handles_ok st' ?ts" using W(2) unfolding handles_ok_def hm .
      then have "winv cfg Locked (w\<lparr>js := st', tstate := ?ts, task_running := task_running w\<rparr>)"
        using j hm W by (simp add: winv_def active_def)
      moreover have "int (card (dom (task_list st'))) = int (card (dom (task_list ?st))) - 1"
        using finished_card [OF ft at_handD(3) [OF h]] jinv_finite [OF W(1)] by simp
      ultimately show ?thesis using Inr x False ts by (simp add: ds work_left_def)
    qed
  qed
qed

text \<open>Waiting: a result is there for a task that was dispatched, and for no other.\<close>

lemma wait_step_ok:
  assumes w: "winv cfg Unlocked w" and env: "env_ok env w"
  shows "\<exists>tid res w'. wait_step env w = Inr ((tid, res), w') \<and> winv cfg (Collected tid res) w' \<and>
    work_left w' = work_left w \<and> active (Collected tid res) w' = active Unlocked w \<and>
    submission_list (js w') = submission_list (js w) \<and> task_list (js w') = task_list (js w)"
proof -
  let ?st = "js w" and ?ts = "tstate w" and ?R = "ran (handle_map (js w))"
  note W = winvD [OF w, unfolded active_def, simplified]
  have ne: "handles ?ts \<noteq> []" using w by (auto simp: winv_def)
  have "select_ok (env_select env) ?ts" if "finished ?ts = []"
    using env ne that by (simp add: env_ok_def handles_def)
  moreover have "distinct (handles ?ts)" using W(2) by (simp add: handles_ok_def)
  ultimately obtain h res ts' where wa: "WaitAnyResult (env_select env) (env_read env) (env_pos env) ?ts = Inr ((h, res), ts')"
    and m: "add_mset h (mset (handles ts')) = mset (handles ?ts)" and i: "pool_init ts' = pool_init ?ts"
    using WaitAnyResult_ok ne by metis
  let ?st' = "?st\<lparr>handle_map := (handle_map ?st)(h := None)\<rparr>"
  obtain tid where t: "handle_map ?st h = Some tid" and ho: "handles_ok ?st' ts'"
    and n: "tid \<notin> ran (handle_map ?st')" and r: "?R = insert tid (ran (handle_map ?st'))"
    and l: "length (handles ?ts) = Suc (length (handles ts'))"
    using handles_ok_stop [OF W(2) m, of ?st'] by auto
  have po: "pools_ok cfg ts'" by (rule WaitAnyResult_pools [OF W(3) ne wa i])
  let ?w = "w\<lparr>js := ?st', tstate := ts'\<rparr>"
  have ws: "wait_step env w = Inr ((tid, res), ?w)"
    using wa t by (simp add: wait_step_def WaitTask_def)
  have a: "active (Collected tid res) ?w = active Unlocked w" using r by (simp add: active_def)
  have "jinv ?R ?R ?st'" using W(1) by simp
  then have "winv cfg (Collected tid res) ?w"
    unfolding winv_def a using ho po n W(5,6) l by (simp add: active_def)
  then show ?thesis using ws a by (intro exI [of _ tid] exI [of _ res] exI [of _ ?w]) (simp add: work_left_def)
qed

text \<open>Finalizing the collected task: only the message of a compilation can be unreadable.\<close>

lemma finalize_step_ok:
  assumes w: "winv cfg (Collected tid res) w"
  shows "case finalize_step cfg fs (tid, res) w of
      Inl e \<Rightarrow> e = FsError
    | Inr w' \<Rightarrow> winv cfg Locked w' \<and> work_left w' < work_left w"
proof -
  let ?st = "js w" and ?R = "ran (handle_map (js w))"
  note W = winvD [OF w, unfolded active_def, simplified]
  have j: "jinv (insert tid ?R) (insert tid ?R) ?st" using W(1) by simp
  from task_at_hand [OF j W(4)] obtain t sr where h: "at_hand ?R (insert tid ?R) ?st tid t sr" by blast
  have "task_type (te_task t) = SCORING \<Longrightarrow> nat (subtask (te_task t)) < length (td_results (result sr))"
    using jinvD(7) [OF j] at_handD(3,4) [OF h] by (simp add: running_ok_def)
  from finish_run [OF h this, of cfg fs res]
  consider "FinalizeTask cfg fs tid res False ?st = Inl FsError"
    | st' where "FinalizeTask cfg fs tid res False ?st = Inr st'" "finished_task ?R (insert tid ?R) tid t ?st st'"
    by blast
  then show ?thesis
  proof cases
    case 1
    then show ?thesis by (simp add: finalize_step_def)
  next
    case 2
    have j': "jinv ?R ?R st'" and hm: "handle_map st' = handle_map ?st"
      using 2(2) W(4) by (simp_all add: finished_task_def)
    have "handles_ok st' (tstate w)" using W(2) unfolding handles_ok_def hm .
    then have "winv cfg Locked (w\<lparr>js := st', task_running := task_running w - 1\<rparr>)"
      using j' hm W by (simp add: winv_def active_def)
    moreover have "int (card (dom (task_list st'))) = int (card (dom (task_list ?st))) - 1"
      by (rule finished_card [OF 2(2) at_handD(3) [OF h] jinv_finite [OF W(1)]])
    ultimately show ?thesis using 2(1) by (simp add: finalize_step_def work_left_def)
  qed
qed

section \<open>Properties\<close>

text \<open>
  C39: Waiting delivers each task once: if a task is running or finished and \<open>select\<close> reports some running task
  when it is called, the wait returns the handle of a task, which is then forgotten, and no other one is.
\<close>

theorem wait_delivers_once:
  assumes "distinct (handles ts)" "handles ts \<noteq> []" "finished ts \<noteq> [] \<or> select_ok sel ts"
  shows "\<exists>h r ts'. WaitAnyResult sel res pos ts = Inr ((h, r), ts') \<and> h \<in> set (handles ts) \<and>
    distinct (handles ts') \<and> set (handles ts') = set (handles ts) - {h}"
proof -
  obtain h r ts' where w: "WaitAnyResult sel res pos ts = Inr ((h, r), ts')"
    and m: "add_mset h (mset (handles ts')) = mset (handles ts)"
    using WaitAnyResult_ok [OF assms(1,2)] assms(3) by metis
  have "mset (h # handles ts') = mset (handles ts)" using m by simp
  from mset_eq_imp_distinct_iff [OF this] mset_eq_setD [OF this] assms(1)
  have "distinct (h # handles ts')" "set (h # handles ts') = set (handles ts)" by simp_all
  then show ?thesis using w by auto
qed

theorem wait_delivers_once_witness:
  "\<exists>h r ts'. WaitAnyResult (Some {8}) (\<lambda>_. cjail_zero) 0
      \<lparr>uid_pool = [], cpuid_pool = [], pool_init = True, running = [(7, 100, 50000, -1), (8, 101, 50001, -1)], finished = []\<rparr> = Inr ((h, r), ts') \<and>
    h \<in> set (handles \<lparr>uid_pool = [], cpuid_pool = [], pool_init = True, running = [(7, 100, 50000, -1), (8, 101, 50001, -1)], finished = []\<rparr>) \<and>
    distinct (handles ts') \<and>
    set (handles ts') = set (handles \<lparr>uid_pool = [], cpuid_pool = [], pool_init = True, running = [(7, 100, 50000, -1), (8, 101, 50001, -1)], finished = []\<rparr>) - {h}"
  by (rule wait_delivers_once) (simp_all add: handles_def select_ok_def)

end
