(* ===== verification/Judge.thy ===== *)
theory Judge
  imports WorkLoop
begin

text \<open>
  The whole judge as a transition system: the worker's steps between lock operations, interleaved
  with \<open>PushSubmission\<close> from the server's threads whenever the lock is free. The invariant \<open>winv\<close>
  holds in every reachable state; from it follow safety of each next step, the exclusive use of user
  ids and CPUs, the order of tasks, and that the loop ends with every submission finalized.
\<close>

section \<open>The transitions\<close>

text \<open>
  \<open>task_cv.wait\<close> releases the lock too: a push can come whenever the worker does not hold the lock,
  or has nothing to do.
\<close>

inductive judge_step :: "Config \<Rightarrow> worker \<times> World \<Rightarrow> worker \<times> World \<Rightarrow> bool" for cfg :: Config where
  dispatch: "loop_guard w \<Longrightarrow> dispatching cfg w \<Longrightarrow> is_top (js w) tid \<Longrightarrow> env_ok env w \<Longrightarrow>
    dispatch_step cfg env tid w = Inr w' \<Longrightarrow> judge_step cfg (Locked, w) (Locked, w')"
| release: "loop_guard w \<Longrightarrow> \<not> dispatching cfg w \<Longrightarrow> judge_step cfg (Locked, w) (Unlocked, w)"
| wait: "env_ok env w \<Longrightarrow> wait_step env w = Inr ((tid, res), w') \<Longrightarrow>
    judge_step cfg (Unlocked, w) (Collected tid res, w')"
| finalize: "finalize_step cfg fs (tid, res) w = Inr w' \<Longrightarrow> judge_step cfg (Collected tid res, w) (Locked, w')"
| push: "pc \<noteq> Locked \<or> \<not> loop_guard w \<Longrightarrow> push_pre sb (js w) \<Longrightarrow>
    PushSubmission sb max_queue (js w) = Inr (b, st) \<Longrightarrow> judge_step cfg (pc, w) (pc, w\<lparr>js := st\<rparr>)"

inductive_cases judge_stepE: "judge_step cfg s s'"

definition judge_init :: "worker \<times> World \<Rightarrow> bool" where
  "judge_init s \<longleftrightarrow> s = (Locked, World_init)"

lemma winv_push:
  assumes w: "winv cfg pc w" and pre: "push_pre sb (js w)" and ps: "PushSubmission sb max_queue (js w) = Inr (b, st)"
  shows "winv cfg pc (w\<lparr>js := st\<rparr>)"
proof (cases "max_queue = 0 \<or> CurrentSubmissionQueueSize (js w) < max_queue")
  case True
  note W = winvD [OF w]
  from push_jinv [OF W(1) subset_refl pre True] ps
  have j: "jinv (active pc w) (active pc w) st" and hm: "handle_map st = handle_map (js w)" by auto
  have a: "active pc (w\<lparr>js := st\<rparr>) = active pc w" by (simp add: active_def hm)
  have "handles_ok st (tstate w)" using W(2) unfolding handles_ok_def hm .
  moreover have f: "js (w\<lparr>js := st\<rparr>) = st" "tstate (w\<lparr>js := st\<rparr>) = tstate w"
    "task_running (w\<lparr>js := st\<rparr>) = task_running w" by simp_all
  moreover have "pc = Unlocked \<longrightarrow> 0 < task_running w" using w unfolding winv_def by blast
  ultimately show ?thesis using j W(3-6) unfolding winv_def a f hm by blast
next
  case False
  then have "st = js w" using ps by (simp add: PushSubmission_def)
  then show ?thesis using w by simp
qed

lemma winv_release:
  assumes "winv cfg Locked w" "loop_guard w" "\<not> dispatching cfg w" "config_ok cfg"
  shows "winv cfg Unlocked w"
proof -
  have "0 < task_running w"
    using assms winvD(5,6) [OF assms(1)] by (auto simp: loop_guard_def dispatching_def config_ok_def)
  then show ?thesis using assms(1) by (simp add: winv_def active_def)
qed

interpretation judge: invariant_system judge_init "judge_step cfg"
  "\<lambda>s. config_ok cfg \<longrightarrow> winv cfg (fst s) (snd s)" for cfg
proof
  fix s :: "worker \<times> World"
  assume "judge_init s"
  then show "config_ok cfg \<longrightarrow> winv cfg (fst s) (snd s)" by (simp add: judge_init_def winv_init)
next
  fix s s' :: "worker \<times> World"
  assume i: "config_ok cfg \<longrightarrow> winv cfg (fst s) (snd s)" and st: "judge_step cfg s s'"
  show "config_ok cfg \<longrightarrow> winv cfg (fst s') (snd s')"
  proof
    assume c: "config_ok cfg"
    with i have w: "winv cfg (fst s) (snd s)" by blast
    from st show "winv cfg (fst s') (snd s')"
    proof (cases rule: judge_step.cases)
      case (dispatch w0 tid env w1)
      then have "tid \<in> set (task_queue (js w0))" by (simp add: is_top_def)
      with dispatch_step_ok [of cfg w0 env tid] dispatch w c show ?thesis by simp
    next
      case (release w0)
      with winv_release [of cfg w0] w c show ?thesis by simp
    next
      case (wait env w0 tid res w1)
      with wait_step_ok [of cfg w0 env] w show ?thesis by auto
    next
      case (finalize fs tid res w0 w1)
      with finalize_step_ok [of cfg tid res w0 fs] w show ?thesis by simp
    next
      case (push pc w0 sb max_queue b st)
      with winv_push [of cfg pc w0 sb max_queue b st] w show ?thesis by simp
    qed
  qed
qed

lemma reachable_winv:
  assumes "reachable judge_init (judge_step cfg) (pc, w)" "config_ok cfg"
  shows "winv cfg pc w"
  using judge.reachable_holds [OF assms(1)] assms(2) by simp

section \<open>Ending\<close>

lemma loop_guard_False:
  assumes "winv cfg Locked w" "\<not> loop_guard w"
  shows "task_list (js w) = Map.empty" "submission_list (js w) = Map.empty" "handles (tstate w) = []"
    "handle_map (js w) = Map.empty"
proof -
  note W = winvD [OF assms(1), unfolded active_def, simplified]
  show h: "handles (tstate w) = []" using W(5) assms(2) by (simp add: loop_guard_def)
  then show hm: "handle_map (js w) = Map.empty" using W(2) by (simp add: handles_ok_def)
  have "ready (task_list (js w)) = {}"
    using jinvD(2) [OF W(1)] assms(2) by (simp add: queue_ok_def loop_guard_def hm)
  then show t: "task_list (js w) = Map.empty" using graph_ok_ready [OF jinvD(1) [OF W(1)]] by auto
  show "submission_list (js w) = Map.empty"
  proof
    fix k
    show "submission_list (js w) k = None"
      using jinvD(5) [OF W(1)] t by (cases "submission_list (js w) k") (auto simp: subs_ok_def summary_of_def)
  qed
qed

lemma card_running:
  assumes "winv cfg Locked w"
  shows "task_running w \<le> int (card (dom (task_list (js w))))" "0 \<le> task_running w"
proof -
  let ?st = "js w" and ?ts = "tstate w" and ?hm = "handle_map (js w)"
  note W = winvD [OF assms, unfolded active_def, simplified]
  have h: "distinct (handles ?ts)" "dom ?hm = set (handles ?ts)" "inj_on ?hm (dom ?hm)"
    using W(2) unfolding handles_ok_def by blast+
  have "ran ?hm \<subseteq> dom (task_list ?st)"
    using running_ready [OF jinvD(2) [OF W(1)]] by (auto simp: ready_def)
  then have "card (ran ?hm) \<le> card (dom (task_list ?st))" using jinv_finite [OF W(1)] by (rule card_mono [rotated])
  moreover have "card (ran ?hm) = card (dom ?hm)"
  proof -
    have "Some ` ran ?hm = ?hm ` dom ?hm" by (force simp: ran_def)
    moreover have "card (Some ` ran ?hm) = card (ran ?hm)" by (rule card_image) simp
    ultimately show ?thesis using card_image [OF h(3)] by simp
  qed
  moreover have "card (dom ?hm) = length (handles ?ts)" using h(1,2) by (simp add: distinct_card)
  ultimately show "task_running w \<le> int (card (dom (task_list ?st)))" "0 \<le> task_running w" using W(5) by simp_all
qed

lemma work_left_nonneg: "winv cfg Locked w \<Longrightarrow> 0 \<le> work_left w"
  using card_running by (fastforce simp: work_left_def)

lemma no_work_left:
  assumes "winv cfg Locked w" "work_left w \<le> 0"
  shows "\<not> loop_guard w"
proof -
  have c: "card (dom (task_list (js w))) = 0" and r: "task_running w = 0"
    using card_running [OF assms(1)] assms(2) by (auto simp: work_left_def)
  then have "dom (task_list (js w)) = {}" using jinv_finite [OF winvD(1) [OF assms(1)]] by simp
  then have "ready (task_list (js w)) = {}" by (simp add: ready_def)
  then have "task_queue (js w) = []" using jinvD(2) [OF winvD(1) [OF assms(1)]] by (simp add: queue_ok_def)
  with r show ?thesis by (simp add: loop_guard_def)
qed

text \<open>A whole round, without a push between its steps.\<close>

lemma loop_body_ok:
  assumes w: "winv cfg Locked w" "config_ok cfg" "loop_guard w" "env_ok env w" "is_top (js w) tid \<or> task_queue (js w) = []"
  shows "case loop_body cfg env tid w of
      Inl e \<Rightarrow> e = FsError \<or> e = LengthError
    | Inr w' \<Rightarrow> winv cfg Locked w' \<and> work_left w' < work_left w"
proof (cases "dispatching cfg w")
  case True
  then have "tid \<in> set (task_queue (js w))" using w(5) by (auto simp: is_top_def dispatching_def)
  from dispatch_step_ok [OF w(1,2) True w(4) this] show ?thesis using True by (simp add: loop_body_def)
next
  case False
  obtain tid' res w1 where "wait_step env w = Inr ((tid', res), w1)" "winv cfg (Collected tid' res) w1"
      "work_left w1 = work_left w"
    using wait_step_ok [OF winv_release [OF w(1,3) False w(2)] w(4)] by auto
  then show ?thesis using finalize_step_ok [of cfg tid' res w1 "env_fs env"] False
    by (auto simp: loop_body_def split: sum.splits)
qed

lemma inner_loop_ends:
  assumes "winv cfg Locked w" "config_ok cfg" "\<forall>i w. env_ok (env i w) w"
    and "\<forall>st. task_queue st = [] \<or> is_top st (pick st)" "work_left w \<le> int n"
  shows "inner_loop cfg env pick n w = Some (Inl FsError) \<or> inner_loop cfg env pick n w = Some (Inl LengthError) \<or>
    (\<exists>w'. inner_loop cfg env pick n w = Some (Inr w') \<and> winv cfg Locked w' \<and> \<not> loop_guard w')"
  using assms(1,5)
proof (induction n arbitrary: w)
  case 0
  then show ?case using no_work_left [of cfg w] by simp
next
  case (Suc n)
  show ?case
  proof (cases "loop_guard w")
    case True
    note B = loop_body_ok [OF Suc.prems(1) assms(2) True, of "env n w" "pick (js w)"]
    show ?thesis
    proof (cases "loop_body cfg (env n w) (pick (js w)) w")
      case (Inl e)
      then show ?thesis using B assms(3,4) True by auto
    next
      case (Inr w')
      have "winv cfg Locked w'" "work_left w' < work_left w" using B assms(3,4) Inr by auto
      with Suc.IH [of w'] Suc.prems(2) show ?thesis using True Inr by simp
    qed
  next
    case False
    then show ?thesis using Suc.prems(1) by auto
  qed
qed

section \<open>Every next step\<close>

text \<open>The worker's next operation, as a function of what it meets.\<close>

definition worker_step :: "Config \<Rightarrow> Env \<Rightarrow> int \<Rightarrow> worker \<times> World \<Rightarrow> error + worker \<times> World" where
  "worker_step cfg env tid s =
     (case s of
        (Locked, w) \<Rightarrow>
          if \<not> loop_guard w then Inr s
          else if dispatching cfg w then and_then (dispatch_step cfg env tid w) (\<lambda>w. Inr (Locked, w))
          else Inr (Unlocked, w)
      | (Unlocked, w) \<Rightarrow> and_then (wait_step env w) (\<lambda>((tid, res), w). Inr (Collected tid res, w))
      | (Collected tid res, w) \<Rightarrow>
          and_then (finalize_step cfg (env_fs env) (tid, res) w) (\<lambda>w. Inr (Locked, w)))"

lemma worker_step_ok:
  assumes w: "winv cfg pc w" and cfg: "config_ok cfg" and env: "env_ok env w"
    and tid: "task_queue (js w) = [] \<or> is_top (js w) tid"
  shows "case worker_step cfg env tid (pc, w) of
      Inl e \<Rightarrow> e = FsError \<or> e = LengthError
    | Inr s \<Rightarrow> s = (pc, w) \<or> judge_step cfg (pc, w) s"
proof (cases pc)
  case Locked
  show ?thesis
  proof (cases "loop_guard w \<and> dispatching cfg w")
    case True
    then have "is_top (js w) tid" using tid by (simp add: dispatching_def)
    moreover from this have "tid \<in> set (task_queue (js w))" by (simp add: is_top_def)
    ultimately show ?thesis
      using dispatch_step_ok [of cfg w env tid] w cfg env True Locked
      by (auto simp: worker_step_def split: sum.splits intro: judge_step.dispatch)
  next
    case False
    then show ?thesis using Locked by (auto simp: worker_step_def intro: judge_step.release)
  qed
next
  case Unlocked
  then obtain tid' res w' where "wait_step env w = Inr ((tid', res), w')"
    using wait_step_ok [of cfg w env] w env by auto
  then show ?thesis using Unlocked env by (auto simp: worker_step_def intro: judge_step.wait)
next
  case (Collected tid' res)
  then show ?thesis
    using finalize_step_ok [of cfg tid' res w "env_fs env"] w
    by (auto simp: worker_step_def split: sum.splits intro: judge_step.finalize)
qed

text \<open>Every choice of a possible next task finds the tasks it waits for gone.\<close>

lemma top_preceded:
  assumes w: "winv cfg pc w" and x: "x \<in> set (task_queue (js w)) \<or> x \<in> active pc w"
    and t: "task_list (js w) x = Some t" and s: "submission_list (js w) (te_submission t) = Some sr"
    and u: "task_list (js w) y = Some u" "te_submission u = te_submission t"
  shows "\<not> must_precede (problem_prog_stages (sub sr)) (te_task u) (te_task t)"
proof -
  note j = winvD(1) [OF w]
  have "x \<in> ready (task_list (js w))" using jinvD(2) [OF j] x by (auto simp: queue_ok_def)
  from ready_first [OF jinvD(1,4) [OF j] this u(1) t u(2)] s u(2) show ?thesis by simp
qed

lemma distinct_count_le: "distinct xs \<Longrightarrow> count (mset xs) x \<le> 1"
  by (simp add: distinct_count_atmost_1)

lemma uids_exclusive:
  assumes "winv cfg pc w"
  shows "count (uids_held (tstate w)) u \<le> 1"
    and "u \<in># uids_held (tstate w) \<Longrightarrow> u \<notin> set (uid_pool (tstate w)) \<and> 50000 \<le> u \<and> u < 50100"
proof -
  let ?ts = "tstate w"
  have e: "uids_held ?ts = {#}" if "\<not> pool_init ?ts"
    using winvD(3) [OF assms] that by (simp add: pools_ok_def uids_held_def handles_def)
  have s: "uids_free ?ts + uids_held ?ts = all_uids" if "pool_init ?ts"
    using winvD(3) [OF assms] that by (simp add: pools_ok_def)
  have c: "count all_uids x \<le> 1" for x
    unfolding all_uids_def by (rule distinct_count_le) (simp add: distinct_map inj_on_def)
  show "count (uids_held ?ts) u \<le> 1"
    using uids.no_sharing(1) [OF s c] e by (cases "pool_init ?ts") simp_all
  assume u: "u \<in># uids_held ?ts"
  with e have i: "pool_init ?ts" by fastforce
  have "u \<in># all_uids" using u s [OF i] by (metis union_iff)
  moreover have "u \<notin> set (uid_pool ?ts)" using uids.no_sharing(2) [OF s [OF i] c u] by (simp add: uids_free_def)
  ultimately show "u \<notin> set (uid_pool ?ts) \<and> 50000 \<le> u \<and> u < 50100"
    by (auto simp: all_uids_def kUidBase_def kUidPoolSize_def)
qed

lemma cpus_exclusive:
  assumes "winv cfg pc w" "distinct (kPinnedCpus cfg)"
  shows "count (cpus_held (tstate w)) c \<le> 1"
    and "c \<in># cpus_held (tstate w) \<Longrightarrow> c \<in> set (kPinnedCpus cfg) \<and> c \<notin> set (cpuid_pool (tstate w))"
proof -
  let ?ts = "tstate w" and ?all = "filter_mset (\<lambda>c. c \<noteq> -1) (mset (kPinnedCpus cfg))"
  have e: "cpus_held ?ts = {#}" if "\<not> pool_init ?ts"
    using winvD(3) [OF assms(1)] that by (simp add: pools_ok_def cpus_held_def handles_def)
  have s: "cpus_free ?ts + cpus_held ?ts = ?all" if "pool_init ?ts"
    using winvD(3) [OF assms(1)] that by (simp add: pools_ok_def)
  have a: "count ?all x \<le> 1" for x
    using distinct_count_le [OF assms(2), of x] by simp
  show "count (cpus_held ?ts) c \<le> 1"
    using cpus.no_sharing(1) [OF s a] e by (cases "pool_init ?ts") simp_all
  assume c: "c \<in># cpus_held ?ts"
  with e have i: "pool_init ?ts" by fastforce
  have "c \<in># ?all" using c s [OF i] by (metis union_iff)
  moreover have "c \<notin># cpus_free ?ts" by (rule cpus.no_sharing(2) [OF s [OF i] a c])
  ultimately show "c \<in> set (kPinnedCpus cfg) \<and> c \<notin> set (cpuid_pool ?ts)"
    by (simp add: cpus_free_def)
qed

lemma distinct_from_count: "(\<And>x. count (mset xs) x \<le> 1) \<Longrightarrow> distinct xs"
proof (induction xs)
  case (Cons a xs)
  have "count (mset xs) x \<le> 1" for x
  proof -
    have "count (mset xs) x \<le> count (mset (a # xs)) x" by simp
    also have "\<dots> \<le> 1" by (rule Cons.prems)
    finally show ?thesis .
  qed
  moreover have "a \<notin> set xs" using Cons.prems [of a] by (auto simp: count_eq_zero_iff)
  ultimately show ?case using Cons.IH by simp
qed simp

section \<open>The number of tasks of a submission\<close>

definition tasks_of_submission :: "Submission \<Rightarrow> int" where
  "tasks_of_submission sb =
     1 + int (length (testdata sb)) *
         (if judge_between_stages sb then 2 * stages sb else stages sb + 1) +
     int (length (wanted_compiles sb))"

lemma push_end_count: "1 \<le> stages sb \<Longrightarrow> push_end sb c = c + tasks_of_submission sb"
  by (simp add: push_end_def td_base_def chain_len_def tasks_of_submission_def algebra_simps)

lemma push_effect:
  assumes "winv cfg pc w" "push_pre sb (js w)" "k = 0 \<or> CurrentSubmissionQueueSize (js w) < k"
  shows "\<exists>st. PushSubmission sb k (js w) = Inr (True, st) \<and>
    submission_list st = (submission_list (js w))(submission_internal_id sb \<mapsto>
      \<lparr>sub = clamp_stages sb, result = SubmissionResult_init\<rparr>) \<and>
    int (card (dom (task_list st))) = int (card (dom (task_list (js w)))) + tasks_of_submission (clamp_stages sb) \<and>
    map_le (task_list (js w)) (task_list st)"
proof -
  note j = winvD(1) [OF assms(1)]
  let ?sb = "clamp_stages sb" and ?c = "task_count (js w)"
  obtain B st where ps: "PushSubmission sb k (js w) = Inr (True, st)"
    and pu: "pushed ?sb (submission_internal_id sb) ?c (wanted_compiles ?sb) B"
    and d: "dom (task_list (js w)) \<inter> dom B = {}" and tl: "task_list st = task_list (js w) ++ B"
    and sl: "submission_list st = (submission_list (js w))(submission_internal_id sb \<mapsto>
      \<lparr>sub = ?sb, result = SubmissionResult_init\<rparr>)"
    by (rule push_state [OF j assms(2,3)])
  have dB: "dom B = {?c ..< push_end ?sb ?c}"
    using pu by (auto simp: pushed_def Let_def built_def push_end_def)
  have s: "1 \<le> stages ?sb" by (simp add: clamp_stages_def)
  have "0 \<le> tasks_of_submission ?sb" using s by (simp add: tasks_of_submission_def)
  then have "int (card (dom B)) = tasks_of_submission ?sb" by (simp add: dB push_end_count [OF s])
  moreover have "dom (task_list st) = dom (task_list (js w)) \<union> dom B" by (auto simp: tl)
  moreover have "finite (dom B)" by (simp add: dB)
  ultimately have "int (card (dom (task_list st))) = int (card (dom (task_list (js w)))) + tasks_of_submission ?sb"
    using card_Un_disjoint [OF jinv_finite [OF j] _ d] by simp
  moreover have "task_list st t = task_list (js w) t" if "t \<in> dom (task_list (js w))" for t
  proof -
    have "B t = None" using d that by blast
    then show ?thesis by (simp add: tl map_add_def)
  qed
  then have "map_le (task_list (js w)) (task_list st)" by (simp add: map_le_def)
  ultimately show ?thesis using ps sl by blast
qed

lemma push_refused:
  assumes "push_pre sb st"
  shows "(\<exists>st'. PushSubmission sb k st = Inr (False, st')) \<longleftrightarrow> 0 < k \<and> k \<le> CurrentSubmissionQueueSize st"
proof -
  have p: "push_ok (clamp_stages sb)" using assms by (simp add: push_pre_def Let_def)
  obtain B where "build_graph (clamp_stages sb) (narrow_int (submission_internal_id (clamp_stages sb))) (task_count st) = Inr B"
    using build_graph_ok [OF p] by blast
  then show ?thesis by (cases B) (auto simp: PushSubmission_def Let_def)
qed

end
