(* ===== verification/Sample.thy ===== *)
theory Sample
  imports Judge
begin

text \<open>
  A small concrete judge: a configuration, a submission with one testdata in one group, the state
  after it is pushed, and an environment in which every system call succeeds. The properties of the
  other theories are applied to it.
\<close>

definition sample_config :: Config where
  "sample_config = \<lparr>kMaxParallel = 2, kPinnedCpus = [0, 2], kMaxRSS = 2 ^ 31, kMaxOutput = 2 ^ 31,
     kTimeMultiplier = 1, kBoxRoot = ''/tmp/box'', kSubmissionRoot = ''/tmp/sub'',
     kDataDir = ''/var/data'', kTestdataRoot = ''/var/td''\<rparr>"

definition sample_item :: TestdataItem where
  "sample_item = \<lparr>input_file = ''/var/td/1.in'', answer_file = ''/var/td/1.out'', lim_vss = 65536,
     lim_rss = 65536, lim_output = 65536, lim_time = 1000000, ignore_verdict = False, td_groups = [0]\<rparr>"

definition sample_submission :: Submission where
  "sample_submission =
     (Submission_init 7 5 False)\<lparr>testdata := [sample_item], group_score := [100000000]\<rparr>"

definition sample_world :: World where
  "sample_world = World_init\<lparr>js := snd (projr (PushSubmission sample_submission 0 JState_init))\<rparr>"

definition sample_env :: "World \<Rightarrow> Env" where
  "sample_env w =
     \<lparr>env_fs = \<lparr>is_regular = \<lambda>_. True, fs_exists = \<lambda>_. True, file_size = \<lambda>_. Some 0,
        file_text = \<lambda>_. Some [], file_json = \<lambda>_. None, header_files = []\<rparr>,
      env_pipe = Some (Max (insert 0 (set (handles (tstate w)))) + 1), env_pid = 100,
      env_select = Some (fst ` set (running (tstate w))), env_read = \<lambda>_. cjail_zero, env_pos = 0\<rparr>"

text \<open>A choice of \<open>top()\<close>: the first entry of the queue that is below no other.\<close>

definition sample_top :: "JState \<Rightarrow> int" where
  "sample_top st = (case filter (is_top st) (task_queue st) of [] \<Rightarrow> 0 | x # _ \<Rightarrow> x)"

lemma sample_config_ok: "config_ok sample_config"
  by (simp add: config_ok_def sample_config_def kUidPoolSize_def)

lemma sample_env_ok: "env_ok (sample_env w) w"
proof -
  let ?S = "insert 0 (set (handles (tstate w)))"
  have "Max ?S + 1 \<notin> ?S"
  proof
    assume "Max ?S + 1 \<in> ?S"
    then have "Max ?S + 1 \<le> Max ?S" by (intro Max_ge) auto
    then show False by simp
  qed
  then show ?thesis
    by (auto simp: env_ok_def sample_env_def select_ok_def neq_Nil_conv) blast
qed

lemma sample_push:
  "PushSubmission sample_submission 0 st =
     (case build_graph (clamp_stages sample_submission) 7 (task_count st) of
        Inl e \<Rightarrow> Inl e
      | Inr (ks, B, c) \<Rightarrow>
          Inr (True, enqueue (clamp_stages sample_submission) 7 (insert_batch B ks (st\<lparr>task_count := c\<rparr>))))"
proof -
  have "narrow_int (submission_internal_id (clamp_stages sample_submission)) = 7" by code_simp
  then show ?thesis by (simp add: PushSubmission_def Let_def split: sum.split prod.split)
qed

lemma sample_queue: "task_queue (js sample_world) = [3]"
  unfolding sample_world_def World_init_def JState_init_def TState_init_def sample_push by code_simp

lemma sample_pre: "push_pre sample_submission JState_init"
proof -
  have n: "narrow_int (submission_internal_id sample_submission) = submission_internal_id sample_submission"
    by code_simp
  have "first_prob_stage (clamp_stages sample_submission) = -1"
    by (simp add: first_prob_stage_def clamp_stages_def sample_submission_def Submission_init_def)
  then have "push_ok (clamp_stages sample_submission)"
    by (simp add: push_ok_def) (simp add: clamp_stages_def)
  then show ?thesis
    using n by (simp add: push_pre_def Let_def JState_init_def groups_ok_def)
      (simp add: sample_submission_def Submission_init_def sample_item_def)
qed

lemma sample_pushed:
  "\<exists>st. PushSubmission sample_submission 0 JState_init = Inr (True, st) \<and> js sample_world = st \<and>
     dom (submission_list st) = {7} \<and> jinv {} {} st"
proof -
  have "max_queue = 0 \<Longrightarrow> submission_internal_id sample_submission = 7" for max_queue :: nat
    by (simp add: sample_submission_def Submission_init_def)
  moreover have "submission_list JState_init = Map.empty" by (simp add: JState_init_def)
  ultimately show ?thesis
    using push_jinv [OF jinv_init subset_refl sample_pre, of 0] by (auto simp: sample_world_def split: if_splits)
qed

lemma sample_reachable: "reachable judge_init (judge_step cfg) (Locked, sample_world)"
proof -
  obtain st where st: "PushSubmission sample_submission 0 JState_init = Inr (True, st)" "js sample_world = st"
    using sample_pushed by blast
  have "reachable judge_init (judge_step cfg) (Locked, World_init)"
    by (rule reachable.start) (simp add: judge_init_def)
  moreover have "judge_step cfg (Locked, World_init) (Locked, World_init\<lparr>js := st\<rparr>)"
    by (rule judge_step.push [where sb = sample_submission and max_queue = 0 and b = True])
      (use sample_pre st in \<open>simp_all add: World_init_def loop_guard_def JState_init_def\<close>)
  moreover have "sample_world = World_init\<lparr>js := st\<rparr>" using st by (simp add: sample_world_def)
  ultimately show ?thesis using reachable.next_state by metis
qed

lemma sample_dispatching: "dispatching sample_config sample_world" "loop_guard sample_world"
  using sample_queue by (simp_all add: dispatching_def loop_guard_def sample_config_def)
    (simp add: sample_world_def World_init_def)

lemma sample_top_ok: "task_queue st = [] \<or> is_top st (sample_top st)"
proof (cases "filter (is_top st) (task_queue st)")
  case Nil
  then have "\<nexists>x. is_top st x" by (auto simp: filter_empty_conv is_top_def)
  then show ?thesis using top_exists by blast
next
  case (Cons x xs)
  have "x \<in> set (filter (is_top st) (task_queue st))" unfolding Cons by simp
  then have "is_top st x" unfolding set_filter by blast
  then show ?thesis using Cons by (simp add: sample_top_def)
qed

end
