(* ===== verification/Options.thy ===== *)
theory Options
  imports Sandbox Execute
begin

text \<open>
  The child side of \<open>src/tioj/tasks.cpp\<close>: the sandbox options \<open>RunCompile\<close>, \<open>RunExecute\<close>, \<open>RunScoring\<close>
  and \<open>RunSummary\<close> pass to \<open>SandboxExec\<close>. Proved: the limits are tight above those the verdict is
  taken from, nothing is mounted writable, the options pass the checks of the serializer, and the
  files named inside the box are the files the parent prepares.
\<close>

section \<open>Command lines\<close>

definition kRSSLimitMargin :: int where "kRSSLimitMargin = 1024"
definition kVSSLimitMargin :: int where "kVSSLimitMargin = 2048"

text \<open>Program and standard; \<open>None\<close> for the languages \<open>GccCompileCommand\<close> is not called with.\<close>

fun gcc_standard :: "Compiler \<Rightarrow> (string \<times> string) option" where
  "gcc_standard GCC_CPP_98 = Some (''g++'', ''-std=c++98'')"
| "gcc_standard GCC_CPP_11 = Some (''g++'', ''-std=c++11'')"
| "gcc_standard GCC_CPP_14 = Some (''g++'', ''-std=c++14'')"
| "gcc_standard GCC_CPP_17 = Some (''g++'', ''-std=c++17'')"
| "gcc_standard GCC_CPP_20 = Some (''g++'', ''-std=c++20'')"
| "gcc_standard GCC_C_90 = Some (''gcc'', ''-ansi'')"
| "gcc_standard GCC_C_99 = Some (''gcc'', ''-std=c99'')"
| "gcc_standard GCC_C_11 = Some (''gcc'', ''-std=c11'')"
| "gcc_standard GCC_C_17 = Some (''gcc'', ''-std=c17'')"
| "gcc_standard _ = None"

definition GccCompileCommand :: "string \<times> string \<Rightarrow> path \<Rightarrow> path \<Rightarrow> path \<Rightarrow> bool \<Rightarrow> string list" where
  "GccCompileCommand ps inp interlib outp is_static =
     (let (prog, std) = ps
      in [''/usr/bin/env'', prog, std, ''-O2'', ''-w''] @ (if is_static then [''-static''] else []) @
         [''-o'', outp, inp] @ (if interlib \<noteq> [] then [interlib] else []) @
         (if prog = ''gcc'' then [''-lm''] else []))"

fun ExecuteCommand :: "Compiler \<Rightarrow> path \<Rightarrow> string list" where
  "ExecuteCommand PYTHON2 program = [''/usr/bin/env'', ''python2'', program]"
| "ExecuteCommand PYTHON3 program = [''/usr/bin/env'', ''python3'', program]"
| "ExecuteCommand _ program = [program]"

text \<open>
  What the child finds around it. \<open>ce_wordexp\<close> is \<open>wordexp(3)\<close> without command substitution, with the
  variables that are set for the call; \<open>None\<close> is a failure. \<open>ce_path\<close> is \<open>getenv("PATH")\<close>, \<open>ce_exists\<close>
  the existence of a directory, \<open>ce_message_fd\<close> the value of \<open>open\<close> on the message file, and \<open>ce_pipes\<close>
  the ends of the two pipes, \<open>None\<close> if a call on the way to them fails.
\<close>

record ChildEnv =
  ce_wordexp :: "(string \<times> string) list \<Rightarrow> string \<Rightarrow> string list option"
  ce_path :: "string option"
  ce_exists :: "path \<Rightarrow> bool"
  ce_message_fd :: int
  ce_pipes :: "(int \<times> int) option"

definition ParseCommandLine :: "ChildEnv \<Rightarrow> string \<Rightarrow> path \<Rightarrow> path \<Rightarrow> string list" where
  "ParseCommandLine ce cmdline inp outp =
     (if cmdline = [] then []
      else case ce_wordexp ce [(''INPUT'', inp), (''OUTPUT'', outp)] cmdline of None \<Rightarrow> [] | Some ws \<Rightarrow> ws)"

definition ParseAdditionalArgs :: "ChildEnv \<Rightarrow> CompileSubtask \<Rightarrow> Submission \<Rightarrow> path \<Rightarrow> path \<Rightarrow> string list" where
  "ParseAdditionalArgs ce task sb inp outp =
     (case task of
        CS_USERPROG \<Rightarrow> ParseCommandLine ce (user_compile_args sb) inp outp
      | CS_SPECJUDGE \<Rightarrow> ParseCommandLine ce (specjudge_compile_args sb) inp outp
      | CS_SUMMARY \<Rightarrow> []
      | CS_PROBPROG \<Rightarrow> ParseCommandLine ce (problem_prog_compile_args sb) inp outp)"

section \<open>Options shared by the tasks\<close>

text \<open>\<open>x /= kTimeMultiplier\<close> on a \<open>long\<close>; the conversion back cuts the fraction off.\<close>

definition scale_time :: "Config \<Rightarrow> int \<Rightarrow> int" where
  "scale_time cfg x = trunc (dbl_round (dbl_round (of_int x) / kTimeMultiplier cfg))"

definition path_envs :: "ChildEnv \<Rightarrow> string list" where
  "path_envs ce = (case ce_path ce of None \<Rightarrow> [] | Some p \<Rightarrow> [''PATH='' @ p])"

definition pinned :: "int \<Rightarrow> int list" where
  "pinned cpuid = (if cpuid \<noteq> -1 then [cpuid] else [])"

definition base_dirs :: "string list" where
  "base_dirs = [''/usr'', ''/lib'', ''/lib64'', ''/etc/alternatives'', ''/bin'']"

definition judge_dirs :: "string list" where
  "judge_dirs = [''/usr'', ''/var/lib'', ''/lib'', ''/lib64'', ''/etc/alternatives'', ''/bin'']"

section \<open>Compilation\<close>

definition subtask_lang :: "Submission \<Rightarrow> CompileSubtask \<Rightarrow> Compiler" where
  "subtask_lang sb cs =
     (case cs of CS_USERPROG \<Rightarrow> lang sb | CS_SPECJUDGE \<Rightarrow> specjudge_lang sb
      | CS_SUMMARY \<Rightarrow> summary_lang sb | CS_PROBPROG \<Rightarrow> problem_prog_lang sb)"

definition quote3 :: string where
  "quote3 = [CHR 39, CHR 39, CHR 39]"

definition compile_command :: "Submission \<Rightarrow> Compiler \<Rightarrow> path \<Rightarrow> path \<Rightarrow> path \<Rightarrow> string list" where
  "compile_command sb lng inp interlib outp =
     (case gcc_standard lng of
        Some ps \<Rightarrow> GccCompileCommand ps inp interlib outp (sandbox_strict sb)
      | None \<Rightarrow>
          if lng = RUSTC_RUST_2021 then
            [''/usr/bin/env'', ''rustc'', inp, ''-O'', ''--edition=2021'', ''-o'', outp] @
            (if sandbox_strict sb then [''-C'', ''target-feature=+crt-static''] else [])
          else if lng = HASKELL then
            [''/usr/bin/env'', ''ghc'', ''-w'', ''-O'', ''-tmpdir'', ''.'', ''-o'', outp, inp] @
            (if sandbox_strict sb then [''-static'', ''-optl-pthread'', ''-optl-static'', ''-optl-fuse-ld=bfd''] else [])
          else if lng = PYTHON2 then [''/usr/bin/env'', ''python2'', ''-m'', ''py_compile'', inp]
          else if lng = PYTHON3 then
            [''/usr/bin/env'', ''python3'', ''-c'',
             ''import py_compile;py_compile.compile('' @ quote3 @ inp @ quote3 @ '','' @ quote3 @ outp @ quote3 @ '')'']
          else [])"

text \<open>Inside the box the submission number does not matter; the code passes \<open>-1\<close>.\<close>

definition RunCompile :: "Config \<Rightarrow> ChildEnv \<Rightarrow> Submission \<Rightarrow> Task \<Rightarrow> int \<Rightarrow> int \<Rightarrow> SandboxOptions" where
  "RunCompile cfg ce sb task uid cpuid =
     (let iid = submission_internal_id sb; cs = compile_subtask task; lng = subtask_lang sb cs;
          interlib = (if cs = CS_USERPROG \<and> interlib_type sb = Interlib_INCLUDE
                      then CompileBoxInterlibImpl cfg (-1) lng True else []);
          inp = CompileBoxInput cfg (-1) cs lng True;
          outp = CompileBoxOutput cfg (-1) cs lng True
      in FilterDirs (ce_exists ce) (SandboxOptions_init
           \<lparr>opt_boxdir := CompileBoxPath cfg iid cs,
            opt_command := compile_command sb lng inp interlib outp @
              (if cs = CS_SPECJUDGE then
                 (if specjudge_type sb = SPECJUDGE_NEW then [''-DTIOJ_NEW_SPECJUDGE'']
                  else if specjudge_type sb = SPECJUDGE_POLYGON then [''-DTESTSYS''] else [])
               else []) @
              ParseAdditionalArgs ce cs sb inp outp,
            opt_envs := (if lng = RUSTC_RUST_2021 then [''TMPDIR=.''] else []) @ path_envs ce,
            opt_workdir := Workdir ''/'', opt_input := ''/dev/null'',
            opt_fd_output := ce_message_fd ce, opt_fd_error := ce_message_fd ce,
            opt_cpu_set := pinned cpuid, opt_uid := uid, opt_gid := uid,
            opt_wall_time := scale_time cfg (60 * 1000000), opt_rss := kMaxRSS cfg, opt_proc_num := 32,
            opt_fsize := kMaxOutput cfg,
            opt_dirs := base_dirs @ (if lng = HASKELL then [''/var/lib/ghc''] else [])\<rparr>))"

section \<open>Execution\<close>

definition remaining_time :: "SubmissionAndResult \<Rightarrow> TestdataItem \<Rightarrow> int \<Rightarrow> int \<Rightarrow> int" where
  "remaining_time sr lm i stg =
     max 0 (if stg > 0 then lim_time lm - td_time (td_results (result sr) ! nat i) else lim_time lm)"

definition wall_limit :: "Config \<Rightarrow> int \<Rightarrow> int" where
  "wall_limit cfg lmt = scale_time cfg (max (trunc (dbl_round (dbl_round (of_int lmt) * dbl_round (12 / 10)))) (lmt + 1000000))"

definition cpu_limit :: "Config \<Rightarrow> int \<Rightarrow> int" where
  "cpu_limit cfg lmt = (let t = scale_time cfg (lmt + 50000) in if t \<le> 0 then 1 else t)"

definition rss_limit :: "Config \<Rightarrow> int \<Rightarrow> int" where
  "rss_limit cfg r =
     (if r \<le> 0 \<or> r \<ge> kMaxRSS cfg \<or> kMaxRSS cfg - r \<le> kRSSLimitMargin then kMaxRSS cfg else r + kRSSLimitMargin)"

definition vss_limit :: "int \<Rightarrow> int" where
  "vss_limit v =
     (if v \<le> 0 then 0 else if v > (2 ^ 63 - 1) - kVSSLimitMargin then 2 ^ 63 - 1 else v + kVSSLimitMargin)"

definition fsize_limit :: "Config \<Rightarrow> int \<Rightarrow> int" where
  "fsize_limit cfg f = (if f \<le> 0 \<or> f > kMaxOutput cfg then kMaxOutput cfg else f)"

text \<open>
  \<open>Inr None\<close> is the jump to the error exit, taken when a pipe fails. The results of earlier stages are
  read for later stages only.
\<close>

definition RunExecute ::
    "Config \<Rightarrow> ChildEnv \<Rightarrow> SubmissionAndResult \<Rightarrow> Task \<Rightarrow> int \<Rightarrow> int \<Rightarrow> error + SandboxOptions option" where
  "RunExecute cfg ce sr task uid cpuid =
     (let sb = sub sr; iid = submission_internal_id sb; i = subtask task; stg = stage task;
          lng = (if stg \<in> set (problem_prog_stages sb) then problem_prog_lang sb else lang sb);
          program = ExecuteBoxProgram cfg (-1) (-1) (-1) lng True
      in case nth_opt (testdata sb) (nat i) of
           None \<Rightarrow> Inl OutOfRange
         | Some lm \<Rightarrow>
             if stg > 0 \<and> nth_opt (td_results (result sr)) (nat i) = None then Inl OutOfRange
             else
               let limt = remaining_time sr lm i stg;
                   opt = SandboxOptions_init
                     \<lparr>opt_boxdir := ExecuteBoxPath cfg iid i stg,
                      opt_command := ExecuteCommand lng program @ (if stages sb > 1 then [to_string stg] else []),
                      opt_workdir := Workdir ''/'', opt_cpu_set := pinned cpuid, opt_uid := uid, opt_gid := uid,
                      opt_wall_time := wall_limit cfg limt, opt_cpu_time := cpu_limit cfg limt,
                      opt_rss := rss_limit cfg (lim_rss lm), opt_vss := vss_limit (lim_vss lm),
                      opt_proc_num := process_limit sb, opt_fsize := fsize_limit cfg (lim_output lm)\<rparr>
               in if sandbox_strict sb then
                    (let opt = (if lng = PYTHON2 \<or> lng = PYTHON3
                                then opt\<lparr>opt_dirs := base_dirs, opt_envs := path_envs ce\<rparr> else opt)
                     in case ce_pipes ce of
                          None \<Rightarrow> Inr None
                        | Some (fdi, fdo) \<Rightarrow>
                            Inr (Some (FilterDirs (ce_exists ce)
                              (opt\<lparr>opt_fd_input := fdi, opt_fd_output := fdo, opt_error := ''/dev/null''\<rparr>))))
                  else
                    Inr (Some (FilterDirs (ce_exists ce)
                      (opt\<lparr>opt_dirs := base_dirs, opt_envs := path_envs ce,
                           opt_input := ExecuteBoxInput cfg (-1) (-1) (-1) False True,
                           opt_output := ExecuteBoxOutput cfg (-1) (-1) (-1) False True,
                           opt_error := ExecuteBoxError cfg (-1) (-1) (-1) True,
                           opt_rss := opt_rss opt + opt_fsize opt\<rparr>))))"

section \<open>Scoring and summary\<close>

definition scoring_command :: "Config \<Rightarrow> Submission \<Rightarrow> int \<Rightarrow> string list" where
  "scoring_command cfg sb stg =
     (if specjudge_type sb = SPECJUDGE_OLD then
        [ScoringBoxUserOutput cfg (-1) (-1) (-1) True, ScoringBoxTdInput cfg (-1) (-1) (-1) True,
         ScoringBoxTdOutput cfg (-1) (-1) (-1) True, CompilerName (lang sb),
         ScoringBoxUserCode cfg (-1) (-1) (-1) (lang sb) True, to_string stg]
      else if specjudge_type sb = SPECJUDGE_POLYGON then
        [ScoringBoxTdInput cfg (-1) (-1) (-1) True, ScoringBoxUserOutput cfg (-1) (-1) (-1) True,
         ScoringBoxTdOutput cfg (-1) (-1) (-1) True]
      else if specjudge_type sb = SPECJUDGE_KATTIS then
        [ScoringBoxTdInput cfg (-1) (-1) (-1) True, ScoringBoxTdOutput cfg (-1) (-1) (-1) True,
         path_div (ScoringBoxTempdir cfg (-1) (-1) (-1) True) [], ScoringBoxMetaFile cfg (-1) (-1) (-1) True]
      else ScoringBoxMetaFile cfg (-1) (-1) (-1) True #
        (if specjudge_type sb = NORMAL then default_scoring_args sb else []))"

definition RunScoring :: "Config \<Rightarrow> ChildEnv \<Rightarrow> Submission \<Rightarrow> Task \<Rightarrow> int \<Rightarrow> int \<Rightarrow> SandboxOptions" where
  "RunScoring cfg ce sb task uid cpuid =
     (let ty = specjudge_type sb; meta = ScoringBoxMetaFile cfg (-1) (-1) (-1) True;
          out = ScoringBoxOutput cfg (-1) (-1) (-1) True
      in FilterDirs (ce_exists ce) (SandboxOptions_init
           \<lparr>opt_boxdir := ScoringBoxPath cfg (submission_internal_id sb) (subtask task) (stage task),
            opt_command := ExecuteCommand (specjudge_lang sb) (ScoringBoxProgram cfg (-1) (-1) (-1) (specjudge_lang sb) True) @
              scoring_command cfg sb (stage task),
            opt_workdir := Workdir ''/'',
            opt_input := (if ty = SPECJUDGE_OLD \<or> ty = SPECJUDGE_POLYGON then meta
                          else if ty = SPECJUDGE_KATTIS then ScoringBoxUserOutput cfg (-1) (-1) (-1) True
                          else ''/dev/null''),
            opt_output := (if ty = SPECJUDGE_POLYGON then ''/dev/null'' else out),
            opt_error := (if ty = SPECJUDGE_POLYGON then out else ''/dev/null''),
            opt_cpu_set := pinned cpuid, opt_uid := uid, opt_gid := uid,
            opt_wall_time := scale_time cfg (60 * 1000000), opt_rss := kMaxRSS cfg, opt_proc_num := 10,
            opt_fsize := kMaxOutput cfg, opt_dirs := judge_dirs,
            opt_envs := [''TMPDIR='' @ ScoringBoxTempdir cfg (-1) (-1) (-1) True]\<rparr>))"

definition RunSummary :: "Config \<Rightarrow> ChildEnv \<Rightarrow> Submission \<Rightarrow> int \<Rightarrow> int \<Rightarrow> SandboxOptions" where
  "RunSummary cfg ce sb uid cpuid =
     FilterDirs (ce_exists ce) (SandboxOptions_init
       \<lparr>opt_boxdir := SummaryBoxPath cfg (submission_internal_id sb),
        opt_command := ExecuteCommand (summary_lang sb) (SummaryBoxProgram cfg (-1) (summary_lang sb) True) @
          [SummaryBoxMetaFile cfg (-1) True],
        opt_workdir := Workdir ''/'', opt_input := ''/dev/null'', opt_output := SummaryBoxOutput cfg (-1) True,
        opt_error := ''/dev/null'', opt_cpu_set := pinned cpuid, opt_uid := uid, opt_gid := uid,
        opt_wall_time := scale_time cfg (60 * 1000000), opt_rss := kMaxRSS cfg, opt_proc_num := 10,
        opt_fsize := kMaxOutput cfg, opt_dirs := judge_dirs\<rparr>)"

section \<open>Files inside and outside the box\<close>

text \<open>
  The process sees \<open>boxdir\<close> as its root. A file below the working directory has, from outside, the
  name of the box followed by its name inside.
\<close>

lemma box_dir:
  assumes "0 \<le> iid" "box_ok b"
  shows "box_path cfg iid b \<noteq> []" "last (box_path cfg iid b) \<noteq> CHR ''/''"
proof -
  have n: "box_name b \<noteq> []" by (cases b) simp_all
  have "last (box_name b) \<noteq> CHR ''/''" using box_name_no_slash [OF assms(2)] last_in_set [OF n] by metis
  then show "box_path cfg iid b \<noteq> []" "last (box_path cfg iid b) \<noteq> CHR ''/''"
    using n by (simp_all add: box_path_eq [OF assms])
qed

lemma work_file:
  assumes "p \<noteq> []" "last p \<noteq> CHR ''/''" "take 1 q \<noteq> ''/''"
  shows "path_div (Workdir p) q = p @ path_div (Workdir ''/'') q"
  using assms by (simp add: Workdir_def path_div_def kWorkdirRelative_def)

lemma top_file:
  assumes "p \<noteq> []" "last p \<noteq> CHR ''/''" "take 1 q \<noteq> ''/''" "q \<noteq> []"
  shows "path_div p q = p @ path_div ''/'' q"
  using assms by (simp add: path_div_def)

text \<open>The files of a box, by the builder that names them.\<close>

definition compile_files :: "Config \<Rightarrow> int \<Rightarrow> CompileSubtask \<Rightarrow> Compiler \<Rightarrow> bool \<Rightarrow> path list" where
  "compile_files cfg iid cs lng inside_box =
     [CompileBoxInput cfg iid cs lng inside_box, CompileBoxOutput cfg iid cs lng inside_box,
      CompileBoxMessage cfg iid cs inside_box]"

definition execute_files :: "Config \<Rightarrow> int \<Rightarrow> int \<Rightarrow> int \<Rightarrow> Compiler \<Rightarrow> bool \<Rightarrow> path list" where
  "execute_files cfg iid td stg lng inside_box =
     [ExecuteBoxProgram cfg iid td stg lng inside_box, ExecuteBoxInput cfg iid td stg False inside_box,
      ExecuteBoxOutput cfg iid td stg False inside_box, ExecuteBoxError cfg iid td stg inside_box]"

definition scoring_files :: "Config \<Rightarrow> int \<Rightarrow> int \<Rightarrow> int \<Rightarrow> Compiler \<Rightarrow> bool \<Rightarrow> path list" where
  "scoring_files cfg iid td stg lng inside_box =
     [ScoringBoxProgram cfg iid td stg lng inside_box, ScoringBoxUserCode cfg iid td stg lng inside_box,
      ScoringBoxUserOutput cfg iid td stg inside_box, ScoringBoxTdInput cfg iid td stg inside_box,
      ScoringBoxTdOutput cfg iid td stg inside_box, ScoringBoxMetaFile cfg iid td stg inside_box,
      ScoringBoxOutput cfg iid td stg inside_box, ScoringBoxTempdir cfg iid td stg inside_box]"

definition summary_files :: "Config \<Rightarrow> int \<Rightarrow> Compiler \<Rightarrow> bool \<Rightarrow> path list" where
  "summary_files cfg iid lng inside_box =
     [SummaryBoxProgram cfg iid lng inside_box, SummaryBoxUserCode cfg iid lng inside_box,
      SummaryBoxCEMessage cfg iid inside_box, SummaryBoxMetaFile cfg iid inside_box,
      SummaryBoxOutput cfg iid inside_box]"

lemma name_heads:
  "take 1 (CompileCodeName cs lng) \<noteq> ''/''" "take 1 (CompileResultName cs lng) \<noteq> ''/''"
  by (cases cs; simp add: CompileCodeName_def CompileResultName_def)+

lemma box_path_simps:
  "CompileBoxPath cfg iid cs = box_path cfg iid (CompileBox cs)"
  "ExecuteBoxPath cfg iid td stg = box_path cfg iid (ExecuteBox td stg)"
  "ScoringBoxPath cfg iid td stg = box_path cfg iid (ScoringBox td stg)"
  "SummaryBoxPath cfg iid = box_path cfg iid SummaryBox"
  by simp_all

section \<open>Limits\<close>

lemma scale_time_lower:
  assumes "0 < kTimeMultiplier cfg" "0 \<le> x" "x \<le> 2 ^ 53"
  shows "of_int x - 1 - kTimeMultiplier cfg < of_int (scale_time cfg x) * kTimeMultiplier cfg"
proof -
  let ?m = "kTimeMultiplier cfg"
  define q where "q = of_int x / ?m"
  have q0: "0 \<le> q" using assms by (simp add: q_def)
  have x: "dbl_round (of_int x) = of_int x" using assms by (intro fp_round_exact) simp_all
  have "\<bar>dbl_round q - q\<bar> \<le> q / 2 ^ 53" using fp_round_err [of 53 q] q0 by simp
  then have "q - q / 2 ^ 53 \<le> dbl_round q" by linarith
  moreover have "dbl_round q - 1 < of_int (scale_time cfg x)"
    by (simp add: scale_time_def x q_def [symmetric] trunc_def) linarith
  ultimately have "q - q / 2 ^ 53 - 1 < of_int (scale_time cfg x)" by linarith
  then have "(q - q / 2 ^ 53 - 1) * ?m < of_int (scale_time cfg x) * ?m"
    using assms(1) by (simp add: mult_strict_right_mono)
  moreover have "(q - q / 2 ^ 53 - 1) * ?m = of_int x - of_int x / 2 ^ 53 - ?m"
    using assms(1) by (simp add: q_def field_simps)
  moreover have "(of_int x :: rat) / 2 ^ 53 \<le> 1"
  proof -
    have "(of_int x :: rat) \<le> of_int (2 ^ 53)" using assms(3) by (simp only: of_int_le_iff)
    then show ?thesis by simp
  qed
  ultimately show ?thesis by linarith
qed

section \<open>What the parent prepares\<close>

lemma SetupExecute_events:
  assumes "SetupExecute cfg fs sr te st = Inr (True, st')"
  obtains item extra prog lng perm where
    "stage_program (sub sr) (stage (te_task te)) = (prog, lng)"
    "events st' = events st @ map Fs (extra @
       FsCopy (CompileBoxOutput cfg (submission_internal_id (sub sr)) prog lng False)
         (ExecuteBoxProgram cfg (submission_internal_id (sub sr)) (subtask (te_task te)) (stage (te_task te)) lng False) perm #
       execute_input_ops cfg (sub sr) item (subtask (te_task te)) (stage (te_task te)))"
proof -
  let ?w = "Workdir (ExecuteBoxPath cfg (submission_internal_id (sub sr)) (subtask (te_task te)) (stage (te_task te)))"
  obtain prog lng where p: "stage_program (sub sr) (stage (te_task te)) = (prog, lng)" by force
  obtain item where item: "nth_opt (testdata (sub sr)) (nat (subtask (te_task te))) = Some item"
    using assms by (auto simp: SetupExecute_def Let_def split: if_splits option.splits)
  show thesis
  proof (cases "sandbox_strict (sub sr)")
    case True
    show thesis
      by (rule that [OF p, of "[FsCreateDirs ?w None]" "Some (ExecuteBoxProgramPerm lng True)" item])
        (use assms True p item in \<open>auto simp: SetupExecute_def Let_def emit_def split: if_splits\<close>)
  next
    case False
    obtain a b where ab: "file_size fs (CompileBoxOutput cfg (submission_internal_id (sub sr)) prog lng False) = Some a"
      "file_size fs (input_file item) = Some b"
      using assms False p item by (auto simp: SetupExecute_def Let_def split: if_splits option.splits)
    show thesis
      by (rule that [OF p, of "[FsCreateDirs ?w None,
            FsMountTmpfs ?w (page_kib a + page_kib b + min (lim_output item * 2) (kMaxOutput cfg))]"
            "Some (ExecuteBoxProgramPerm lng False)" item])
        (use assms False p item ab in \<open>auto simp: SetupExecute_def Let_def emit_def split: if_splits\<close>)
  qed
qed

lemma execute_input_op:
  "\<exists>op \<in> set (execute_input_ops cfg sb item i stg).
     \<exists>source perm. op \<in> {FsCopy source (ExecuteBoxInput cfg (submission_internal_id sb) i stg (sandbox_strict sb) False) perm,
       FsMove source (ExecuteBoxInput cfg (submission_internal_id sb) i stg (sandbox_strict sb) False) perm}"
  by (auto simp: execute_input_ops_def Let_def)

lemma ExecuteCommand_program: "program \<in> set (ExecuteCommand lng program)"
  by (cases lng) simp_all

lemma RunExecute_value:
  assumes "RunExecute cfg ce sr task uid cpuid = Inr (Some opt)"
  shows "opt_boxdir opt = ExecuteBoxPath cfg (submission_internal_id (sub sr)) (subtask task) (stage task) \<and>
    ExecuteBoxProgram cfg (-1) (-1) (-1) (snd (stage_program (sub sr) (stage task))) True \<in> set (opt_command opt) \<and>
    (sandbox_strict (sub sr) \<or> opt_input opt = ExecuteBoxInput cfg (-1) (-1) (-1) False True)"
  using assms
  by (auto simp: RunExecute_def Let_def FilterDirs_def stage_program_def ExecuteCommand_program
      split: if_splits option.splits)

lemma execute_box_files:
  assumes "0 \<le> iid" "0 \<le> td" "0 \<le> stg"
  shows "ExecuteBoxProgram cfg iid td stg lng False = ExecuteBoxPath cfg iid td stg @ ExecuteBoxProgram cfg (-1) (-1) (-1) lng True"
    "ExecuteBoxInput cfg iid td stg False False = ExecuteBoxPath cfg iid td stg @ ExecuteBoxInput cfg (-1) (-1) (-1) False True"
  using assms
  by (simp_all add: BoxRoot_def box_path_simps ExecuteBoxProgram_def ExecuteBoxInput_def work_file [OF box_dir] del: box_path.simps)

section \<open>Mounts\<close>

definition readonly :: "path \<Rightarrow> jail_mount" where
  "readonly d = \<lparr>mnt_source = d, mnt_target = d, mnt_rw = False\<rparr>"

definition system_dirs :: "path set" where
  "system_dirs = insert ''/var/lib/ghc'' (set judge_dirs)"

lemma mount_of_system: "d \<in> system_dirs \<Longrightarrow> mount_of d = readonly d"
  unfolding system_dirs_def judge_dirs_def by (auto simp: mount_of_def readonly_def c_str_plain after_nul_plain)

lemma mounts_filter:
  "set (opt_dirs opt) \<subseteq> system_dirs \<Longrightarrow>
   set (cx_mounts (ToCJailCtx (FilterDirs ex opt))) \<subseteq> readonly ` system_dirs"
  using mount_of_system by (auto simp: ToCJailCtx_def FilterDirs_def)

lemma dirs_system: "set base_dirs \<subseteq> system_dirs" "set judge_dirs \<subseteq> system_dirs" "''/var/lib/ghc'' \<in> system_dirs"
  by (auto simp: system_dirs_def base_dirs_def judge_dirs_def)

lemma task_uids:
  "opt_uid (RunCompile cfg ce sb task uid cpuid) = uid" "opt_gid (RunCompile cfg ce sb task uid cpuid) = uid"
  "opt_uid (RunScoring cfg ce sb task uid cpuid) = uid" "opt_gid (RunScoring cfg ce sb task uid cpuid) = uid"
  "opt_uid (RunSummary cfg ce sb uid cpuid) = uid" "opt_gid (RunSummary cfg ce sb uid cpuid) = uid"
  by (simp_all add: RunCompile_def RunScoring_def RunSummary_def FilterDirs_def Let_def)

section \<open>A sample\<close>

definition sample_td :: TestdataItem where
  "sample_td = \<lparr>input_file = ''/td/input000'', answer_file = ''/td/output000'', lim_vss = 2 ^ 63 - 5, lim_rss = 65536,
     lim_output = 0, lim_time = 1000000, ignore_verdict = False, td_groups = [0]\<rparr>"

definition sample_run :: SubmissionAndResult where
  "sample_run = \<lparr>sub = (Submission_init 7 100 False)\<lparr>testdata := [sample_td]\<rparr>, result = SubmissionResult_init\<rparr>"

definition sample_run_config :: Config where
  "sample_run_config = \<lparr>kMaxParallel = 1, kPinnedCpus = [], kMaxRSS = 2097152, kMaxOutput = 1048576,
     kTimeMultiplier = 3 / 2, kBoxRoot = ''/box'', kSubmissionRoot = ''/sub'', kDataDir = ''/data'',
     kTestdataRoot = ''/td''\<rparr>"

definition sample_fs :: FsView where
  "sample_fs = \<lparr>is_regular = \<lambda>_. True, fs_exists = \<lambda>_. True, file_size = \<lambda>_. Some 5000,
     file_text = \<lambda>_. None, file_json = \<lambda>_. None, header_files = []\<rparr>"

definition sample_child :: ChildEnv where
  "sample_child = \<lparr>ce_wordexp = \<lambda>_ _. None, ce_path = Some ''/bin'', ce_exists = \<lambda>_. True, ce_message_fd = 5,
     ce_pipes = Some (6, 7)\<rparr>"

definition sample_execute :: Task where
  "sample_execute = \<lparr>task_type = EXECUTE, subtask = 0, stage = 0\<rparr>"

abbreviation sample_entry :: TaskEntry where
  "sample_entry \<equiv> TaskEntry_new 3 7 sample_execute 0 0"

lemmas sample_run_defs = sample_td_def sample_run_def sample_run_config_def sample_fs_def sample_child_def
  sample_execute_def Submission_init_def SubmissionResult_init_def

abbreviation sample_setup :: "error + bool \<times> JState" where
  "sample_setup \<equiv> SetupExecute sample_run_config sample_fs sample_run sample_entry JState_init"

abbreviation sample_opts :: "error + SandboxOptions option" where
  "sample_opts \<equiv> RunExecute sample_run_config sample_child sample_run sample_execute 50000 (-1)"

lemma sample_setup_ok: "sample_setup = Inr (True, snd (projr sample_setup))"
  by (simp add: SetupExecute_def sample_run_defs TaskEntry_new_def IsCancelled_def JState_init_def Let_def stage_program_def)

lemma sample_opts_ok: "sample_opts = Inr (Some (the (projr sample_opts)))"
  by (simp add: RunExecute_def sample_run_defs Let_def)

section \<open>Properties\<close>

text \<open>
  Every file of a box has, from outside, the name of the box directory followed by the name the
  sandboxed process uses; inside, the numbers of the task do not matter.
\<close>

theorem files_in_box:
  assumes "0 \<le> iid" "0 \<le> td" "0 \<le> stg"
  shows "compile_files cfg iid cs lng False = map ((@) (CompileBoxPath cfg iid cs)) (compile_files cfg (-1) cs lng True) \<and>
    execute_files cfg iid td stg lng False = map ((@) (ExecuteBoxPath cfg iid td stg)) (execute_files cfg (-1) (-1) (-1) lng True) \<and>
    scoring_files cfg iid td stg lng False = map ((@) (ScoringBoxPath cfg iid td stg)) (scoring_files cfg (-1) (-1) (-1) lng True) \<and>
    summary_files cfg iid lng False = map ((@) (SummaryBoxPath cfg iid)) (summary_files cfg (-1) lng True)"
proof -
  note work = work_file [OF box_dir] and top = top_file [OF box_dir]
  note defs = BoxRoot_def box_path_simps
  have c: "path_div (Workdir (box_path cfg iid (CompileBox cs))) (CompileCodeName cs lng) =
      box_path cfg iid (CompileBox cs) @ path_div (Workdir ''/'') (CompileCodeName cs lng)"
    "path_div (Workdir (box_path cfg iid (CompileBox cs))) (CompileResultName cs lng) =
      box_path cfg iid (CompileBox cs) @ path_div (Workdir ''/'') (CompileResultName cs lng)"
    by (rule work; simp add: assms name_heads [simplified])+
  show ?thesis
    using assms
    by (simp add: compile_files_def execute_files_def scoring_files_def summary_files_def defs
        CompileBoxInput_def CompileBoxOutput_def CompileBoxMessage_def
        ExecuteBoxProgram_def ExecuteBoxInput_def ExecuteBoxOutput_def ExecuteBoxError_def
        ScoringBoxProgram_def ScoringBoxUserCode_def ScoringBoxUserOutput_def ScoringBoxTdInput_def
        ScoringBoxTdOutput_def ScoringBoxMetaFile_def ScoringBoxOutput_def ScoringBoxTempdir_def
        SummaryBoxProgram_def SummaryBoxUserCode_def SummaryBoxCEMessage_def SummaryBoxMetaFile_def
        SummaryBoxOutput_def work top c del: box_path.simps)
qed

text \<open>
  C30: An execution that is set up runs what was prepared for it: the program on its command line is, from
  outside, the file the compiled program was copied to, and without the strict sandbox the file its
  input is redirected from is the one the input was copied or moved to.
\<close>

theorem execute_runs_prepared:
  assumes "SetupExecute cfg fs sr te st = Inr (True, st')"
    and "RunExecute cfg ce sr (te_task te) uid cpuid = Inr (Some opt)"
    and "0 \<le> submission_internal_id (sub sr)" "0 \<le> subtask (te_task te)" "0 \<le> stage (te_task te)"
  shows "(\<exists>compiled perm program. program \<in> set (opt_command opt) \<and>
      Fs (FsCopy compiled (opt_boxdir opt @ program) perm) \<in> set (events st')) \<and>
    (sandbox_strict (sub sr) \<or> (\<exists>source perm. \<exists>op \<in> {FsCopy source (opt_boxdir opt @ opt_input opt) perm,
      FsMove source (opt_boxdir opt @ opt_input opt) perm}. Fs op \<in> set (events st')))"
proof -
  let ?sb = "sub sr" and ?i = "subtask (te_task te)" and ?s = "stage (te_task te)"
  obtain item extra prog lng perm where p: "stage_program ?sb ?s = (prog, lng)" and ev: "events st' = events st @ map Fs (extra @
       FsCopy (CompileBoxOutput cfg (submission_internal_id ?sb) prog lng False)
         (ExecuteBoxProgram cfg (submission_internal_id ?sb) ?i ?s lng False) perm # execute_input_ops cfg ?sb item ?i ?s)"
    using SetupExecute_events [OF assms(1)] by metis
  note v = RunExecute_value [OF assms(2)]
  have f: "ExecuteBoxProgram cfg (submission_internal_id ?sb) ?i ?s lng False = opt_boxdir opt @ ExecuteBoxProgram cfg (-1) (-1) (-1) lng True"
    "ExecuteBoxInput cfg (submission_internal_id ?sb) ?i ?s False False = opt_boxdir opt @ ExecuteBoxInput cfg (-1) (-1) (-1) False True"
    using execute_box_files assms(3-5) v by simp_all
  have "sandbox_strict ?sb \<or> (\<exists>source perm. \<exists>op \<in> {FsCopy source (opt_boxdir opt @ opt_input opt) perm,
      FsMove source (opt_boxdir opt @ opt_input opt) perm}. Fs op \<in> set (events st'))"
  proof (cases "sandbox_strict ?sb")
    case False
    obtain op source pm where op: "op \<in> set (execute_input_ops cfg ?sb item ?i ?s)"
      "op \<in> {FsCopy source (ExecuteBoxInput cfg (submission_internal_id ?sb) ?i ?s (sandbox_strict ?sb) False) pm,
        FsMove source (ExecuteBoxInput cfg (submission_internal_id ?sb) ?i ?s (sandbox_strict ?sb) False) pm}"
      using execute_input_op by metis
    have "Fs op \<in> set (events st')" using op(1) by (simp add: ev)
    moreover have "op \<in> {FsCopy source (opt_boxdir opt @ opt_input opt) pm, FsMove source (opt_boxdir opt @ opt_input opt) pm}"
      using op(2) v f(2) False by simp
    ultimately show ?thesis by blast
  qed simp
  moreover have "Fs (FsCopy (CompileBoxOutput cfg (submission_internal_id ?sb) prog lng False)
      (opt_boxdir opt @ ExecuteBoxProgram cfg (-1) (-1) (-1) lng True) perm) \<in> set (events st')"
    by (simp add: ev f(1))
  ultimately show ?thesis using v p by fastforce
qed

theorem execute_runs_prepared_witness:
  "(\<exists>compiled perm program. program \<in> set (opt_command (the (projr sample_opts))) \<and>
      Fs (FsCopy compiled (opt_boxdir (the (projr sample_opts)) @ program) perm) \<in> set (events (snd (projr sample_setup)))) \<and>
    (sandbox_strict (sub sample_run) \<or> (\<exists>source perm. \<exists>op \<in> {FsCopy source (opt_boxdir (the (projr sample_opts)) @ opt_input (the (projr sample_opts))) perm,
      FsMove source (opt_boxdir (the (projr sample_opts)) @ opt_input (the (projr sample_opts))) perm}. Fs op \<in> set (events (snd (projr sample_setup)))))"
  by (rule execute_runs_prepared [OF sample_setup_ok, of sample_child 50000 "-1"])
    (use sample_opts_ok in \<open>simp_all add: TaskEntry_new_def sample_run_defs\<close>)

theorem files_in_box_witness:
  "compile_files sample_run_config 7 CS_USERPROG PYTHON3 False =
      map ((@) (CompileBoxPath sample_run_config 7 CS_USERPROG)) (compile_files sample_run_config (-1) CS_USERPROG PYTHON3 True) \<and>
    execute_files sample_run_config 7 0 1 PYTHON3 False =
      map ((@) (ExecuteBoxPath sample_run_config 7 0 1)) (execute_files sample_run_config (-1) (-1) (-1) PYTHON3 True) \<and>
    scoring_files sample_run_config 7 0 1 PYTHON3 False =
      map ((@) (ScoringBoxPath sample_run_config 7 0 1)) (scoring_files sample_run_config (-1) (-1) (-1) PYTHON3 True) \<and>
    summary_files sample_run_config 7 PYTHON3 False =
      map ((@) (SummaryBoxPath sample_run_config 7)) (summary_files sample_run_config (-1) PYTHON3 True)"
  by (rule files_in_box) simp_all




text \<open>
  An output limit of 0 means none, and the process is indeed given the judge's own limit; but the
  file system the parent mounts on the working directory outside the strict sandbox gets no room for
  the output beyond what is left of the last page of program and input.
\<close>

theorem unlimited_output_tmpfs:
  assumes "SetupExecute cfg fs sr te st = Inr (True, st')" "\<not> sandbox_strict (sub sr)" "0 \<le> kMaxOutput cfg"
    and "nth_opt (testdata (sub sr)) (nat (subtask (te_task te))) = Some item" "lim_output item = 0"
  shows "(\<exists>program a b. file_size fs program = Some a \<and> file_size fs (input_file item) = Some b \<and>
      Fs (FsMountTmpfs (Workdir (ExecuteBoxPath cfg (submission_internal_id (sub sr)) (subtask (te_task te)) (stage (te_task te))))
        (page_kib a + page_kib b)) \<in> set (events st')) \<and>
    fsize_limit cfg (lim_output item) = kMaxOutput cfg"
  using assms
  by (auto simp: SetupExecute_def Let_def emit_def fsize_limit_def split: if_splits option.splits prod.splits) blast+

theorem unlimited_output_tmpfs_witness:
  "(\<exists>program a b. file_size sample_fs program = Some a \<and> file_size sample_fs (input_file sample_td) = Some b \<and>
      Fs (FsMountTmpfs (Workdir (ExecuteBoxPath sample_run_config (submission_internal_id (sub sample_run)) (subtask (te_task sample_entry)) (stage (te_task sample_entry))))
        (page_kib a + page_kib b)) \<in> set (events (snd (projr sample_setup)))) \<and>
    fsize_limit sample_run_config (lim_output sample_td) = kMaxOutput sample_run_config"
  by (rule unlimited_output_tmpfs [OF sample_setup_ok]) (simp_all add: sample_run_defs TaskEntry_new_def)

end
