(* ===== verification/ScoreText.thy ===== *)
theory ScoreText
  imports Specjudge
begin

text \<open>
  Scores as text: \<open>ScoreToString\<close> prints the scores a summary program is given, and \<open>read_score\<close> takes
  them back from the JSON a judge or summary writes. Proved: the way there and back is exact for
  scores that are not negative, and which scores cannot be printed or read well.
\<close>

section \<open>Digits\<close>

lemma parse_nat_append: "parse_nat (xs @ ys) = parse_nat xs * 10 ^ length ys + parse_nat ys"
proof (induction ys rule: rev_induct)
  case (snoc y ys)
  then show ?case by (simp add: parse_nat_snoc algebra_simps flip: append_assoc)
qed (simp add: parse_nat_def)

text \<open>The six digits behind the point.\<close>

definition micro_digits :: "nat \<Rightarrow> string" where
  "micro_digits n = replicate (6 - length (nat_to_string n)) CHR ''0'' @ nat_to_string n"

lemma micro_digits:
  assumes "n < 1000000"
  shows "length (micro_digits n) = 6" "parse_nat (micro_digits n) = n" "c \<in> set (micro_digits n) \<Longrightarrow> isdigit c"
proof -
  have "length (nat_to_string n) \<le> 6" using length_nat_to_string [of n 6] assms by simp
  then show "length (micro_digits n) = 6" by (simp add: micro_digits_def)
  show "parse_nat (micro_digits n) = n" by (simp add: micro_digits_def parse_nat_zeros)
  show "c \<in> set (micro_digits n) \<Longrightarrow> isdigit c"
    using nat_to_string_digits by (auto simp: micro_digits_def isdigit_def)
qed

lemma ScoreToString_nonneg:
  assumes "0 \<le> s"
  shows "ScoreToString s = Inr (nat_to_string (nat (s div 1000000)) @ ''.'' @ micro_digits (nat (s mod 1000000)))"
proof -
  have d: "cdiv s 1000000 = s div 1000000" using assms by (cases "s = 0") (simp_all add: cdiv_def)
  then have m: "cmod s 1000000 = s mod 1000000" by (simp add: cmod_def minus_mult_div_eq_mod)
  have "nat (s mod 1000000) < 10 ^ 6" using pos_mod_bound [of 1000000 s] by (simp add: nat_less_iff)
  then have "length (nat_to_string (nat (s mod 1000000))) \<le> 6" by (rule length_nat_to_string) simp
  moreover have "0 \<le> s div 1000000" "0 \<le> s mod 1000000" using assms by (simp_all add: pos_imp_zdiv_nonneg_iff)
  ultimately show ?thesis by (simp add: ScoreToString_def d m to_string_def micro_digits_def Let_def)
qed

section \<open>Reading a decimal number\<close>

lemma digit_lower: "isdigit c \<Longrightarrow> tolower c = c"
  by (simp add: isdigit_def tolower_def Let_def)

lemma stold_decimal:
  assumes "\<forall>c \<in> set ip. isdigit c" "ip \<noteq> []" "\<forall>c \<in> set fp. isdigit c"
  shows "stold (ip @ ''.'' @ fp) = in_ld_range False (decimal ip fp 0)"
proof -
  let ?s = "ip @ ''.'' @ fp"
  obtain c cs where c: "ip = c # cs" using assms(2) by (cases ip) auto
  then have dc: "isdigit c" using assms(1) by simp
  have ws: "skip_ws ?s = ?s" using c isdigit_not_space [OF dc] by (simp add: skip_ws_nonspace)
  have sg: "split_sign ?s = (False, ?s)" by (rule split_sign_digits [OF assms(2,1)])
  have sp: "split_fraction isdigit ?s = (ip, fp, [])"
  proof -
    have "\<not> isdigit (hd (''.'' @ fp))" by (simp add: isdigit_def)
    then have "takeWhile isdigit (ip @ ''.'' @ fp) = ip \<and> dropWhile isdigit (ip @ ''.'' @ fp) = ''.'' @ fp"
      by (intro takeWhile_digits [OF assms(1)]) simp
    moreover have "takeWhile isdigit fp = fp" "dropWhile isdigit fp = []"
      using takeWhile_digits [OF assms(3), of "[]"] by simp_all
    ultimately show ?thesis by (simp add: split_fraction_def Let_def)
  qed
  have lc: "tolower c = c" using digit_lower [OF dc] .
  have c1: "c \<noteq> CHR ''i''" "c \<noteq> CHR ''n''" using dc by (auto simp: isdigit_def)
  have c2: "take 2 (map tolower ?s) \<noteq> ''0x''"
  proof (cases cs)
    case Nil
    then show ?thesis using c by (simp add: numeral_2_eq_2 tolower_def)
  next
    case (Cons d ds)
    then have "isdigit d" using c assms(1) by simp
    then have "tolower d = d" "d \<noteq> CHR ''x''" by (auto simp: digit_lower isdigit_def)
    then show ?thesis using c Cons by (simp add: numeral_2_eq_2)
  qed
  have c3: "take 3 (map tolower ?s) \<noteq> ''inf''" "take 3 (map tolower ?s) \<noteq> ''nan''"
    using c lc c1 by (simp_all add: numeral_3_eq_3)
  have ex: "opt_exponent CHR ''e'' [] = 0" by (simp add: opt_exponent_def)
  have ne: "ip @ fp \<noteq> []" using assms(2) by simp
  obtain hi hf hr where h: "split_fraction isxdigit (drop 2 ?s) = (hi, hf, hr)" by (cases "split_fraction isxdigit (drop 2 ?s)")
  have n2: "\<not> (take 2 (map tolower ?s) = ''0x'' \<and> hi @ hf \<noteq> [])" using c2 by blast
  show ?thesis
    unfolding stold_def ws sg prod.case Let_def if_not_P [OF c3(1)] if_not_P [OF c3(2)] h if_not_P [OF n2] sp
      if_not_P [OF ne] ex ..
qed

lemma ldbl_min_small: "LDBL_MIN < 1 / 10 ^ 7"
proof -
  have "(10::rat) ^ 7 < 2 ^ 30" by simp
  also have "(2::rat) ^ 30 \<le> 2 ^ 16382" by (rule power_increasing) simp_all
  finally show ?thesis unfolding LDBL_MIN_def by (intro divide_strict_left_mono) simp_all
qed

lemma in_ld_range_score:
  assumes "q = 0 \<or> 1 / 10 ^ 6 \<le> q" "q \<le> 1000000"
  shows "in_ld_range False q = Some (Fin (ld_round q))" "\<bar>ld_round q - q\<bar> \<le> 1 / 10 ^ 9"
proof -
  have q0: "0 \<le> q" using assms(1) by auto
  have e: "\<bar>ld_round q - q\<bar> \<le> q / 2 ^ 64" using fp_round_err [of 64 q] q0 by simp
  moreover have "q / 2 ^ 64 \<le> 1 / 10 ^ 9" using assms(2) by simp
  ultimately show "\<bar>ld_round q - q\<bar> \<le> 1 / 10 ^ 9" by linarith
  have f: "ld_fin q = Fin (ld_round q)" by (rule ld_fin_Fin) (use assms(2) q0 in simp)
  show "in_ld_range False q = Some (Fin (ld_round q))"
  proof (cases "q = 0")
    case True
    then show ?thesis using f by (simp add: in_ld_range_def signed_def)
  next
    case False
    then have "1 / 10 ^ 6 \<le> q" using assms(1) by simp
    then have "1 / 1000000 \<le> q" by simp
    moreover have "q / 2 ^ 64 \<le> q / 2" using q0 by simp
    then have "\<bar>ld_round q - q\<bar> \<le> q / 2" using e by (rule order_trans [rotated])
    ultimately have "1 / 1000000 / 2 \<le> ld_round q" by linarith
    moreover have "(1::rat) / 10 ^ 7 \<le> 1 / 1000000 / 2" by simp
    ultimately have "1 / 10 ^ 7 \<le> ld_round q" by (rule order_trans [rotated])
    then have l: "LDBL_MIN < ld_round q" using ldbl_min_small by (rule less_le_trans [rotated])
    moreover have "0 < LDBL_MIN" by (simp add: LDBL_MIN_def)
    ultimately have "\<not> \<bar>ld_round q\<bar> < LDBL_MIN" "ld_round q \<noteq> 0" by linarith+
    then show ?thesis using f by (simp add: in_ld_range_def signed_def)
  qed
qed

section \<open>The length of a number\<close>

lemma nat_to_string_longer: "10 ^ k \<le> n \<Longrightarrow> k < length (nat_to_string n)"
proof (induction k arbitrary: n)
  case 0
  then show ?case using nat_to_string_nonempty [of n] by (cases "nat_to_string n") simp_all
next
  case (Suc k)
  then have n: "10 ^ k * 10 \<le> n" by simp
  moreover have "(1::nat) \<le> 10 ^ k" by simp
  ultimately have "\<not> n < 10" by linarith
  moreover have "10 ^ k \<le> n div 10" using n by (simp add: less_eq_div_iff_mult_less_eq)
  ultimately have "10 ^ k \<le> n div 10" "\<not> n < 10" by simp_all
  then show ?case using Suc.IH nat_to_string_step [of n] by simp
qed

lemma ScoreToString_neg:
  assumes "s < 0"
  shows "ScoreToString s = Inl LengthError \<longleftrightarrow> 100000 \<le> (- s) mod 1000000"
proof -
  define m where "m = (- s) mod 1000000"
  have m: "0 \<le> m" "m < 1000000" by (simp_all add: m_def)
  have "cmod s 1000000 = - m"
    using assms minus_mult_div_eq_mod [of "- s" 1000000] by (simp add: cmod_def cdiv_def m_def)
  moreover have "length (to_string (- m)) \<le> 6 \<longleftrightarrow> m < 100000"
  proof (cases "m = 0")
    case True
    then show ?thesis by (simp add: to_string_def nat_to_string_small)
  next
    case False
    then have l: "length (to_string (- m)) = Suc (length (nat_to_string (nat m)))" using m by (simp add: to_string_def)
    show ?thesis
    proof (cases "m < 100000")
      case True
      then have "length (nat_to_string (nat m)) \<le> 5" using m by (intro length_nat_to_string) simp_all
      then show ?thesis using True l by simp
    next
      case False
      then have "5 < length (nat_to_string (nat m))" using m by (intro nat_to_string_longer) simp
      then show ?thesis using False l by simp
    qed
  qed
  ultimately show ?thesis by (auto simp: ScoreToString_def Let_def m_def not_less)
qed

section \<open>Properties\<close>

text \<open>
  C40: A score from zero to the largest that \<open>NormalizeScore\<close> gives is printed, and reading the text back, with
  its rounding to \<open>long double\<close> twice, returns exactly that score.
\<close>

theorem score_roundtrip:
  assumes "0 \<le> s" "s \<le> 10 ^ 12"
  shows "\<exists>t. ScoreToString s = Inr t \<and> read_score (JString t) = Some s"
proof -
  let ?ip = "nat_to_string (nat (s div 1000000))" and ?fp = "micro_digits (nat (s mod 1000000))"
  let ?q = "of_int s / 10 ^ 6 :: rat"
  have f: "nat (s mod 1000000) < 1000000" by (simp add: nat_less_iff)
  note fp = micro_digits [OF f]
  have "int (parse_nat (?ip @ ?fp)) = s div 1000000 * 1000000 + s mod 1000000"
    using assms(1) fp(1,2) by (simp add: parse_nat_append pos_imp_zdiv_nonneg_iff)
  then have "int (parse_nat (?ip @ ?fp)) = s" by simp
  then have "decimal ?ip ?fp 0 = of_int s * 10 powi - 6"
    using fp(1) by (metis decimal_def diff_0 of_int_of_nat_eq of_nat_numeral)
  then have d: "decimal ?ip ?fp 0 = ?q" by (simp add: power_int_minus field_simps)
  have st: "stold (?ip @ ''.'' @ ?fp) = in_ld_range False ?q"
    unfolding d [symmetric] by (rule stold_decimal) (use nat_to_string_digits fp(3) in auto)
  have "?q = 0 \<or> 1 / 10 ^ 6 \<le> ?q"
  proof (cases "s = 0")
    case False
    then have "(1::rat) \<le> of_int s" using assms(1) by simp
    then show ?thesis by (simp add: divide_right_mono)
  qed simp
  moreover have q1: "?q \<le> 1000000"
  proof -
    have "(of_int s :: rat) \<le> of_int (10 ^ 12)" using assms(2) by (simp only: of_int_le_iff)
    then show ?thesis by simp
  qed
  ultimately have r: "in_ld_range False ?q = Some (Fin (ld_round ?q))" "\<bar>ld_round ?q - ?q\<bar> \<le> 1 / 10 ^ 9"
    by (rule in_ld_range_score)+
  have "NormalizeScore (Fin (ld_round ?q)) = s"
    by (rule NormalizeScore_close(2) [OF _ r(2)]) (use q1 assms(1) in simp_all)
  then show ?thesis using st r(1) ScoreToString_nonneg [OF assms(1)] by (simp add: read_score_def)
qed

theorem score_roundtrip_witness: "\<exists>t. ScoreToString 33333333 = Inr t \<and> read_score (JString t) = Some 33333333"
  by (rule score_roundtrip) simp_all

text \<open>
  Printing a score throws exactly when it is negative with six significant digits behind the point; the
  program does not catch the exception.
\<close>

theorem score_text_error:
  "ScoreToString s = Inl LengthError \<longleftrightarrow> s < 0 \<and> 100000 \<le> (- s) mod 1000000"
  using ScoreToString_neg [of s] ScoreToString_nonneg [of s] by (cases "0 \<le> s") auto

text \<open>
  Whatever a judge prints, a normalized score is within a million points, unless it is NaN: then it is the
  smallest \<open>long\<close>, far below the range; a JSON string reading nan gives that score.
\<close>

theorem normalized_range:
  "(if x = NaN then NormalizeScore x = LONG_MIN else \<bar>NormalizeScore x\<bar> \<le> 10 ^ 12) \<and>
   read_score (JString ''nan'') = Some LONG_MIN"
proof -
  have "stold ''nan'' = Some NaN" by code_simp
  then show ?thesis
    using NormalizeScore_Fin_bound by (cases x) (simp_all add: NormalizeScore_inf NormalizeScore_NaN read_score_def)
qed

end
