(* ===== verification/Verdicts.thy ===== *)
theory Verdicts
  imports Summary Compile
begin

text \<open>
  What the verdicts and scores of a submission mean: the loops and conditions of the handlers of
  \<open>src/tioj/submission.cpp\<close> (\<open>FinalizeExecute\<close>, \<open>ReadSpecjudgeResult\<close>, \<open>FinalizeScoring\<close>, \<open>SetupSummary\<close>,
  \<open>FinalizeSummary\<close>) against direct descriptions of their results.
\<close>

section \<open>The results that count\<close>

definition counted :: "TestdataItem list \<Rightarrow> TestdataResult list \<Rightarrow> (TestdataItem \<times> TestdataResult) list" where
  "counted items tds = filter (\<lambda>x. \<not> ignore_verdict (fst x)) (zip items tds)"

lemma counted_simps [simp]:
  "counted items [] = []" "counted [] tds = []"
  "counted (item # items) (td # tds) =
     (if ignore_verdict item then counted items tds else (item, td) # counted items tds)"
  by (simp_all add: counted_def)

lemma worst_verdict_max:
  "length tds \<le> length items \<Longrightarrow>
   worst_verdict items tds v = Inr (fold max (map (\<lambda>x. td_verdict (snd x)) (counted items tds)) v)"
proof (induction items tds v rule: worst_verdict.induct)
  case (3 item items td tds v)
  have "max (td_verdict td) v = (if v < td_verdict td then td_verdict td else v)"
    by (cases "v < td_verdict td") (auto simp: max_def)
  with 3 show ?case by simp
qed simp_all

lemma fold_max_Max: "fold max xs v = Max (insert v (set xs))" for v :: "'a::linorder"
  by (metis Max.set_eq_fold list.simps(15))

text \<open>The scores of the testdata of a group.\<close>

definition group_scores :: "(TestdataItem \<times> TestdataResult) list \<Rightarrow> nat \<Rightarrow> int list" where
  "group_scores xs g = map (\<lambda>x. td_score (snd x)) (filter (\<lambda>x. int g \<in> set (td_groups (fst x))) xs)"

definition groups_in :: "TestdataItem list \<Rightarrow> nat \<Rightarrow> bool" where
  "groups_in items n \<longleftrightarrow> list_all (\<lambda>item. list_all (\<lambda>g. 0 \<le> g \<and> g < int n) (td_groups item)) items"

lemma min_groups_value:
  "list_all (\<lambda>g. 0 \<le> g \<and> g < int (length ss)) gs \<Longrightarrow>
   \<exists>ss'. min_groups score gs ss = Inr ss' \<and> length ss' = length ss \<and>
     (\<forall>g < length ss. ss' ! g = (if int g \<in> set gs then min (ss ! g) score else ss ! g))"
proof (induction score gs ss rule: min_groups.induct)
  case (2 score g gs ss)
  then have g: "0 \<le> g" "nat g < length ss" by auto
  then obtain ss' where r: "min_groups score gs (ss[nat g := min (ss ! nat g) score]) = Inr ss'"
    "length ss' = length ss" and "\<forall>h < length ss. ss' ! h =
      (if int h \<in> set gs then min (ss[nat g := min (ss ! nat g) score] ! h) score
       else ss[nat g := min (ss ! nat g) score] ! h)"
    using 2 by (auto simp: conj_commute)
  then have "ss' ! h = (if int h \<in> set (g # gs) then min (ss ! h) score else ss ! h)" if "h < length ss" for h
    using that g by (cases "h = nat g") (auto simp: nth_list_update)
  with r g show ?case by auto
qed simp

lemma tally_value:
  "groups_in items (length ss) \<Longrightarrow> length tds \<le> length items \<Longrightarrow>
   \<exists>ss'. tally items tds (mem, time, ss) =
       Inr (fold max (map (\<lambda>x. td_rss (snd x)) (counted items tds)) mem,
            time + (\<Sum>x \<leftarrow> counted items tds. td_time (snd x)), ss') \<and>
     length ss' = length ss \<and>
     (\<forall>g < length ss. ss' ! g = fold min (group_scores (counted items tds) g) (ss ! g))"
proof (induction items tds "(mem, time, ss)" arbitrary: mem time ss rule: tally.induct)
  case (3 item items td tds mem time ss)
  show ?case
  proof (cases "ignore_verdict item")
    case True
    then show ?thesis using 3 by (simp add: groups_in_def)
  next
    case False
    have gi: "list_all (\<lambda>g. 0 \<le> g \<and> g < int (length ss)) (td_groups item)" "groups_in items (length ss)"
      using 3(3) by (simp_all add: groups_in_def)
    obtain ss1 where m: "min_groups (td_score td) (td_groups item) ss = Inr ss1" "length ss1 = length ss"
      "\<forall>g < length ss. ss1 ! g = (if int g \<in> set (td_groups item) then min (ss ! g) (td_score td) else ss ! g)"
      using min_groups_value [OF gi(1)] by blast
    have "\<exists>ss'. tally items tds (max mem (td_rss td), time + td_time td, ss1) =
       Inr (fold max (map (\<lambda>x. td_rss (snd x)) (counted items tds)) (max mem (td_rss td)),
            time + td_time td + (\<Sum>x \<leftarrow> counted items tds. td_time (snd x)), ss') \<and>
     length ss' = length ss1 \<and>
     (\<forall>g < length ss1. ss' ! g = fold min (group_scores (counted items tds) g) (ss1 ! g))"
      by (rule 3(2) [OF False]) (use gi(2) m(2) 3(4) in simp_all)
    then obtain ss' where t: "tally items tds (max mem (td_rss td), time + td_time td, ss1) =
       Inr (fold max (map (\<lambda>x. td_rss (snd x)) (counted items tds)) (max mem (td_rss td)),
            time + td_time td + (\<Sum>x \<leftarrow> counted items tds. td_time (snd x)), ss')" "length ss' = length ss"
      "\<forall>g < length ss. ss' ! g = fold min (group_scores (counted items tds) g) (ss1 ! g)"
      using m(2) by auto
    have "fold min (group_scores (counted (item # items) (td # tds)) g) (ss ! g) =
        fold min (group_scores (counted items tds) g) (ss1 ! g)" if "g < length ss" for g
      using False m(3) that by (simp add: group_scores_def min.commute)
    moreover have "tally (item # items) (td # tds) (mem, time, ss) =
        tally items tds (max mem (td_rss td), time + td_time td, ss1)"
      using False m(1) by simp
    ultimately show ?thesis using False t
      by (intro exI [of _ ss']) (simp add: max.commute add.assoc)
  qed
qed (auto simp: groups_in_def group_scores_def)

section \<open>The score of a submission\<close>

definition group_minimum :: "(TestdataItem \<times> TestdataResult) list \<Rightarrow> nat \<Rightarrow> int" where
  "group_minimum xs g = (if group_scores xs g = [] then full_score else Min (set (group_scores xs g)))"

definition exact_total :: "(TestdataItem \<times> TestdataResult) list \<Rightarrow> int list \<Rightarrow> int" where
  "exact_total xs scores = (\<Sum>g < length scores. group_minimum xs g * scores ! g)"

lemma fold_min_Min: "fold min xs v = Min (insert v (set xs))" for v :: "'a::linorder"
  by (metis Min.set_eq_fold list.simps(15))

lemma group_credit_minimum:
  assumes "\<forall>x \<in> set xs. td_score (snd x) < kInfScore"
  shows "group_credit (fold min (group_scores xs g) kInfScore) = group_minimum xs g"
proof (cases "group_scores xs g = []")
  case True
  then show ?thesis by (simp add: group_credit_def group_minimum_def)
next
  case False
  have "\<forall>s \<in> set (group_scores xs g). s < kInfScore" using assms by (auto simp: group_scores_def)
  then have l: "Min (set (group_scores xs g)) < kInfScore" using False by (simp add: Min_less_iff)
  have "fold min (group_scores xs g) kInfScore = min kInfScore (Min (set (group_scores xs g)))"
    unfolding fold_min_Min by (rule Min_insert) (use False in simp_all)
  also have "\<dots> = Min (set (group_scores xs g))" using l by (rule min_absorb2 [OF less_imp_le])
  finally show ?thesis using False l by (simp add: group_credit_def group_minimum_def)
qed

lemma weighted_sum_groups:
  assumes "length ss = length scores" "\<forall>g < length ss. group_credit (ss ! g) = m g"
  shows "weighted_sum ss scores = (\<Sum>g < length scores. m g * scores ! g)"
  using assms by (simp add: weighted_sum_def sum_list_sum_nth atLeast0LessThan)

lemma total_of_close:
  assumes "\<bar>weighted_sum ss scores\<bar> \<le> 10 ^ 20"
  shows "\<bar>of_int (total_of ss scores) - of_int (weighted_sum ss scores) / 10 ^ 8\<bar> \<le> (1/2 + 1/500 :: rat)"
    and "weighted_sum ss scores = n * 10 ^ 8 \<Longrightarrow> total_of ss scores = n"
proof -
  let ?t = "of_int (weighted_sum ss scores) :: rat"
  have "\<bar>?t\<bar> = of_int \<bar>weighted_sum ss scores\<bar>" by simp
  also have "\<dots> \<le> of_int (10 ^ 20)" using assms by (simp only: of_int_le_iff)
  finally have t: "\<bar>?t\<bar> \<le> 10 ^ 20" by simp
  then have f: "ld_fin ?t = Fin (ld_round ?t)" by (intro ld_fin_Fin) simp
  have c: "\<bar>ld_round (ld_round ?t / 10 ^ 14) - ?t / 10 ^ 14\<bar> \<le> 1 / 10 ^ 9" by (rule ld.divide_close [OF t])
  have "\<bar>ld_round ?t\<bar> \<le> 10 ^ 20 + 10 ^ 20 / 2 ^ 53" using t by (rule ld.bound)
  then have "\<bar>ld_round ?t / 10 ^ 14\<bar> \<le> 10 ^ 39" by (simp add: abs_divide divide_le_eq)
  then have "ld_divide (ld_fin ?t) (10 ^ 14) = Fin (ld_round (ld_round ?t / 10 ^ 14))" by (simp add: f ld_fin_Fin)
  then have o: "total_of ss scores = NormalizeScore (Fin (ld_round (ld_round ?t / 10 ^ 14)))" by (simp add: total_of_def)
  have y: "\<bar>?t / 10 ^ 14\<bar> \<le> 1000000" using t by (simp add: abs_divide divide_le_eq)
  have "?t / 10 ^ 14 * 1000000 = ?t / 10 ^ 8" by simp
  then show "\<bar>of_int (total_of ss scores) - ?t / 10 ^ 8\<bar> \<le> 1/2 + 1/500"
    using NormalizeScore_close(1) [OF y c] by (simp only: o)
  show "total_of ss scores = n" if "weighted_sum ss scores = n * 10 ^ 8"
    unfolding o by (rule NormalizeScore_close(2) [OF y c]) (simp add: that)
qed

abbreviation counted_of :: "SubmissionAndResult \<Rightarrow> (TestdataItem \<times> TestdataResult) list" where
  "counted_of sr \<equiv> counted (testdata (sub sr)) (td_results (result sr))"

abbreviation exact_score :: "SubmissionAndResult \<Rightarrow> int" where
  "exact_score sr \<equiv> exact_total (counted_of sr) (group_score (sub sr))"

text \<open>Three testdata in two groups; the last does not count.\<close>

definition sample_item_of :: "bool \<Rightarrow> int list \<Rightarrow> TestdataItem" where
  "sample_item_of ign gs = \<lparr>input_file = ''/td/i'', answer_file = ''/td/o'', lim_vss = 0, lim_rss = 0, lim_output = 1024,
     lim_time = 1000000, ignore_verdict = ign, td_groups = gs\<rparr>"

definition sample_scored :: SubmissionAndResult where
  "sample_scored =
     \<lparr>sub = (Submission_init 7 100 False)
        \<lparr>testdata := [sample_item_of False [0], sample_item_of False [0, 1], sample_item_of True [1]],
         group_score := [60000000, 40000000]\<rparr>,
      result = SubmissionResult_init\<lparr>verdict := WA, td_results :=
        [TestdataResult_init\<lparr>td_score := 100000000, td_time := 300, td_rss := 2048, td_verdict := AC\<rparr>,
         TestdataResult_init\<lparr>td_score := 50000000, td_time := 200, td_rss := 4096, td_verdict := WA\<rparr>,
         TestdataResult_init\<lparr>td_score := 0, td_time := 900, td_rss := 8192, td_verdict := TLE\<rparr>]\<rparr>\<rparr>"

section \<open>Properties\<close>

text \<open>
  C36: The score, time and memory of a submission that compiled: each group is worth the least score of its
  testdata that count (full if it has none), the total is within a rounding unit of the weighted sum and
  exact where that is a whole number of units, the time is the sum and the memory the largest.
\<close>

theorem submission_score:
  assumes "verdict (result sr) < CE" "length (td_results (result sr)) \<le> length (testdata (sub sr))"
    and "groups_in (testdata (sub sr)) (length (group_score (sub sr)))"
    and "\<forall>x \<in> set (counted_of sr). td_score (snd x) < kInfScore"
    and "\<bar>exact_score sr\<bar> \<le> 10 ^ 20"
  shows "\<exists>res. score_submission sr = Inr res \<and>
    total_memory res = Max (insert 0 (td_rss ` snd ` set (counted_of sr))) \<and>
    total_time res = (\<Sum>x \<leftarrow> counted_of sr. td_time (snd x)) \<and>
    \<bar>of_int (total_score res) - of_int (exact_score sr) / 10 ^ 8\<bar>
      \<le> (1/2 + 1/500 :: rat) \<and>
    (exact_score sr mod 10 ^ 8 = 0 \<longrightarrow>
      total_score res * 10 ^ 8 = exact_score sr)"
proof -
  let ?items = "testdata (sub sr)" and ?tds = "td_results (result sr)" and ?w = "group_score (sub sr)"
  let ?xs = "counted ?items ?tds" and ?k = "replicate (length (group_score (sub sr))) kInfScore"
  obtain ss where t: "tally ?items ?tds (0, 0, ?k) = Inr (fold max (map (\<lambda>x. td_rss (snd x)) ?xs) 0,
      0 + (\<Sum>x \<leftarrow> ?xs. td_time (snd x)), ss)" "length ss = length ?w"
    and g: "\<forall>g < length ?w. ss ! g = fold min (group_scores ?xs g) kInfScore"
    using tally_value [of ?items ?k ?tds 0 0] assms(2,3) by auto
  have "weighted_sum ss ?w = exact_total ?xs ?w"
    unfolding exact_total_def using g t(2) group_credit_minimum [OF assms(4)] by (intro weighted_sum_groups) simp_all
  note c = total_of_close [of ss ?w, unfolded this, OF assms(5)]
  have "total_of ss ?w * 10 ^ 8 = exact_total ?xs ?w" if "exact_total ?xs ?w mod 10 ^ 8 = 0"
  proof -
    from that obtain n where n: "exact_total ?xs ?w = n * 10 ^ 8"
      by (metis dvd_def mod_0_imp_dvd mult.commute)
    then show ?thesis using c(2) by simp
  qed
  then show ?thesis using t c(1) assms(1)
    by (simp add: score_submission_def Let_def fold_max_Max image_image)
qed

theorem submission_score_witness:
  "\<exists>res. score_submission sample_scored = Inr res \<and> total_memory res = 4096 \<and> total_time res = 500 \<and>
     total_score res = 50000000"
proof -
  have c: "counted_of sample_scored =
      [(sample_item_of False [0], TestdataResult_init\<lparr>td_score := 100000000, td_time := 300, td_rss := 2048, td_verdict := AC\<rparr>),
       (sample_item_of False [0, 1], TestdataResult_init\<lparr>td_score := 50000000, td_time := 200, td_rss := 4096, td_verdict := WA\<rparr>)]"
    and e: "exact_score sample_scored = 5000000000000000"
    by code_simp+
  have "verdict (result sample_scored) < CE" "length (td_results (result sample_scored)) \<le> length (testdata (sub sample_scored))"
    "groups_in (testdata (sub sample_scored)) (length (group_score (sub sample_scored)))"
    by code_simp+
  moreover have "\<forall>x \<in> set (counted_of sample_scored). td_score (snd x) < kInfScore"
    unfolding c by (simp add: kInfScore_def)
  moreover have "\<bar>exact_score sample_scored\<bar> \<le> 10 ^ 20" unfolding e by simp
  ultimately obtain res where r: "score_submission sample_scored = Inr res"
    "total_memory res = Max (insert 0 (td_rss ` snd ` set (counted_of sample_scored)))"
    "total_time res = (\<Sum>x \<leftarrow> counted_of sample_scored. td_time (snd x))"
    "exact_score sample_scored mod 10 ^ 8 = 0 \<longrightarrow> total_score res * 10 ^ 8 = exact_score sample_scored"
    using submission_score [of sample_scored] by blast
  have "total_score res * 10 ^ 8 = 5000000000000000" using r(4) unfolding e by simp
  then show ?thesis using r(1-3) unfolding c by (intro exI [of _ res]) simp
qed

text \<open>
  C37: The verdict of a submission that is not decided before the summary is the worst of the testdata that
  count, at least accepted; one that is decided keeps its verdict.
\<close>

theorem overall_verdict_worst:
  assumes "length (td_results (result sr)) \<le> length (testdata (sub sr))"
  shows "overall_verdict sr = Inr
    (if verdict (result sr) = NUL
     then Max (insert AC (td_verdict ` snd ` set (counted_of sr)))
     else verdict (result sr))"
  using worst_verdict_max [OF assms, of AC] by (simp add: overall_verdict_def fold_max_Max image_image)

theorem overall_verdict_worst_witness:
  "overall_verdict sample_scored = Inr
    (if verdict (result sample_scored) = NUL
     then Max (insert AC (td_verdict ` snd ` set (counted_of sample_scored))) else verdict (result sample_scored))"
  by (rule overall_verdict_worst) code_simp

text \<open>
  C38: A special judge can decide, whatever it prints and however it ends, only verdicts of a run, a message of
  bounded length, and a normalized score.
\<close>

theorem special_judge_bounds:
  assumes "td_wf td" "si_status info \<le> 255"
  shows "td_wf (fst (ReadSpecjudgeResult fs sb info last_stage output_path user_output_path tempdir_path td))"
proof -
  have "td_wf td'" if "ReadNewSpecjudgeResult fs output_path td = Some td'" for td' using ReadNew_wf [OF assms(1) that] .
  then show ?thesis
    using assms ReadOld_wf ReadPolygon_wf ReadKattis_wf
    by (auto simp: ReadSpecjudgeResult_def split: SpecjudgeType.split option.split)
qed

theorem special_judge_bounds_witness:
  "td_wf (fst (ReadSpecjudgeResult
     \<lparr>is_regular = \<lambda>_. True, fs_exists = \<lambda>_. True, file_size = \<lambda>_. None, file_text = \<lambda>_. Some ''0 SPECJUDGE_OVERRIDE_SCORE 1e9'',
      file_json = \<lambda>_. None, header_files = []\<rparr>
     ((Submission_init 7 100 False)\<lparr>specjudge_type := SPECJUDGE_OLD\<rparr>) (cjail_zero\<lparr>si_code := CLD_EXITED\<rparr>) True [] [] [] TestdataResult_init))"
  by (rule special_judge_bounds)
    (simp_all add: td_wf_def TestdataResult_init_def score_ok_def kMaxMessageLen_def cjail_zero_def)

text \<open>
  A Polygon checker that accepts (exit code 0) at a stage that is not the last, and writes nothing, stops the
  testdata with a wrong answer, because the score is compared before it can be full.
\<close>

theorem polygon_between_stages:
  assumes "specjudge_type sb = SPECJUDGE_POLYGON" "is_regular fs p" "file_text fs p = Some []"
    and "si_code info = CLD_EXITED" "si_status info = 0" "td_score td < full_score"
  shows "td_verdict (scoring_outcome False (fst (ReadSpecjudgeResult fs sb info False p q r td))) = WA \<and>
    skip_stage (scoring_outcome False (fst (ReadSpecjudgeResult fs sb info False p q r td)))"
proof -
  have "parse_overrides False False (False, open_stream [], td) = (\<lparr>left = [], fail = True\<rparr>, td)" for td
    by (subst parse_overrides.simps) (simp add: read_word_def open_stream_def skip_ws_def)
  then show ?thesis using assms
    by (simp add: ReadSpecjudgeResult_def judge_failed_def ReadPolygonSpecjudgeResult_def SetACOrContinue_def Let_def
        open_file_def open_stream_def ParseSpecjudgeOverrides_def scoring_outcome_def)
qed

theorem polygon_between_stages_witness:
  "td_verdict (scoring_outcome False (fst (ReadSpecjudgeResult
     \<lparr>is_regular = \<lambda>_. True, fs_exists = \<lambda>_. True, file_size = \<lambda>_. None, file_text = \<lambda>_. Some [], file_json = \<lambda>_. None, header_files = []\<rparr>
     ((Submission_init 7 100 False)\<lparr>specjudge_type := SPECJUDGE_POLYGON, stages := 2\<rparr>) (cjail_zero\<lparr>si_code := CLD_EXITED\<rparr>)
     False [] [] [] TestdataResult_init))) = WA \<and>
   skip_stage (scoring_outcome False (fst (ReadSpecjudgeResult
     \<lparr>is_regular = \<lambda>_. True, fs_exists = \<lambda>_. True, file_size = \<lambda>_. None, file_text = \<lambda>_. Some [], file_json = \<lambda>_. None, header_files = []\<rparr>
     ((Submission_init 7 100 False)\<lparr>specjudge_type := SPECJUDGE_POLYGON, stages := 2\<rparr>) (cjail_zero\<lparr>si_code := CLD_EXITED\<rparr>)
     False [] [] [] TestdataResult_init)))"
  by (rule polygon_between_stages) (simp_all add: TestdataResult_init_def full_score_def cjail_zero_def)

text \<open>
  After an execution the testdata has no verdict yet exactly if the process was not stopped by the sandbox,
  was not killed, exited with code 0 and stayed, over all its stages, within the limits.
\<close>

theorem clean_execution:
  assumes "FinalizeExecute cfg fs sr te cres st = Inr (sr', st')"
    and "nth_opt (testdata (sub sr)) (nat (subtask (te_task te))) = Some lm"
  shows "\<exists>td. nth_opt (td_results (result sr')) (nat (subtask (te_task te))) = Some td \<and>
    (td_verdict td = NUL \<longleftrightarrow>
       timekill cres = 0 \<and> oomkill cres \<le> 0 \<and> si_code cres \<noteq> CLD_KILLED \<and> si_code cres \<noteq> CLD_DUMPED \<and>
       si_status cres = 0 \<and> within_limits lm td)"
proof -
  let ?i = "nat (subtask (te_task te))"
  let ?u = "execute_usage cfg (stage (te_task te)) cres ((resize_results (?i + 1) (td_results (result sr)) ! ?i)\<lparr>execute_result := cres\<rparr>)"
  let ?td = "?u\<lparr>td_verdict := execute_verdict (sandbox_strict (sub sr)) lm ?u cres\<rparr>"
  have "nth_opt (td_results (result sr')) ?i = Some ?td"
    using assms by (auto simp: FinalizeExecute_def Let_def)
  moreover have "within_limits lm ?td = within_limits lm ?u" by (simp add: within_limits_def)
  ultimately show ?thesis by (simp add: execute_verdict_NUL)
qed

theorem clean_execution_witness:
  "\<exists>td. nth_opt (td_results (result (fst (projr (FinalizeExecute
      \<lparr>kMaxParallel = 1, kPinnedCpus = [], kMaxRSS = 100, kMaxOutput = 100, kTimeMultiplier = 1, kBoxRoot = ''/b'',
        kSubmissionRoot = ''/s'', kDataDir = ''/d'', kTestdataRoot = ''/t''\<rparr>
      \<lparr>is_regular = \<lambda>_. True, fs_exists = \<lambda>_. True, file_size = \<lambda>_. None, file_text = \<lambda>_. None, file_json = \<lambda>_. None, header_files = []\<rparr>
      sample_scored (TaskEntry_new 3 7 \<lparr>task_type = EXECUTE, subtask = 0, stage = 0\<rparr> 0 0) cjail_zero JState_init))))) 0 = Some td \<and>
    (td_verdict td = NUL \<longleftrightarrow>
       timekill cjail_zero = 0 \<and> oomkill cjail_zero \<le> 0 \<and> si_code cjail_zero \<noteq> CLD_KILLED \<and> si_code cjail_zero \<noteq> CLD_DUMPED \<and>
       si_status cjail_zero = 0 \<and> within_limits (sample_item_of False [0]) td)"
  (is "\<exists>td. nth_opt (td_results (result (fst (projr (FinalizeExecute ?cfg ?fs _ ?te _ _))))) 0 = Some td \<and> _")
proof -
  have "FinalizeExecute ?cfg ?fs sample_scored ?te cjail_zero JState_init =
      Inr (fst (projr (FinalizeExecute ?cfg ?fs sample_scored ?te cjail_zero JState_init)),
           snd (projr (FinalizeExecute ?cfg ?fs sample_scored ?te cjail_zero JState_init)))"
    by (simp add: FinalizeExecute_def sample_scored_def Submission_init_def TaskEntry_new_def Let_def)
  from clean_execution [OF this, of "sample_item_of False [0]"] show ?thesis
    by (simp add: TaskEntry_new_def sample_scored_def Submission_init_def)
qed

text \<open>
  With groups skipped on failure, a scoring whose verdict is not accepted cancels exactly the testdata that
  have groups and all of whose groups failed now or before; any other verdict cancels nothing.
\<close>

theorem cancelled_testdata:
  "IsCancelled (cancel_groups sb groups td st) (submission_internal_id sb) gs \<longleftrightarrow>
     IsCancelled st (submission_internal_id sb) gs \<or>
     (skip_group sb \<and> td_verdict td \<noteq> NUL \<and> td_verdict td \<noteq> AC \<and> gs \<noteq> [] \<and>
      set gs \<subseteq> set groups \<union> (case cancelled_group st (submission_internal_id sb) of None \<Rightarrow> {} | Some failed \<Rightarrow> failed))"
  by (auto simp: IsCancelled_def cancel_groups_def Let_def split: option.splits)

text \<open>
  A compilation only makes the verdict worse: a failure of the sandbox is a judge error, a failure of the
  user's program a compile error or a limit, of any other program a judge compile error, and a success
  leaves it; nothing else of the result but the messages changes.
\<close>

theorem compile_outcome:
  assumes "FinalizeCompile cfg fs sr te cres st = Inr (sr', st')"
  shows "verdict (result sr') = max (verdict (result sr))
      (let s = compile_subtask (te_task te);
           missing = \<not> is_regular fs (CompileBoxOutput cfg (submission_internal_id (sub sr)) s (GetLang (sub sr) s) False)
       in if timekill cres = -1 then JE
          else if timekill cres = 0 \<and> oomkill cres \<le> 0 \<and> si_status cres = 0 \<and> \<not> missing then NUL
          else if s \<noteq> CS_USERPROG then JCE
          else if timekill cres \<noteq> 0 \<or> oomkill cres > 0 then CLE else CE) \<and>
    verdict (result sr) \<le> verdict (result sr') \<and> sub sr' = sub sr \<and>
    td_results (result sr') = td_results (result sr)"
  using FinalizeCompile_verdict [OF assms] by (auto simp: Let_def compile_failed_def compile_verdict_def)

definition sample_site :: Config where
  "sample_site = \<lparr>kMaxParallel = 1, kPinnedCpus = [], kMaxRSS = 100, kMaxOutput = 100, kTimeMultiplier = 1,
     kBoxRoot = ''/b'', kSubmissionRoot = ''/s'', kDataDir = ''/d'', kTestdataRoot = ''/t''\<rparr>"

definition sample_disk :: FsView where
  "sample_disk = \<lparr>is_regular = \<lambda>_. True, fs_exists = \<lambda>_. True, file_size = \<lambda>_. Some 5,
     file_text = \<lambda>_. Some ''error'', file_json = \<lambda>_. None, header_files = []\<rparr>"

abbreviation sample_compiled :: "error + SubmissionAndResult \<times> JState" where
  "sample_compiled \<equiv> FinalizeCompile sample_site sample_disk sample_scored
     (TaskEntry_new 3 7 \<lparr>task_type = COMPILE, subtask = 1, stage = 0\<rparr> 0 0) (cjail_zero\<lparr>si_status := 1\<rparr>) JState_init"

lemma sample_compiled_ok: "sample_compiled = Inr (fst (projr sample_compiled), snd (projr sample_compiled))"
  by (simp add: FinalizeCompile_def sample_scored_def Submission_init_def TaskEntry_new_def cjail_zero_def
      sample_disk_def compile_subtask_def compile_failed_def compile_message_def Let_def)

theorem compile_outcome_witness:
  "verdict (result (fst (projr sample_compiled))) = JCE \<and> sub (fst (projr sample_compiled)) = sub sample_scored"
proof -
  have "verdict (result sample_scored) = WA" by (simp add: sample_scored_def)
  moreover have "max WA JCE = JCE" by code_simp
  ultimately show ?thesis
    using compile_outcome [OF sample_compiled_ok]
    by (simp add: TaskEntry_new_def cjail_zero_def compile_subtask_def Let_def)
qed

end
