(* ===== verification/OutputCompare.thy ===== *)
theory OutputCompare
  imports Streams
begin

text \<open>
  The comparisons of \<open>tools/default-scoring.cpp\<close>: \<open>LineCompare\<close>, \<open>WordCompare\<close> and \<open>StrictCompare\<close>,
  with their messages. Each is shown to accept exactly what a reference on whole texts accepts.
\<close>

section \<open>Files\<close>

text \<open>
  An input file read by \<open>getline\<close>: the lines left, \<open>[]\<close> once the end has been reached; \<open>None\<close> if the
  file could not be opened, when \<open>getline\<close> gives nothing and the end is never reached.
\<close>

type_synonym text_file = "string list option"

fun split_lines :: "string \<Rightarrow> string list" where
  "split_lines [] = [[]]"
| "split_lines (c # s) =
     (if c = CHR 10 then [] # split_lines s
      else case split_lines s of [] \<Rightarrow> [[c]] | l # ls \<Rightarrow> (c # l) # ls)"

definition open_text :: "string option \<Rightarrow> text_file" where
  "open_text = map_option split_lines"

definition eof :: "text_file \<Rightarrow> bool" where
  "eof f \<longleftrightarrow> f = Some []"

fun getline :: "text_file \<Rightarrow> string \<times> text_file" where
  "getline None = ([], None)"
| "getline (Some []) = ([], Some [])"
| "getline (Some (l # ls)) = (l, Some ls)"

lemma eof_simps [simp]: "\<not> eof None" "eof (Some []) = True" "eof (Some (l # ls)) = False"
  by (simp_all add: eof_def)

section \<open>Messages\<close>

definition nat_text :: "nat \<Rightarrow> string" where
  "nat_text n = to_string (int n)"

definition EOFMessage :: "bool \<Rightarrow> nat \<Rightarrow> nat \<Rightarrow> string" where
  "EOFMessage ans_eof line user_lines =
     (if ans_eof then ''Unexpected line '' @ nat_text line
      else ''Unexpected EOF after line '' @ nat_text user_lines)"

fun common_prefix :: "string \<Rightarrow> string \<Rightarrow> nat" where
  "common_prefix (a # as) (b # bs) = (if a = b then Suc (common_prefix as bs) else 0)"
| "common_prefix _ _ = 0"

definition excerpt :: "nat \<Rightarrow> string \<Rightarrow> string" where
  "excerpt pos s =
     (if pos \<le> 40 \<or> length s \<le> 80 then s
      else ''...'' @ take 80 (drop (pos - 40) s) @ (if length s > pos + 40 then ''...'' else []))"

definition DifferMessage :: "string \<Rightarrow> string \<Rightarrow> string" where
  "DifferMessage ans usr =
     (let pos = common_prefix ans usr
      in ''Expected: '' @ excerpt pos ans @ [CHR 10] @ ''Got: '' @ excerpt pos usr)"

section \<open>Comparing line by line\<close>

text \<open>
  The outer loop of \<open>LineCompare\<close> and \<open>WordCompare\<close>. \<open>differs\<close> compares the lines with a given number,
  and gives the message if they differ. \<open>Inl\<close> is a decision; \<open>Inr\<close> is the line number and the files
  when one of them has ended. If neither file could be opened the loop never ends.
\<close>

partial_function (option) lines_loop ::
    "(nat \<Rightarrow> string \<Rightarrow> string \<Rightarrow> string option) \<Rightarrow> nat \<Rightarrow> text_file \<Rightarrow> text_file \<Rightarrow>
     (bool \<times> string + nat \<times> text_file \<times> text_file) option" where
  "lines_loop differs line f_ans f_usr =
     (if eof f_ans \<noteq> eof f_usr then Some (Inr (line, f_ans, f_usr))
      else if eof f_ans then Some (Inl (True, []))
      else case differs line (fst (getline f_ans)) (fst (getline f_usr)) of
          Some msg \<Rightarrow> Some (Inl (False, msg))
        | None \<Rightarrow> lines_loop differs (Suc line) (snd (getline f_ans)) (snd (getline f_usr)))"

text \<open>
  The rest of the file that has not ended must be blank. \<open>counting\<close> tells whether the line number goes up
  (it does in \<open>LineCompare\<close> only).
\<close>

partial_function (option) tail_loop ::
    "bool \<Rightarrow> (char \<Rightarrow> bool) \<Rightarrow> bool \<Rightarrow> nat \<Rightarrow> nat \<Rightarrow> text_file \<Rightarrow> text_file \<Rightarrow> (bool \<times> string) option" where
  "tail_loop verbose white counting line user_lines f_ans f_usr =
     (if eof f_ans \<and> eof f_usr then Some (True, [])
      else if \<not> eof f_ans then
        (if list_all white (fst (getline f_ans))
         then tail_loop verbose white counting (if counting then Suc line else line) user_lines (snd (getline f_ans)) f_usr
         else Some (False, if verbose then EOFMessage (eof (snd (getline f_ans))) line user_lines else []))
      else
        (if list_all white (fst (getline f_usr))
         then tail_loop verbose white counting (if counting then Suc line else line) user_lines f_ans (snd (getline f_usr))
         else Some (False, if verbose then EOFMessage (eof f_ans) line user_lines else [])))"

definition line_white :: "char \<Rightarrow> bool" where
  "line_white c \<longleftrightarrow> c \<in> {CHR '' '', CHR 10, CHR 13, CHR 9}"

definition rstrip :: "string \<Rightarrow> string" where
  "rstrip s = rev (dropWhile line_white (rev s))"

definition line_differs :: "bool \<Rightarrow> bool \<Rightarrow> nat \<Rightarrow> string \<Rightarrow> string \<Rightarrow> string option" where
  "line_differs verbose strip_tail line s t =
     (let s = (if strip_tail then rstrip s else s); t = (if strip_tail then rstrip t else t)
      in if s \<noteq> t
         then Some (if verbose then ''Line '' @ nat_text line @ '' differ.'' @ [CHR 10] @ DifferMessage s t else [])
         else None)"

definition LineCompare :: "bool \<Rightarrow> text_file \<Rightarrow> text_file \<Rightarrow> bool \<Rightarrow> bool \<Rightarrow> (bool \<times> string) option" where
  "LineCompare verbose f_ans f_usr strip_tail ignore_tail_empty_lines =
     Option.bind (lines_loop (line_differs verbose strip_tail) 1 f_ans f_usr) (\<lambda>r. case r of
       Inl x \<Rightarrow> Some x
     | Inr (line, f_ans, f_usr) \<Rightarrow>
         if \<not> ignore_tail_empty_lines
         then Some (False, if verbose then EOFMessage (eof f_ans) line (line - 1) else [])
         else tail_loop verbose line_white True line (line - 1) f_ans f_usr)"

section \<open>Comparing word by word\<close>

definition word_white :: "char \<Rightarrow> bool" where
  "word_white c \<longleftrightarrow> c \<in> {CHR '' '', CHR 10, CHR 13, CHR 9, CHR 11, CHR 12}"

lemma drop_word_shorter:
  "dropWhile word_white s \<noteq> [] \<Longrightarrow>
   length (dropWhile (\<lambda>c. \<not> word_white c) (dropWhile word_white s)) < length s"
proof -
  assume ne: "dropWhile word_white s \<noteq> []"
  then obtain c cs where c: "dropWhile word_white s = c # cs" by (cases "dropWhile word_white s") auto
  then have "\<not> word_white c" using hd_dropWhile [OF ne] by simp
  then have "length (dropWhile (\<lambda>c. \<not> word_white c) (c # cs)) \<le> length cs" by (simp add: length_dropWhile_le)
  moreover have "length (c # cs) \<le> length s" using length_dropWhile_le [of word_white s] c by simp
  ultimately show ?thesis unfolding c by simp
qed

function words_differ ::
    "bool \<Rightarrow> (string \<Rightarrow> string \<Rightarrow> bool) \<Rightarrow> nat \<Rightarrow> nat \<Rightarrow> string \<Rightarrow> string \<Rightarrow> string option" where
  "words_differ verbose func word line s t =
     (let s = dropWhile word_white s; t = dropWhile word_white t
      in if (s = []) \<noteq> (t = []) then
           Some (if \<not> verbose then []
                 else if s = [] then ''Unexpected word: line '' @ nat_text line @ '', word '' @ nat_text word
                 else ''Unexpected EOL after line '' @ nat_text line @ '', word '' @ nat_text (word - 1))
         else if s = [] then None
         else let a = takeWhile (\<lambda>c. \<not> word_white c) s; b = takeWhile (\<lambda>c. \<not> word_white c) t
              in if \<not> func a b then
                   Some (if verbose then ''Line '' @ nat_text line @ '', word '' @ nat_text word @ '' differ.'' @ [CHR 10] @
                           DifferMessage a b else [])
                 else words_differ verbose func (Suc word) line
                        (dropWhile (\<lambda>c. \<not> word_white c) s) (dropWhile (\<lambda>c. \<not> word_white c) t))"
  by pat_completeness auto

termination
  by (relation "measure (\<lambda>(v, f, w, l, s, t). length s)") (use drop_word_shorter in auto)

declare words_differ.simps [simp del]

definition WordCompare ::
    "bool \<Rightarrow> text_file \<Rightarrow> text_file \<Rightarrow> (string \<Rightarrow> string \<Rightarrow> bool) \<Rightarrow> (bool \<times> string) option" where
  "WordCompare verbose f_ans f_usr func =
     Option.bind (lines_loop (words_differ verbose func 1) 1 f_ans f_usr) (\<lambda>r. case r of
       Inl x \<Rightarrow> Some x
     | Inr (line, f_ans, f_usr) \<Rightarrow> tail_loop verbose word_white False line (line - 1) f_ans f_usr)"

section \<open>What the comparisons accept\<close>

text \<open>
  The reference for two files that could be opened: the common lines are the same pairwise, and what
  one file has more is blank.
\<close>

fun agree :: "('a \<Rightarrow> 'a \<Rightarrow> bool) \<Rightarrow> ('a \<Rightarrow> bool) \<Rightarrow> 'a list \<Rightarrow> 'a list \<Rightarrow> bool" where
  "agree same blank (s # a) (t # u) \<longleftrightarrow> same s t \<and> agree same blank a u"
| "agree same blank [] u \<longleftrightarrow> list_all blank u"
| "agree same blank a [] \<longleftrightarrow> list_all blank a"

locale line_rule =
  fixes differs :: "nat \<Rightarrow> string \<Rightarrow> string \<Rightarrow> string option"
    and same :: "string \<Rightarrow> string \<Rightarrow> bool" and white :: "char \<Rightarrow> bool"
  assumes differs_None: "differs n s t = None \<longleftrightarrow> same s t"
begin

lemma tail_ok:
  "\<exists>m. tail_loop v white c n k (Some a) (Some u) = Some (list_all (list_all white) a \<and> list_all (list_all white) u, m)"
proof (induction a arbitrary: n)
  case Nil
  show ?case
  proof (induction u arbitrary: n)
    case (Cons t u)
    from Cons [of "if c then Suc n else n"] show ?case by (subst tail_loop.simps) auto
  qed (simp add: tail_loop.simps)
next
  case (Cons s a)
  from Cons [of "if c then Suc n else n"] show ?case by (subst tail_loop.simps) auto
qed

lemma compare_ok:
  "\<exists>m. Option.bind (lines_loop differs n (Some a) (Some u)) (\<lambda>r. case r of
       Inl x \<Rightarrow> Some x
     | Inr (line, fa, fu) \<Rightarrow> tail_loop v white c line (line - 1) fa fu)
   = Some (agree same (list_all white) a u, m)"
proof (induction a u arbitrary: n rule: list_induct2')
  case 1
  then show ?case by (simp add: lines_loop.simps)
next
  case (2 s a)
  from tail_ok [of v c n "n - 1" "s # a" "[]"] show ?case by (subst lines_loop.simps) auto
next
  case (3 t u)
  from tail_ok [of v c n "n - 1" "[]" "t # u"] show ?case by (subst lines_loop.simps) auto
next
  case (4 s a t u)
  show ?case
  proof (cases "differs n s t")
    case None
    then have "same s t" by (simp add: differs_None)
    have "lines_loop differs n (Some (s # a)) (Some (t # u)) = lines_loop differs (Suc n) (Some a) (Some u)"
      by (subst lines_loop.simps) (simp add: None)
    with 4 [of "Suc n"] \<open>same s t\<close> show ?thesis by (simp only: agree.simps simp_thms)
  next
    case (Some m)
    then have "\<not> same s t" using differs_None [of n s t] by simp
    then show ?thesis using Some by (subst lines_loop.simps) simp
  qed
qed

end

text \<open>When lines are compared by a key that is empty exactly for blank lines.\<close>

fun trim_end :: "'a list list \<Rightarrow> 'a list list" where
  "trim_end [] = []"
| "trim_end (x # xs) = (if x = [] \<and> trim_end xs = [] then [] else x # trim_end xs)"

lemma trim_end_Nil: "trim_end xs = [] \<longleftrightarrow> list_all (\<lambda>x. x = []) xs"
  by (induction xs) auto

locale keyed_lines = line_rule +
  fixes key :: "string \<Rightarrow> 'k list"
  assumes same_key: "same s t \<longleftrightarrow> key s = key t"
    and blank_key: "list_all white s \<longleftrightarrow> key s = []"
begin

lemma agree_trimmed:
  "agree same (list_all white) a u \<longleftrightarrow> trim_end (map key a) = trim_end (map key u)"
proof (induction a u rule: list_induct2')
  case (2 s a)
  have "trim_end (map key (s # a)) = [] \<longleftrightarrow> list_all (list_all white) (s # a)"
    unfolding trim_end_Nil list_all_iff by (simp add: blank_key [unfolded list_all_iff])
  then show ?case by (metis agree.simps(3) trim_end.simps(1) list.simps(8))
next
  case (3 t u)
  have "trim_end (map key (t # u)) = [] \<longleftrightarrow> list_all (list_all white) (t # u)"
    unfolding trim_end_Nil list_all_iff by (simp add: blank_key [unfolded list_all_iff])
  then show ?case by (metis agree.simps(2) trim_end.simps(1) list.simps(8))
next
  case (4 s a t u)
  then show ?case by (auto simp: same_key)
qed simp

end

lemma rstrip_Nil: "rstrip s = [] \<longleftrightarrow> list_all line_white s"
  by (auto simp: rstrip_def dropWhile_eq_Nil_conv list_all_iff)

interpretation stripped: keyed_lines "line_differs v True" "\<lambda>s t. rstrip s = rstrip t" line_white rstrip for v
  by unfold_locales (auto simp: line_differs_def Let_def rstrip_Nil)

text \<open>The words of a line.\<close>

function words :: "string \<Rightarrow> string list" where
  "words s =
     (let s = dropWhile word_white s
      in if s = [] then []
         else takeWhile (\<lambda>c. \<not> word_white c) s # words (dropWhile (\<lambda>c. \<not> word_white c) s))"
  by pat_completeness auto

termination
  by (relation "measure length") (use drop_word_shorter in auto)

declare words.simps [simp del]

lemma words_Nil: "words s = [] \<longleftrightarrow> list_all word_white s"
  by (subst words.simps) (auto simp: Let_def dropWhile_eq_Nil_conv list_all_iff)

lemma words_differ_None: "words_differ v func n k s t = None \<longleftrightarrow> list_all2 func (words s) (words t)"
proof (induction v func n k s t rule: words_differ.induct)
  case (1 v func n k s t)
  let ?s = "dropWhile word_white s" and ?t = "dropWhile word_white t"
  show ?case
  proof (cases "?s = [] \<or> ?t = []")
    case True
    then show ?thesis
      by (subst words_differ.simps, subst (1 2) words.simps) (auto simp: Let_def)
  next
    case False
    note w = words.simps [of s, unfolded Let_def] words.simps [of t, unfolded Let_def]
    show ?thesis
    proof (cases "func (takeWhile (\<lambda>c. \<not> word_white c) ?s) (takeWhile (\<lambda>c. \<not> word_white c) ?t)")
      case True
      have "words_differ v func (Suc n) k (dropWhile (\<lambda>c. \<not> word_white c) ?s) (dropWhile (\<lambda>c. \<not> word_white c) ?t) = None \<longleftrightarrow>
          list_all2 func (words (dropWhile (\<lambda>c. \<not> word_white c) ?s)) (words (dropWhile (\<lambda>c. \<not> word_white c) ?t))"
        by (rule 1 [OF refl refl _ _ refl refl]) (use False True in auto)
      with False True show ?thesis by (subst words_differ.simps) (simp add: Let_def w del: dropWhile_eq_Nil_conv)
    next
      case f: False
      with False show ?thesis by (subst words_differ.simps) (simp add: Let_def w del: dropWhile_eq_Nil_conv)
    qed
  qed
qed

interpretation worded: line_rule "words_differ v func 1" "\<lambda>s t. list_all2 func (words s) (words t)" word_white for v func
  by unfold_locales (simp add: words_differ_None)

interpretation exact_words: keyed_lines "words_differ v (=) 1" "\<lambda>s t. list_all2 (=) (words s) (words t)" word_white words for v
  by unfold_locales (simp_all add: words_differ_None list.rel_eq words_Nil)

section \<open>Comparing byte by byte\<close>

definition kBufSize :: nat where "kBufSize = 65536"

definition hex_digit :: "nat \<Rightarrow> char" where
  "hex_digit d = (if d < 10 then digit_char d else char_of (87 + d))"

text \<open>Two digits, of a value below 256.\<close>

definition hex_byte :: "char \<Rightarrow> string" where
  "hex_byte c = (let n = (of_char c :: nat) in [hex_digit (n div 16), hex_digit (n mod 16)])"

definition strict_message :: "nat \<Rightarrow> string \<Rightarrow> string \<Rightarrow> string" where
  "strict_message pos buf1 buf2 =
     (if length buf1 \<noteq> length buf2 then
        ''Length differ: expected '' @ nat_text (pos + length buf1) @ '' bytes, got '' @
        nat_text (pos + length buf2) @ '' bytes''
      else let k = common_prefix buf1 buf2
           in ''Byte '' @ nat_text (pos + k) @ '' differ: expected 0x'' @ hex_byte (buf1 ! k) @
              '', got 0x'' @ hex_byte (buf2 ! k))"

text \<open>
  The loop on the bytes left. A read of fewer bytes than asked for sets the end flag; two reads of the
  same length set it together. Reading a file that is not open gives nothing and sets no end flag.
\<close>

function strict_loop :: "bool \<Rightarrow> nat \<Rightarrow> string \<Rightarrow> string \<Rightarrow> bool \<times> string" where
  "strict_loop verbose pos a u =
     (let buf1 = take kBufSize a; buf2 = take kBufSize u
      in if length buf1 \<noteq> length buf2 \<or> buf1 \<noteq> buf2 then
           (False, if verbose then strict_message pos buf1 buf2 else [])
         else if length buf1 < kBufSize then (True, [])
         else strict_loop verbose (pos + length buf2) (drop kBufSize a) (drop kBufSize u))"
  by pat_completeness auto

termination
  by (relation "measure (\<lambda>(v, p, a, u). length a)") (auto simp: kBufSize_def)

declare strict_loop.simps [simp del]

definition StrictCompare :: "bool \<Rightarrow> string option \<Rightarrow> string option \<Rightarrow> bool \<times> string" where
  "StrictCompare verbose f_ans f_usr =
     (case f_ans of
        None \<Rightarrow> (True, [])
      | Some a \<Rightarrow>
          (case f_usr of
             None \<Rightarrow>
               (False, if verbose then ''Length differ: expected '' @ nat_text (length (take kBufSize a)) @
                         '' bytes, got '' @ nat_text 0 @ '' bytes'' else [])
           | Some u \<Rightarrow> strict_loop verbose 0 a u))"

lemma take_drop_eq: "take n a = take n u \<and> drop n a = drop n u \<longleftrightarrow> a = u"
  by (metis append_take_drop_id)

lemma strict_loop_eq: "fst (strict_loop v pos a u) \<longleftrightarrow> a = u"
proof (induction v pos a u rule: strict_loop.induct)
  case (1 v pos a u)
  let ?a = "take kBufSize a" and ?u = "take kBufSize u"
  show ?case
  proof (cases "?a = ?u \<and> \<not> length ?a < kBufSize")
    case True
    then have "fst (strict_loop v (pos + length ?u) (drop kBufSize a) (drop kBufSize u)) \<longleftrightarrow> drop kBufSize a = drop kBufSize u"
      by (intro 1) auto
    moreover have "strict_loop v pos a u = strict_loop v (pos + length ?u) (drop kBufSize a) (drop kBufSize u)"
    proof -
      have "\<not> length ?u < kBufSize" using True by metis
      with True show ?thesis by (subst strict_loop.simps) (simp add: Let_def del: length_take)
    qed
    ultimately show ?thesis using True take_drop_eq [of kBufSize a u] by simp
  next
    case False
    then show ?thesis
    proof (cases "?a = ?u")
      case True
      with False have "length ?a < kBufSize" "length ?u < kBufSize" by auto
      then have "a = ?a" "u = ?u" by simp_all
      with True have "a = u" by simp
      then show ?thesis using False
        by (subst strict_loop.simps) (auto simp: Let_def min_def split: if_splits)
    next
      case ne: False
      then show ?thesis by (subst strict_loop.simps) (auto simp: Let_def)
    qed
  qed
qed

end
