(* ===== verification/DefaultScoring.thy ===== *)
theory DefaultScoring
  imports OutputCompare Data
begin

text \<open>
  The rest of \<open>tools/default-scoring.cpp\<close>: the floating-point comparisons of words, the arguments,
  and the verdict the program prints; with the statement of which outputs it accepts.
\<close>

section \<open>Arithmetic on \<open>long double\<close>\<close>

fun ld_neg :: "ldouble \<Rightarrow> ldouble" where
  "ld_neg (Fin a) = Fin (- a)"
| "ld_neg PInf = NInf"
| "ld_neg NInf = PInf"
| "ld_neg NaN = NaN"

fun ld_minus :: "ldouble \<Rightarrow> ldouble \<Rightarrow> ldouble" where
  "ld_minus (Fin a) (Fin b) = ld_fin (a - b)"
| "ld_minus (Fin a) y = ld_neg y"
| "ld_minus NaN y = NaN"
| "ld_minus x (Fin b) = x"
| "ld_minus x NaN = NaN"
| "ld_minus PInf y = (if y = PInf then NaN else PInf)"
| "ld_minus NInf y = (if y = NInf then NaN else NInf)"

fun ld_abs :: "ldouble \<Rightarrow> ldouble" where
  "ld_abs (Fin a) = Fin \<bar>a\<bar>"
| "ld_abs NInf = PInf"
| "ld_abs x = x"

definition ld_le :: "ldouble \<Rightarrow> ldouble \<Rightarrow> bool" where
  "ld_le x y \<longleftrightarrow> x \<noteq> NaN \<and> y \<noteq> NaN \<and> \<not> ld_less y x"

text \<open>The product with a value that is not negative.\<close>

fun ld_mult :: "ldouble \<Rightarrow> ldouble \<Rightarrow> ldouble" where
  "ld_mult (Fin a) (Fin b) = ld_fin (a * b)"
| "ld_mult NaN y = NaN"
| "ld_mult x NaN = NaN"
| "ld_mult (Fin a) y = (if a = 0 then NaN else if a < 0 then ld_neg y else y)"
| "ld_mult x (Fin b) = (if b = 0 then NaN else x)"
| "ld_mult x y = x"

text \<open>\<open>std::max(1.0L, x)\<close>, which is \<open>(1.0L < x) ? x : 1.0L\<close>.\<close>

definition max_one :: "ldouble \<Rightarrow> ldouble" where
  "max_one x = (if ld_less (Fin 1) x then x else Fin 1)"

text \<open>The conversion to \<open>double\<close> of the threshold; numbers below its normal range are not rounded further.\<close>

fun to_double :: "ldouble \<Rightarrow> ldouble" where
  "to_double (Fin q) =
     (let r = dbl_round q in if 2 ^ 1024 \<le> r then PInf else if r \<le> - (2 ^ 1024) then NInf else Fin r)"
| "to_double x = x"

section \<open>Comparing words as numbers\<close>

datatype error_kind = Absolute | Relative | Absolute_relative

definition within_error :: "error_kind \<Rightarrow> ldouble \<Rightarrow> ldouble \<Rightarrow> ldouble \<Rightarrow> bool" where
  "within_error kind threshold ans usr =
     (let d = ld_abs (ld_minus ans usr)
      in case kind of
           Absolute \<Rightarrow> ld_le d threshold
         | Relative \<Rightarrow> ld_le d (ld_mult threshold (ld_abs ans))
         | Absolute_relative \<Rightarrow> ld_le d (ld_mult threshold (max_one (ld_abs ans))))"

definition looks_float :: "string \<Rightarrow> bool" where
  "looks_float s \<longleftrightarrow> (\<exists>c \<in> set s. c \<in> set ''.eExXnN'')"

definition check_float :: "(ldouble \<Rightarrow> ldouble \<Rightarrow> bool) \<Rightarrow> string \<Rightarrow> string \<Rightarrow> bool" where
  "check_float func ans usr =
     (case (stold ans, stold usr) of
        (Some x, Some y) \<Rightarrow> if looks_float ans then func x y else ans = usr
      | _ \<Rightarrow> ans = usr)"

section \<open>Arguments\<close>

record scoring_args =
  sa_verbose :: bool
  sa_type :: string
  sa_subtype :: string
  sa_threshold :: ldouble

definition default_args :: scoring_args where
  "default_args = \<lparr>sa_verbose = False, sa_type = ''line'', sa_subtype = ''absolute-relative'',
     sa_threshold = Fin (dbl_round (1 / 10 ^ 6))\<rparr>"

text \<open>The arguments after the meta file. A word after the subtype that is no number is taken as a type.\<close>

function parse_args :: "string list \<Rightarrow> scoring_args \<Rightarrow> scoring_args" where
  "parse_args [] sa = sa"
| "parse_args (str # rest) sa =
     (if str = ''verbose'' then parse_args rest (sa\<lparr>sa_verbose := True\<rparr>)
      else let sa = sa\<lparr>sa_type := str\<rparr>
           in if str = ''float-diff'' \<and> rest \<noteq> [] then
                (let sa = sa\<lparr>sa_subtype := hd rest\<rparr>
                 in case tl rest of
                      [] \<Rightarrow> sa
                    | x # others \<Rightarrow>
                        (case stold x of
                           Some v \<Rightarrow> parse_args others (sa\<lparr>sa_threshold := to_double v\<rparr>)
                         | None \<Rightarrow> parse_args (tl rest) sa))
              else parse_args rest sa)"
  by pat_completeness auto

termination
  by (relation "measure (\<lambda>(xs, sa). length xs)") (auto dest: arg_cong [of _ _ length])

declare parse_args.simps(2) [simp del]

section \<open>The program\<close>

definition error_kind_of :: "string \<Rightarrow> error_kind option" where
  "error_kind_of s =
     (if s = ''absolute'' then Some Absolute else if s = ''relative'' then Some Relative
      else if s = ''absolute-relative'' then Some Absolute_relative else None)"

definition compare_files :: "scoring_args \<Rightarrow> string option \<Rightarrow> string option \<Rightarrow> (bool \<times> string) option" where
  "compare_files sa f_ans f_usr =
     (let v = sa_verbose sa; a = open_text f_ans; u = open_text f_usr
      in if sa_type sa = ''strict'' then Some (StrictCompare v f_ans f_usr)
         else if sa_type sa = ''line'' then LineCompare v a u True True
         else if sa_type sa = ''white-diff'' then WordCompare v a u (=)
         else if sa_type sa = ''float-diff'' then
           (case error_kind_of (sa_subtype sa) of
              Some kind \<Rightarrow> WordCompare v a u (check_float (within_error kind (sa_threshold sa)))
            | None \<Rightarrow> Some (False, []))
         else Some (False, []))"

text \<open>
  The printed JSON. \<open>is_file\<close> tells whether the user output is a regular file; \<open>None\<close> as a content is a
  file that cannot be opened. The result is \<open>None\<close> when the program does not end.
\<close>

definition default_scoring :: "string list \<Rightarrow> bool \<Rightarrow> string option \<Rightarrow> string option \<Rightarrow> json option" where
  "default_scoring args is_file f_ans f_usr =
     (if \<not> is_file then Some (JObject [(''verdict'', JString ''WA'')])
      else let sa = parse_args args default_args
           in map_option (\<lambda>(res, msg).
                if res then JObject [(''verdict'', JString ''AC'')]
                else JObject ((''verdict'', JString ''WA'') #
                  (if sa_verbose sa then [(''message_type'', JString ''text''), (''message'', JString msg)] else [])))
              (compare_files sa f_ans f_usr))"

section \<open>What is accepted\<close>

text \<open>The reference: on whole texts, without positions, buffers or messages.\<close>

definition accepts :: "scoring_args \<Rightarrow> string \<Rightarrow> string \<Rightarrow> bool" where
  "accepts sa a u =
     (if sa_type sa = ''strict'' then a = u
      else if sa_type sa = ''line'' then
        trim_end (map rstrip (split_lines a)) = trim_end (map rstrip (split_lines u))
      else if sa_type sa = ''white-diff'' then
        trim_end (map words (split_lines a)) = trim_end (map words (split_lines u))
      else if sa_type sa = ''float-diff'' then
        (case error_kind_of (sa_subtype sa) of
           None \<Rightarrow> False
         | Some kind \<Rightarrow>
             agree (\<lambda>s t. list_all2 (check_float (within_error kind (sa_threshold sa))) (words s) (words t))
               (\<lambda>s. words s = []) (split_lines a) (split_lines u))
      else False)"

lemma blank_words: "list_all word_white = (\<lambda>s. words s = [])"
  by (simp add: words_Nil fun_eq_iff)

lemma LineCompare_accepts:
  "\<exists>m. LineCompare v (open_text (Some a)) (open_text (Some u)) True True =
     Some (trim_end (map rstrip (split_lines a)) = trim_end (map rstrip (split_lines u)), m)"
  using stripped.compare_ok [of v 1 "split_lines a" "split_lines u" v True]
  by (simp only: stripped.agree_trimmed LineCompare_def open_text_def option.map not_True_eq_False if_False)

lemma WordCompare_accepts:
  "\<exists>m. WordCompare v (open_text (Some a)) (open_text (Some u)) func =
     Some (agree (\<lambda>s t. list_all2 func (words s) (words t)) (\<lambda>s. words s = []) (split_lines a) (split_lines u), m)"
  using worded.compare_ok [of v func 1 "split_lines a" "split_lines u" v False]
  by (simp only: WordCompare_def blank_words open_text_def option.map)

lemma WordCompare_exact:
  "\<exists>m. WordCompare v (open_text (Some a)) (open_text (Some u)) (=) =
     Some (trim_end (map words (split_lines a)) = trim_end (map words (split_lines u)), m)"
  using WordCompare_accepts [of v a u "(=)"] exact_words.agree_trimmed [of "split_lines a" "split_lines u"]
  by (simp add: blank_words)

lemma compare_files_accepts: "\<exists>m. compare_files sa (Some a) (Some u) = Some (accepts sa a u, m)"
proof -
  have s: "\<exists>m. StrictCompare (sa_verbose sa) (Some a) (Some u) = (a = u, m)"
    using strict_loop_eq [of "sa_verbose sa" 0 a u] by (cases "strict_loop (sa_verbose sa) 0 a u") (auto simp: StrictCompare_def)
  show ?thesis
    using s LineCompare_accepts [of "sa_verbose sa" a u] WordCompare_exact [of "sa_verbose sa" a u]
      WordCompare_accepts [of "sa_verbose sa" a u]
    by (auto simp: compare_files_def accepts_def split: option.split)
qed

text \<open>A word that is no infinity and no NaN is within any error of itself.\<close>

lemma ld_fin_nonneg: "0 \<le> q \<Longrightarrow> ld_le (Fin 0) (ld_fin q)"
proof -
  assume q: "0 \<le> q"
  have "\<bar>ld_round q - q\<bar> \<le> q / 2 ^ 64" using fp_round_err [of 64 q] q by simp
  moreover have "q / 2 ^ 64 \<le> q" using q by (simp add: divide_le_eq)
  ultimately have "0 \<le> ld_round q" by linarith
  moreover have "0 < ld_huge" by (simp add: ld_huge_def)
  ultimately show ?thesis by (auto simp: ld_fin_def Let_def ld_le_def)
qed

lemma within_error_refl: "0 \<le> th \<Longrightarrow> within_error kind (Fin th) (Fin x) (Fin x)"
proof -
  assume th: "0 \<le> th"
  have z: "ld_fin 0 = Fin 0" by (simp add: ld_fin_def ld_huge_def)
  have "ld_le (Fin 0) (ld_mult (Fin th) (Fin y))" if "0 \<le> y" for y
    using ld_fin_nonneg [of "th * y"] th that by simp
  moreover have "\<exists>y. 0 \<le> y \<and> max_one (Fin \<bar>x\<bar>) = Fin y" by (auto simp: max_one_def)
  ultimately show ?thesis using th by (auto simp: within_error_def z ld_le_def [of "Fin 0" "Fin th"] split: error_kind.split)
qed

definition ordinary_word :: "string \<Rightarrow> bool" where
  "ordinary_word w \<longleftrightarrow> stold w \<notin> {Some PInf, Some NInf, Some NaN}"

lemma check_float_refl:
  "ordinary_word w \<Longrightarrow> 0 \<le> th \<Longrightarrow> check_float (within_error kind (Fin th)) w w"
proof (cases "stold w")
  case (Some v)
  assume "ordinary_word w" "0 \<le> th"
  then show ?thesis using Some within_error_refl by (cases v) (auto simp: check_float_def ordinary_word_def)
qed (simp add: check_float_def)

lemma in_ld_range_finite: "in_ld_range neg q \<notin> {Some PInf, Some NInf, Some NaN}"
  by (auto simp: in_ld_range_def split: ldouble.splits if_splits)

text \<open>What looks special: \<open>inf\<close> or \<open>nan\<close> after the spaces and the sign.\<close>

definition special_prefix :: "string \<Rightarrow> bool" where
  "special_prefix w \<longleftrightarrow> take 3 (map tolower (snd (split_sign (skip_ws w)))) \<in> {''inf'', ''nan''}"

lemma ordinary_wordI: "\<not> special_prefix w \<Longrightarrow> ordinary_word w"
  using in_ld_range_finite
  by (auto simp: ordinary_word_def special_prefix_def stold_def Let_def split: prod.splits if_splits)

lemma within_error_NaN: "ld_minus x y = NaN \<Longrightarrow> \<not> within_error kind th x y"
  by (simp add: within_error_def ld_le_def split: error_kind.split)

lemma agree_refl: "(\<And>x. x \<in> set xs \<Longrightarrow> same x x) \<Longrightarrow> agree same blank xs xs"
  by (induction xs) auto

section \<open>Properties\<close>

text \<open>
  C18: For two files that can be opened the program always prints a verdict: \<open>AC\<close> exactly when the
  reference accepts, whatever the arguments; the message is there exactly in verbose mode.
\<close>

theorem default_scoring_verdict:
  "\<exists>m. default_scoring args True (Some a) (Some u) = Some
     (if accepts (parse_args args default_args) a u then JObject [(''verdict'', JString ''AC'')]
      else JObject ((''verdict'', JString ''WA'') #
        (if sa_verbose (parse_args args default_args)
         then [(''message_type'', JString ''text''), (''message'', JString m)] else [])))"
proof -
  obtain m where "compare_files (parse_args args default_args) (Some a) (Some u) =
      Some (accepts (parse_args args default_args) a u, m)"
    using compare_files_accepts by blast
  then show ?thesis by (intro exI [of _ m]) (simp add: default_scoring_def Let_def)
qed



text \<open>
  A floating-point comparison rejects an output identical to the answer if a word is an infinity
  or NaN: with the default threshold, \<open>nan\<close> and \<open>inf\<close> are wrong answers to themselves.
\<close>

theorem identical_special_rejected:
  "default_scoring [''float-diff''] True (Some ''nan'') (Some ''nan'') = Some (JObject [(''verdict'', JString ''WA'')]) \<and>
   default_scoring [''float-diff''] True (Some ''inf'') (Some ''inf'') = Some (JObject [(''verdict'', JString ''WA'')])"
proof -
  have p: "parse_args [''float-diff''] default_args = default_args\<lparr>sa_type := ''float-diff''\<rparr>"
    by (simp add: parse_args.simps(2))
  have w: "split_lines ''nan'' = [''nan'']" "split_lines ''inf'' = [''inf'']" "words ''nan'' = [''nan'']"
    "words ''inf'' = [''inf'']" "stold ''nan'' = Some NaN" "stold ''inf'' = Some PInf"
    "looks_float ''nan''" "looks_float ''inf''"
    by code_simp+
  have "\<not> accepts (default_args\<lparr>sa_type := ''float-diff''\<rparr>) ''nan'' ''nan''"
    "\<not> accepts (default_args\<lparr>sa_type := ''float-diff''\<rparr>) ''inf'' ''inf''"
    by (simp_all add: accepts_def default_args_def error_kind_of_def w check_float_def within_error_NaN)
  moreover have "\<not> sa_verbose (default_args\<lparr>sa_type := ''float-diff''\<rparr>)" by (simp add: default_args_def)
  ultimately show ?thesis
    using compare_files_accepts [of "default_args\<lparr>sa_type := ''float-diff''\<rparr>" "''nan''" "''nan''"]
      compare_files_accepts [of "default_args\<lparr>sa_type := ''float-diff''\<rparr>" "''inf''" "''inf''"]
    by (auto simp: default_scoring_def p)
qed

end
