(* ===== verification/Cpuset.thy ===== *)
theory Cpuset
  imports Streams
begin

text \<open>
  \<open>src/cpuset.cpp\<close>: the parser of CPU lists such as \<open>0,4-7,8-14:2\<close>. A pointer into the argument is
  the text from there on, a null pointer \<open>None\<close>; pointers are compared by the length of that text.
  Proved: the marking of a range ends, and a printed list of ranges is read back.
\<close>

section \<open>Tokens\<close>

fun nexttoken :: "string option \<Rightarrow> char \<Rightarrow> string option" where
  "nexttoken None sep = None"
| "nexttoken (Some s) sep = (case dropWhile (\<lambda>c. c \<noteq> sep) s of [] \<Rightarrow> None | _ # r \<Rightarrow> Some r)"

text \<open>\<open>strtoul\<close> fails beyond \<open>unsigned long\<close>; the result is cut to \<open>unsigned int\<close>.\<close>

definition nextnumber :: "string option \<Rightarrow> (string \<times> nat) option" where
  "nextnumber str =
     (case str of
        None \<Rightarrow> None
      | Some s \<Rightarrow>
          if s = [] \<or> \<not> isdigit (hd s) then None
          else let v = parse_nat (takeWhile isdigit s)
               in if 2 ^ 64 \<le> v then None else Some (dropWhile isdigit s, v mod 2 ^ 32))"

definition before :: "string option \<Rightarrow> string option \<Rightarrow> bool" where
  "before c1 c2 \<longleftrightarrow>
     (case c1 of None \<Rightarrow> False | Some x \<Rightarrow> (case c2 of None \<Rightarrow> True | Some y \<Rightarrow> length y < length x))"

section \<open>Parsing\<close>

text \<open>One element of the list: where it ends, and the range with its stride.\<close>

definition parse_range :: "string \<Rightarrow> (string \<times> nat \<times> nat \<times> nat) option" where
  "parse_range p =
     (case nextnumber (Some p) of
        None \<Rightarrow> None
      | Some (e, a) \<Rightarrow>
          let c1 = nexttoken (Some e) CHR ''-''; c2 = nexttoken (Some e) CHR '',''
          in if before c1 c2 then
               (case nextnumber c1 of
                  None \<Rightarrow> None
                | Some (e, b) \<Rightarrow>
                    let c1 = (if e \<noteq> [] then nexttoken (Some e) CHR '':'' else None)
                    in if before c1 c2 then
                         (case nextnumber c1 of
                            None \<Rightarrow> None
                          | Some (e, s) \<Rightarrow> if s = 0 then None else Some (e, a, b, s))
                       else Some (e, a, b, 1))
             else Some (e, a, a, 1))"

text \<open>\<open>CPU_SET\<close> on a \<open>cpu_set_t\<close>, which has no bit beyond \<open>CPU_SETSIZE\<close>.\<close>

definition kCpuSetSize :: nat where "kCpuSetSize = 1024"

definition CPU_SET :: "nat \<Rightarrow> nat set \<Rightarrow> nat set" where
  "CPU_SET cpu cs = (if cpu < kCpuSetSize then insert cpu cs else cs)"

lemma CPU_SET_Un: "CPU_SET a cs = cs \<union> ({a} \<inter> {..<kCpuSetSize})"
  by (simp add: CPU_SET_def)

text \<open>The marking loop, in \<open>unsigned int\<close>: adding the stride can wrap around.\<close>

partial_function (option) mark :: "nat \<Rightarrow> nat \<Rightarrow> nat \<Rightarrow> nat \<Rightarrow> nat set \<Rightarrow> nat set option" where
  "mark ncpu a b s cs =
     (if a \<le> b \<and> a < ncpu then mark ncpu ((a + s) mod 2 ^ 32) b s (CPU_SET a cs) else Some cs)"

lemma nexttoken_shorter: "nexttoken (Some q) sep = Some r \<Longrightarrow> length r < length q"
  using length_dropWhile_le [of "\<lambda>c. c \<noteq> sep" q] by (auto split: list.splits)

text \<open>\<open>end\<close> is where the last number ended. The result is the returned flag with the set.\<close>

function parse_list :: "nat \<Rightarrow> string option \<Rightarrow> string option \<Rightarrow> nat set \<Rightarrow> (bool \<times> nat set) option" where
  "parse_list ncpu q end_ptr cs =
     (case q of
        None \<Rightarrow> Some (case end_ptr of None \<Rightarrow> True | Some e \<Rightarrow> e = [], cs)
      | Some p \<Rightarrow>
          (case parse_range p of
             None \<Rightarrow> Some (False, cs)
           | Some (e, a, b, s) \<Rightarrow>
               if \<not> a \<le> b then Some (False, cs)
               else Option.bind (mark ncpu a b s cs) (\<lambda>cs. parse_list ncpu (nexttoken q CHR '','') (Some e) cs)))"
  by pat_completeness auto

termination
  by (relation "measure (\<lambda>(n, q, e, cs). case q of None \<Rightarrow> 0 | Some p \<Rightarrow> Suc (length p))")
    (auto simp del: nexttoken.simps dest: nexttoken_shorter split: option.splits)

declare parse_list.simps [simp del]

definition CpusetParse :: "string \<Rightarrow> nat \<Rightarrow> (bool \<times> nat set) option" where
  "CpusetParse str ncpu =
     (if str = ''all'' then Some (True, {0 ..< min ncpu kCpuSetSize})
      else if str = ''none'' then Some (True, {})
      else parse_list ncpu (Some str) None {})"

section \<open>The marking loop ends\<close>

lemma mark_stop: "\<not> (a \<le> b \<and> a < ncpu) \<Longrightarrow> mark ncpu a b s cs = Some cs"
  by (subst mark.simps) (rule if_not_P)

lemma mark_step:
  "a \<le> b \<and> a < ncpu \<Longrightarrow> mark ncpu a b s cs = mark ncpu ((a + s) mod 2 ^ 32) b s (CPU_SET a cs)"
  by (subst mark.simps) (rule if_P)

lemma mark_ends:
  assumes "ncpu \<le> 2 ^ 31" "0 < s" "s < 2 ^ 32"
  shows "\<exists>cs'. mark ncpu a b s cs = Some cs'"
proof (cases "s \<le> 2 ^ 31")
  case True
  show ?thesis
  proof (induction "ncpu - a" arbitrary: a cs rule: less_induct)
    case less
    show ?case
    proof (cases "a \<le> b \<and> a < ncpu")
      case True
      have "a + s < 2 ^ 32" using \<open>s \<le> 2 ^ 31\<close> True assms(1) by simp
      then have "(a + s) mod 2 ^ 32 = a + s" by simp
      moreover have "ncpu - (a + s) < ncpu - a" using True assms(2) by (intro diff_less_mono2) simp_all
      ultimately show ?thesis using less [of "a + s"] mark_step [OF True] by metis
    next
      case False
      then show ?thesis using mark_stop by blast
    qed
  qed
next
  case False
  show ?thesis
  proof (induction a arbitrary: cs rule: less_induct)
    case (less a)
    show ?case
    proof (cases "a \<le> b \<and> a < ncpu")
      case True
      show ?thesis
      proof (cases "a + s < 2 ^ 32")
        case True
        then have "(a + s) mod 2 ^ 32 = a + s" "\<not> a + s < ncpu" using assms(1) False by simp_all
        then show ?thesis using mark_step [OF \<open>a \<le> b \<and> a < ncpu\<close>] mark_stop [of "a + s" b ncpu] by metis
      next
        case wrap: False
        then have "(a + s) mod 2 ^ 32 = (a + s - 2 ^ 32) mod 2 ^ 32" by (simp add: le_mod_geq)
        moreover have "a + s < 2 ^ 32 + 2 ^ 32" using True assms by simp
        then have "a + s - 2 ^ 32 < 2 ^ 32" using wrap by linarith
        ultimately have "(a + s) mod 2 ^ 32 = a + s - 2 ^ 32" by simp
        then have "(a + s) mod 2 ^ 32 < a" using wrap assms(3) by simp
        from less [OF this] show ?thesis using mark_step [OF True] by metis
      qed
    next
      case stop: False
      then show ?thesis using mark_stop by blast
    qed
  qed
qed

lemma mark_range:
  assumes "ncpu \<le> 2 ^ 31" "0 < s" "b + s < 2 ^ 32"
  shows "mark ncpu a b s cs = Some (cs \<union> ({x. a \<le> x \<and> x \<le> b \<and> x < ncpu \<and> s dvd x - a} \<inter> {..<kCpuSetSize}))"
proof (induction "Suc b - a" arbitrary: a cs rule: less_induct)
  case less
  show ?case
  proof (cases "a \<le> b \<and> a < ncpu")
    case True
    have "(a + s) mod 2 ^ 32 = a + s" using True assms(3) by simp
    moreover have "Suc b - (a + s) < Suc b - a" using True assms(2) by (intro diff_less_mono2) simp_all
    moreover have "insert a {x. a + s \<le> x \<and> x \<le> b \<and> x < ncpu \<and> s dvd x - (a + s)} =
        {x. a \<le> x \<and> x \<le> b \<and> x < ncpu \<and> s dvd x - a}" (is "?L = ?R")
    proof
      show "?L \<subseteq> ?R"
      proof
        fix x assume "x \<in> ?L"
        then consider "x = a" | "x - a = (x - (a + s)) + s" "s dvd x - (a + s)" "a + s \<le> x" "x \<le> b" "x < ncpu" by auto
        then show "x \<in> ?R"
        proof cases
          case 2
          then have "s dvd x - a" by (simp only: dvd_add dvd_refl)
          with 2 show ?thesis by auto
        qed (use True in simp)
      qed
      show "?R \<subseteq> ?L"
      proof
        fix x assume x: "x \<in> ?R"
        show "x \<in> ?L"
        proof (cases "x = a")
          case False
          then have "0 < x - a" "s dvd x - a" using x by auto
          then have "s \<le> x - a" by (simp add: dvd_imp_le)
          then have "a + s \<le> x" "x - (a + s) = (x - a) - s" using x by auto
          moreover have "s dvd (x - a) - s" using \<open>s dvd x - a\<close> by (rule dvd_diff_nat) (rule dvd_refl)
          ultimately show ?thesis using x by simp
        qed simp
      qed
    qed
    ultimately show ?thesis
      using less [of "a + s" "CPU_SET a cs"] mark_step [OF True, of s cs] by (auto simp: CPU_SET_Un)
  next
    case False
    then have "{x. a \<le> x \<and> x \<le> b \<and> x < ncpu \<and> s dvd x - a} = {}" by auto
    then show ?thesis by (simp only: mark_stop [OF False] Int_empty_left Un_empty_right)
  qed
qed

section \<open>Reading back a printed list\<close>

fun print_range :: "nat \<times> nat \<times> nat \<Rightarrow> string" where
  "print_range (a, b, s) =
     nat_to_string a @
     (if a = b \<and> s = 1 then [] else CHR ''-'' # nat_to_string b @ (if s = 1 then [] else CHR '':'' # nat_to_string s))"

fun print_ranges :: "(nat \<times> nat \<times> nat) list \<Rightarrow> string" where
  "print_ranges [] = []"
| "print_ranges [r] = print_range r"
| "print_ranges (r # rs) = print_range r @ CHR '','' # print_ranges rs"

fun range_ok :: "nat \<times> nat \<times> nat \<Rightarrow> bool" where
  "range_ok (a, b, s) \<longleftrightarrow> a \<le> b \<and> 0 < s \<and> b + s < 2 ^ 32"

fun range_cpus :: "nat \<Rightarrow> nat \<times> nat \<times> nat \<Rightarrow> nat set" where
  "range_cpus ncpu (a, b, s) = {x. a \<le> x \<and> x \<le> b \<and> x < ncpu \<and> s dvd x - a} \<inter> {..<kCpuSetSize}"

text \<open>What may follow an element.\<close>

definition element_end :: "string \<Rightarrow> bool" where
  "element_end rest \<longleftrightarrow> rest = [] \<or> (\<exists>r. rest = CHR '','' # r)"

lemma nextnumber_printed:
  assumes "n < 2 ^ 32" "rest = [] \<or> \<not> isdigit (hd rest)"
  shows "nextnumber (Some (nat_to_string n @ rest)) = Some (rest, n)"
proof -
  have d: "\<forall>c \<in> set (nat_to_string n). isdigit c" using nat_to_string_digits by blast
  obtain c cs where c: "nat_to_string n = c # cs" using nat_to_string_nonempty by (cases "nat_to_string n") auto
  have "takeWhile isdigit (nat_to_string n @ rest) = nat_to_string n" "dropWhile isdigit (nat_to_string n @ rest) = rest"
    using takeWhile_digits [OF d assms(2)] by simp_all
  moreover have "\<not> (nat_to_string n @ rest = [] \<or> \<not> isdigit (hd (nat_to_string n @ rest)))" using c d by simp
  ultimately show ?thesis using assms(1) by (simp add: nextnumber_def Let_def)
qed

lemma nexttoken_skip:
  "\<forall>c \<in> set xs. c \<noteq> sep \<Longrightarrow> nexttoken (Some (xs @ ys)) sep = nexttoken (Some ys) sep"
  by (simp add: dropWhile_append2)

lemma nexttoken_shorter_than: "nexttoken (Some s) sep = None \<or> (\<exists>r. nexttoken (Some s) sep = Some r \<and> length r < length s)"
  using nexttoken_shorter [of s sep] by (cases "nexttoken (Some s) sep") auto

lemma not_before: "element_end rest \<Longrightarrow> sep \<noteq> CHR '','' \<Longrightarrow>
  \<not> before (nexttoken (Some rest) sep) (nexttoken (Some rest) CHR '','')"
proof -
  assume e: "element_end rest" and sep: "sep \<noteq> CHR '',''"
  show ?thesis
  proof (cases rest)
    case Nil
    then show ?thesis by (simp add: before_def)
  next
    case (Cons c r)
    then have "rest = CHR '','' # r" using e by (auto simp: element_end_def)
    then have "nexttoken (Some rest) sep = nexttoken (Some r) sep" "nexttoken (Some rest) CHR '','' = Some r"
      using sep by auto
    then show ?thesis using nexttoken_shorter_than [of r sep] by (auto simp: before_def)
  qed
qed

lemma digits_not: "c \<in> set (nat_to_string n) \<Longrightarrow> c \<noteq> CHR '','' \<and> c \<noteq> CHR ''-'' \<and> c \<noteq> CHR '':''"
  using nat_to_string_digits [of c n] by (auto simp: isdigit_def)

lemma before_comma:
  assumes "element_end rest" "CHR '','' \<notin> set xs"
  shows "before (Some (xs @ rest)) (nexttoken (Some (xs @ rest)) CHR '','')"
proof -
  have "nexttoken (Some (xs @ rest)) CHR '','' = nexttoken (Some rest) CHR '',''"
    by (rule nexttoken_skip) (use assms(2) in auto)
  then show ?thesis using nexttoken_shorter_than [of rest "CHR '',''"] by (auto simp: before_def)
qed

lemma parse_printed_range:
  assumes "range_ok (a, b, s)" "element_end rest"
  shows "parse_range (print_range (a, b, s) @ rest) = Some (rest, a, b, s)"
proof -
  have r: "rest = [] \<or> \<not> isdigit (hd rest)" using assms(2) by (auto simp: element_end_def isdigit_def)
  have ab: "a < 2 ^ 32" "b < 2 ^ 32" "s < 2 ^ 32" "0 < s" using assms(1) by auto
  have sep: "\<not> isdigit CHR ''-''" "\<not> isdigit CHR '':''" by (simp_all add: isdigit_def)
  show ?thesis
  proof (cases "a = b \<and> s = 1")
    case True
    then show ?thesis
      using nextnumber_printed [OF ab(1) r] not_before [OF assms(2), of "CHR ''-''"] by (simp add: parse_range_def Let_def)
  next
    case False
    define t where "t = (if s = 1 then [] else CHR '':'' # nat_to_string s)"
    define x where "x = (nat_to_string b @ t) @ rest"
    define e where "e = CHR ''-'' # x"
    define c2 where "c2 = nexttoken (Some rest) CHR '',''"
    have p: "print_range (a, b, s) @ rest = nat_to_string a @ e" using False by (simp add: e_def x_def t_def)
    have n1: "nextnumber (Some (nat_to_string a @ e)) = Some (e, a)"
      by (rule nextnumber_printed [OF ab(1)]) (simp add: e_def sep)
    have c1: "nexttoken (Some e) CHR ''-'' = Some x" by (simp add: e_def)
    have nc: "CHR '','' \<notin> set (nat_to_string b @ t)" using digits_not by (auto simp: t_def)
    have nd: "\<forall>c \<in> set (nat_to_string b @ t). c \<noteq> CHR '',''" using nc by metis
    have c2: "nexttoken (Some e) CHR '','' = c2"
      using nexttoken_skip [OF nd, of rest] by (simp add: e_def x_def c2_def)
    have b1: "before (Some x) c2"
      using before_comma [OF assms(2) nc] unfolding nexttoken_skip [OF nd] x_def c2_def .
    have "t @ rest = [] \<or> \<not> isdigit (hd (t @ rest))" using r sep by (auto simp: t_def)
    from nextnumber_printed [OF ab(2) this] have n2: "nextnumber (Some x) = Some (t @ rest, b)"
      by (simp add: x_def)
    note steps = p parse_range_def n1 option.case prod.case Let_def c1 c2 if_True n2
    show ?thesis
    proof (cases "s = 1")
      case True
      then have y: "t @ rest = rest" by (simp add: t_def)
      have nb: "\<not> before (if rest \<noteq> [] then nexttoken (Some rest) CHR '':'' else None) c2"
        using not_before [OF assms(2), of "CHR '':''"] by (simp add: c2_def before_def del: nexttoken.simps)
      show ?thesis unfolding steps if_P [OF b1] y if_not_P [OF nb] using True by simp
    next
      case ns: False
      have y: "t @ rest \<noteq> []" "nexttoken (Some (t @ rest)) CHR '':'' = Some (nat_to_string s @ rest)"
        using ns by (simp_all add: t_def)
      have nd: "\<forall>c \<in> set (nat_to_string s). c \<noteq> CHR '',''" using digits_not by blast
      then have "before (Some (nat_to_string s @ rest)) (nexttoken (Some (nat_to_string s @ rest)) CHR '','')"
        by (intro before_comma [OF assms(2)]) blast
      then have b2: "before (Some (nat_to_string s @ rest)) c2" unfolding nexttoken_skip [OF nd] c2_def .
      have n3: "nextnumber (Some (nat_to_string s @ rest)) = Some (rest, s)" by (rule nextnumber_printed [OF ab(3) r])
      show ?thesis unfolding steps if_P [OF b1] if_P [OF y(1)] y(2) if_P [OF b2] n3 using ab(4) by simp
    qed
  qed
qed

lemma print_range_no_comma: "CHR '','' \<notin> set (print_range r)"
  using digits_not by (cases r) auto

lemma parse_list_printed:
  "rs \<noteq> [] \<Longrightarrow> list_all range_ok rs \<Longrightarrow> ncpu \<le> 2 ^ 31 \<Longrightarrow>
   parse_list ncpu (Some (print_ranges rs)) end_ptr cs = Some (True, cs \<union> (\<Union>r \<in> set rs. range_cpus ncpu r))"
proof (induction rs arbitrary: end_ptr cs rule: print_ranges.induct)
  case (2 r)
  obtain a b s where r: "r = (a, b, s)" by (cases r) auto
  have "parse_range (print_range r @ []) = Some ([], a, b, s)"
    unfolding r by (rule parse_printed_range) (use 2 r in \<open>simp_all add: element_end_def\<close>)
  then have "parse_range (print_range r) = Some ([], a, b, s)" by simp
  moreover have "nexttoken (Some (print_range r)) CHR '','' = None"
  proof -
    have "dropWhile (\<lambda>c. c \<noteq> CHR '','') (print_range r) = []"
      unfolding dropWhile_eq_Nil_conv using print_range_no_comma [of r] by metis
    then show ?thesis by (simp del: dropWhile_eq_Nil_conv)
  qed
  moreover have "mark ncpu a b s cs = Some (cs \<union> range_cpus ncpu r)"
    using mark_range [of ncpu s b a cs] 2 r by simp
  ultimately show ?case
    using 2 r by (subst parse_list.simps) (simp add: parse_list.simps [of _ None] del: nexttoken.simps print_range.simps)
next
  case (3 r r' rs)
  obtain a b s where r: "r = (a, b, s)" by (cases r) auto
  let ?rest = "CHR '','' # print_ranges (r' # rs)"
  have "parse_range (print_range r @ ?rest) = Some (?rest, a, b, s)"
    unfolding r by (rule parse_printed_range) (use 3 r in \<open>simp_all add: element_end_def\<close>)
  moreover have "nexttoken (Some (print_range r @ ?rest)) CHR '','' = Some (print_ranges (r' # rs))"
  proof -
    have "\<forall>c \<in> set (print_range r). c \<noteq> CHR '',''" using print_range_no_comma [of r] by metis
    from nexttoken_skip [OF this, of ?rest] show ?thesis by (simp del: print_range.simps)
  qed
  moreover have "mark ncpu a b s cs = Some (cs \<union> range_cpus ncpu r)"
    using mark_range [of ncpu s b a cs] 3 r by simp
  moreover have "parse_list ncpu (Some (print_ranges (r' # rs))) (Some ?rest) (cs \<union> range_cpus ncpu r) =
      Some (True, cs \<union> range_cpus ncpu r \<union> (\<Union>r \<in> set (r' # rs). range_cpus ncpu r))"
    by (rule 3) (use 3 in simp_all)
  ultimately show ?case
    using 3 r by (subst parse_list.simps)
      (simp add: Un_assoc del: nexttoken.simps print_range.simps range_cpus.simps)
qed simp

lemma nextnumber_small: "nextnumber c = Some (e, n) \<Longrightarrow> n < 2 ^ 32"
  by (auto simp: nextnumber_def Let_def split: option.splits if_splits)

lemma parse_range_stride: "parse_range p = Some (e, a, b, s) \<Longrightarrow> 0 < s \<and> s < 2 ^ 32"
  by (auto simp: parse_range_def Let_def dest!: nextnumber_small split: option.splits if_splits)

lemma parse_list_ends: "ncpu \<le> 2 ^ 31 \<Longrightarrow> \<exists>r. parse_list ncpu q end_ptr cs = Some r"
proof (induction ncpu q end_ptr cs rule: parse_list.induct)
  case (1 ncpu q end_ptr cs)
  show ?case
  proof (cases q)
    case None
    then show ?thesis by (simp add: parse_list.simps)
  next
    case q: (Some p)
    show ?thesis
    proof (cases "parse_range p")
      case None
      then show ?thesis using q by (subst parse_list.simps) auto
    next
      case (Some x)
      then obtain e a b s where x: "parse_range p = Some (e, a, b, s)" by (cases x) auto
      obtain cs' where m: "mark ncpu a b s cs = Some cs'"
        using mark_ends [OF 1(2)] parse_range_stride [OF x] by blast
      show ?thesis
      proof (cases "a \<le> b")
        case True
        have "\<exists>r. parse_list ncpu (nexttoken q CHR '','') (Some e) cs' = Some r"
          by (rule 1(1) [OF q x refl refl refl]) (use True 1(2) m in simp_all)
        then show ?thesis by (subst parse_list.simps) (simp add: q x m True del: nexttoken.simps)
      next
        case False
        then show ?thesis by (subst parse_list.simps) (auto simp: q x)
      qed
    qed
  qed
qed

section \<open>Properties\<close>

text \<open>
  C20: A list of ranges printed as \<open>a\<close>, \<open>a-b\<close> or \<open>a-b:s\<close>, separated by commas, is accepted and read as
  exactly the CPUs of the ranges below \<open>ncpu\<close> and \<open>CPU_SETSIZE\<close>, if no range reaches the end of \<open>unsigned int\<close>.
\<close>

theorem cpuset_roundtrip:
  assumes "rs \<noteq> []" "list_all range_ok rs" "ncpu \<le> 2 ^ 31"
  shows "CpusetParse (print_ranges rs) ncpu = Some (True, \<Union>r \<in> set rs. range_cpus ncpu r)"
proof -
  obtain a b s rs' where rs: "rs = (a, b, s) # rs'" using assms(1) by (cases rs) auto
  obtain c cs where c: "nat_to_string a = c # cs" using nat_to_string_nonempty by (cases "nat_to_string a") auto
  have "isdigit c" using nat_to_string_digits [of c a] c by simp
  moreover have "\<exists>t. print_ranges rs = c # t" using c rs by (cases rs') auto
  ultimately have "print_ranges rs \<noteq> ''all''" "print_ranges rs \<noteq> ''none''" by (auto simp: isdigit_def)
  then show ?thesis
    using parse_list_printed [OF assms, of None "{}"] by (simp add: CpusetParse_def)
qed

theorem cpuset_roundtrip_witness:
  "CpusetParse (print_ranges [(0, 0, 1), (4, 7, 1), (8, 14, 2)]) 12 =
     Some (True, \<Union>r \<in> set [(0, 0, 1), (4, 7, 1), (8, 14, 2)]. range_cpus 12 r)"
  by (rule cpuset_roundtrip) simp_all

text \<open>
  C22: The parser returns on every argument: the stride is never zero, and although adding it wraps
  around in \<open>unsigned int\<close>, the marking of a range always leaves the CPUs below \<open>ncpu\<close>.
\<close>

theorem cpuset_ends:
  assumes "ncpu \<le> 2 ^ 31"
  shows "\<exists>r. CpusetParse str ncpu = Some r"
  using parse_list_ends [OF assms] by (auto simp: CpusetParse_def)

theorem cpuset_ends_witness: "\<exists>r. CpusetParse ''5-4294967295:4294967295'' 64 = Some r"
  by (rule cpuset_ends) simp

end
