(* ===== verification/Base64.thy ===== *)
theory Base64
  imports Bytes
begin

text \<open>
  The source of a submission arrives in base64: \<open>Base64CharToValue\<close> and \<open>OutputBase64\<close> of
  \<open>src/server_io.cpp\<close>, against the encodings of RFC 4648. What is proved: the standard and the URL
  alphabet, with padding or without, are decoded to the bytes that were encoded.
\<close>

unbundle bit_operations_syntax

section \<open>The decoder\<close>

text \<open>An \<open>unsigned char\<close> is an \<open>8 word\<close>; the arithmetic is that of \<open>int\<close>, cut to eight bits in the end.\<close>

definition Base64CharToValue :: "8 word \<Rightarrow> 8 word" where
  "Base64CharToValue chr =
     (if 65 \<le> chr \<and> chr \<le> 90 then chr - 65
      else if 97 \<le> chr \<and> chr \<le> 122 then chr - 97 + (90 - 65) + 1
      else if 48 \<le> chr \<and> chr \<le> 57 then chr - 48 + (90 - 65) + (122 - 97) + 2
      else if chr = 43 \<or> chr = 45 then 62
      else if chr = 47 \<or> chr = 95 then 63
      else 0)"

definition byte0 :: "8 word \<Rightarrow> 8 word \<Rightarrow> 8 word" where
  "byte0 v0 v1 = word_of_int (push_bit 2 (uint v0) OR drop_bit 4 (uint v1 AND 0x30))"

definition byte1 :: "8 word \<Rightarrow> 8 word \<Rightarrow> 8 word" where
  "byte1 v1 v2 = word_of_int (push_bit 4 (uint v1 AND 0x0f) OR drop_bit 2 (uint v2 AND 0x3c))"

definition byte2 :: "8 word \<Rightarrow> 8 word \<Rightarrow> 8 word" where
  "byte2 v2 v3 = word_of_int (push_bit 6 (uint v2 AND 0x03) OR uint v3)"

text \<open>The last at most four characters, behind the loop; \<open>61\<close> is the padding character.\<close>

definition OutputBase64_tail :: "bytes \<Rightarrow> bytes" where
  "OutputBase64_tail str =
     (let v = map Base64CharToValue str
      in if length str \<le> 1 \<or> str ! 1 = 61 then []
         else byte0 (v ! 0) (v ! 1) #
           (if length str \<le> 2 \<or> str ! 2 = 61 then []
            else byte1 (v ! 1) (v ! 2) #
              (if length str \<le> 3 \<or> str ! 3 = 61 then []
               else [byte2 (v ! 2) (v ! 3)])))"

text \<open>The loop runs while more than four characters are left.\<close>

fun OutputBase64 :: "bytes \<Rightarrow> bytes" where
  "OutputBase64 (c0 # c1 # c2 # c3 # c4 # cs) =
     (let v0 = Base64CharToValue c0; v1 = Base64CharToValue c1;
          v2 = Base64CharToValue c2; v3 = Base64CharToValue c3
      in byte0 v0 v1 # byte1 v1 v2 # byte2 v2 v3 # OutputBase64 (c4 # cs))"
| "OutputBase64 str = OutputBase64_tail str"

section \<open>The encodings\<close>

text \<open>
  The character of a value below 64: the capital letters, the small letters, the digits, and the last
  two of the standard alphabet or of the one for URLs.
\<close>

definition enc_char :: "bool \<Rightarrow> 8 word \<Rightarrow> 8 word" where
  "enc_char url v =
     (if v < 26 then v + 65 else if v < 52 then v - 26 + 97 else if v < 62 then v - 52 + 48
      else if v = 62 then (if url then 45 else 43) else (if url then 95 else 47))"

definition six0 :: "8 word \<Rightarrow> 8 word" where "six0 a = drop_bit 2 a"
definition six1 :: "8 word \<Rightarrow> 8 word \<Rightarrow> 8 word" where "six1 a b = push_bit 4 (a AND 3) OR drop_bit 4 b"
definition six2 :: "8 word \<Rightarrow> 8 word \<Rightarrow> 8 word" where "six2 b c = push_bit 2 (b AND 15) OR drop_bit 6 c"
definition six3 :: "8 word \<Rightarrow> 8 word" where "six3 c = c AND 63"

fun encode64 :: "bool \<Rightarrow> bool \<Rightarrow> bytes \<Rightarrow> bytes" where
  "encode64 url pad [] = []"
| "encode64 url pad [a] =
     map (enc_char url) [six0 a, six1 a 0] @ (if pad then [61, 61] else [])"
| "encode64 url pad [a, b] =
     map (enc_char url) [six0 a, six1 a b, six2 b 0] @ (if pad then [61] else [])"
| "encode64 url pad (a # b # c # bs) =
     map (enc_char url) [six0 a, six1 a b, six2 b c, six3 c] @ encode64 url pad bs"

lemma below_64: "(v :: 8 word) < 64 \<longleftrightarrow> unat v < 64"
  by (simp add: word_less_nat_alt)

lemma value_enc_char:
  assumes "v < 64"
  shows "Base64CharToValue (enc_char url v) = v \<and> enc_char url v \<noteq> 61"
proof -
  have "\<forall>i \<in> set [0 ..< 64]. Base64CharToValue (enc_char url (word_of_nat i)) = word_of_nat i \<and>
      enc_char url (word_of_nat i) \<noteq> 61"
    by (simp add: upt_rec [of _ "numeral n" for n] enc_char_def Base64CharToValue_def)
  moreover have "unat v \<in> set [0 ..< 64]" using assms by (simp add: below_64)
  ultimately show ?thesis by fastforce
qed

lemma byte_eqI:
  assumes "bit a 0 = bit b 0" "bit a 1 = bit b 1" "bit a 2 = bit b 2" "bit a 3 = bit b 3"
    "bit a 4 = bit b 4" "bit a 5 = bit b 5" "bit a 6 = bit b 6" "bit a 7 = bit b 7"
  shows "(a :: 8 word) = b"
proof (rule bit_word_eqI)
  fix n assume "n < LENGTH(8)"
  then have "n \<in> {0, 1, 2, 3, 4, 5, 6, 7}" by auto
  then show "bit a n = bit b n" using assms by auto
qed

lemma no_bit_high: "8 \<le> n \<Longrightarrow> \<not> bit (a :: 8 word) n"
  by (auto dest: bit_imp_le_length)

lemma bytes_of_six:
  "byte0 (six0 a) (six1 a b) = a" "byte1 (six1 a b) (six2 b c) = b" "byte2 (six2 b c) (six3 c) = c"
  unfolding byte0_def byte1_def byte2_def six0_def six1_def six2_def six3_def
  by (rule byte_eqI; simp add: bit_simps no_bit_high)+

lemma six_below: "six0 a < 64" "six1 a b < 64" "six2 b c < 64" "six3 c < 64"
proof -
  have m: "v < 64" if "\<not> bit v 6" "\<not> bit v 7" for v :: "8 word"
  proof -
    have "v = v AND 63" by (rule byte_eqI; simp add: bit_simps that)
    also have "\<dots> < 64" using word_and_le1 [of v 63] by (rule le_less_trans) simp
    finally show ?thesis .
  qed
  show "six0 a < 64" "six1 a b < 64" "six2 b c < 64" "six3 c < 64"
    unfolding six0_def six1_def six2_def six3_def by (rule m; simp add: bit_simps no_bit_high)+
qed

lemmas six_chars = six_below [THEN value_enc_char]

lemma OutputBase64_four:
  "OutputBase64 (c0 # c1 # c2 # c3 # cs) =
     (if cs = [] then OutputBase64_tail [c0, c1, c2, c3]
      else byte0 (Base64CharToValue c0) (Base64CharToValue c1) #
           byte1 (Base64CharToValue c1) (Base64CharToValue c2) #
           byte2 (Base64CharToValue c2) (Base64CharToValue c3) # OutputBase64 cs)"
  by (cases cs) (simp_all add: Let_def)

lemma encode64_Nil: "encode64 url pad bs = [] \<longleftrightarrow> bs = []"
  by (induction url pad bs rule: encode64.induct) auto

section \<open>Decoding what was encoded\<close>

text \<open>
  C15: A source encoded in base64, in the standard alphabet or the one for URLs, with or without padding, is
  decoded to the bytes that were encoded.
\<close>

theorem base64_roundtrip: "OutputBase64 (encode64 url pad bs) = bs"
proof (induction url pad bs rule: encode64.induct)
  case (4 url pad a b c bs)
  then show ?case
    by (auto simp: OutputBase64_four OutputBase64_tail_def six_chars bytes_of_six encode64_Nil Let_def)
qed (auto simp: OutputBase64_tail_def six_chars bytes_of_six OutputBase64_four)

end
