(* ===== verification/TdCache.thy ===== *)
theory TdCache
  imports Boxes
begin

text \<open>
  The local copy of the testdata: the pool of downloaded files, the links of a problem into the pool, and
  the table of \<open>src/database.h\<close>; how \<open>DealOneSubmission\<close> of \<open>src/server_io.cpp\<close> compares the testdata of
  a submission with the table and brings files, links and table up to date. What is proved: after a
  successful update every link of the problem leads to the version the submission names.
\<close>

section \<open>Paths of the pool\<close>

text \<open>\<open>fmt::format("{:0wd}", x)\<close>: the zeros go behind the sign.\<close>

definition FmtInt :: "int \<Rightarrow> nat \<Rightarrow> string" where
  "FmtInt x w = (if x < 0 then ''-'' @ PadInt (- x) (w - 1) else PadInt x w)"

definition TdPool :: "Config \<Rightarrow> path" where
  "TdPool cfg = path_div (kTestdataRoot cfg) ''td-pool''"

text \<open>\<open>id / 100\<close> rounds towards zero.\<close>

definition TdPoolDir :: "Config \<Rightarrow> int \<Rightarrow> path" where
  "TdPoolDir cfg tdid = path_div (TdPool cfg) (FmtInt (if tdid < 0 then - ((- tdid) div 100) else tdid div 100) 4)"

definition TdPoolPath :: "Config \<Rightarrow> int \<Rightarrow> bool \<Rightarrow> bool \<Rightarrow> path" where
  "TdPoolPath cfg tdid is_input is_temp =
     path_div (TdPoolDir cfg tdid)
       (FmtInt tdid 6 @ ''.'' @ (if is_input then ''in'' else ''out'') @ (if is_temp then ''.tmp'' else ''''))"

lemma TdPoolPath_eq:
  assumes "0 \<le> tdid"
  shows "TdPoolPath cfg tdid b t = root_sep (kTestdataRoot cfg) @ ''td-pool/'' @ PadInt (tdid div 100) 4 @ ''/'' @
    PadInt tdid 6 @ ''.'' @ (if b then ''in'' else ''out'') @ (if t then ''.tmp'' else '''')"
proof -
  let ?d = "PadInt (tdid div 100) 4" and ?n = "PadInt tdid 6 @ ''.'' @ (if b then ''in'' else ''out'') @ (if t then ''.tmp'' else '''')"
  have d: "?d \<noteq> []" "CHR ''/'' \<notin> set ?d" using assms by (simp_all add: PadInt_nonempty PadInt_no_slash)
  have n: "CHR ''/'' \<notin> set ?n" using assms by (simp add: PadInt_no_slash)
  have "TdPool cfg = root_sep (kTestdataRoot cfg) @ ''td-pool''"
    unfolding TdPool_def by (rule path_div_relative) simp
  then have "root_sep (TdPool cfg) = root_sep (kTestdataRoot cfg) @ ''td-pool/''"
    using root_sep_nonslash [of "''td-pool''" "root_sep (kTestdataRoot cfg)"] by simp
  then have "TdPoolDir cfg tdid = root_sep (kTestdataRoot cfg) @ ''td-pool/'' @ ?d"
    using path_div_relative [OF no_slash_head [OF d(2)], of "TdPool cfg"] assms
    by (simp add: TdPoolDir_def FmtInt_def pos_imp_zdiv_neg_iff)
  then have "root_sep (TdPoolDir cfg tdid) = root_sep (kTestdataRoot cfg) @ ''td-pool/'' @ ?d @ ''/''"
    using root_sep_nonslash [OF d, of "root_sep (kTestdataRoot cfg) @ ''td-pool/''"] by simp
  then show ?thesis
    using path_div_relative [OF no_slash_head [OF n], of "TdPoolDir cfg tdid"] assms
    by (simp add: TdPoolPath_def FmtInt_def)
qed

lemma td_link_eq:
  assumes "0 \<le> prob" "0 \<le> i" "CHR ''/'' \<notin> set s"
  shows "path_div (TdPath cfg prob) (s @ PadInt i 3) =
    root_sep (kTestdataRoot cfg) @ ''testdata/'' @ PadInt prob 4 @ ''/'' @ s @ PadInt i 3"
proof -
  let ?d = "PadInt prob 4" and ?n = "s @ PadInt i 3"
  have d: "?d \<noteq> []" "CHR ''/'' \<notin> set ?d" using assms by (simp_all add: PadInt_nonempty PadInt_no_slash)
  have n: "CHR ''/'' \<notin> set ?n" using assms by (simp add: PadInt_no_slash)
  have "TdRoot cfg = root_sep (kTestdataRoot cfg) @ ''testdata''"
    unfolding TdRoot_def by (rule path_div_relative) simp
  then have "root_sep (TdRoot cfg) = root_sep (kTestdataRoot cfg) @ ''testdata/''"
    using root_sep_nonslash [of "''testdata''" "root_sep (kTestdataRoot cfg)"] by simp
  then have "TdPath cfg prob = root_sep (kTestdataRoot cfg) @ ''testdata/'' @ ?d"
    using path_div_relative [OF no_slash_head [OF d(2)], of "TdRoot cfg"] by (simp add: TdPath_def)
  then have "root_sep (TdPath cfg prob) = root_sep (kTestdataRoot cfg) @ ''testdata/'' @ ?d @ ''/''"
    using root_sep_nonslash [OF d, of "root_sep (kTestdataRoot cfg) @ ''testdata/''"] by simp
  then show ?thesis using path_div_relative [OF no_slash_head [OF n], of "TdPath cfg prob"] by simp
qed

text \<open>The link of an input or an answer.\<close>

definition td_link :: "Config \<Rightarrow> int \<Rightarrow> int \<Rightarrow> bool \<Rightarrow> path" where
  "td_link cfg prob i is_input = (if is_input then TdInput cfg prob i else TdAnswer cfg prob i)"

lemma td_link_path:
  "0 \<le> prob \<Longrightarrow> 0 \<le> i \<Longrightarrow> td_link cfg prob i b =
     root_sep (kTestdataRoot cfg) @ ''testdata/'' @ PadInt prob 4 @ ''/'' @ (if b then ''input'' else ''output'') @ PadInt i 3"
  using td_link_eq [of prob i "''input''" cfg] td_link_eq [of prob i "''output''" cfg]
  by (simp add: td_link_def TdInput_def TdAnswer_def)

lemma td_link_inj:
  assumes "td_link cfg p i b = td_link cfg q j c" "0 \<le> p" "0 \<le> i" "0 \<le> q" "0 \<le> j"
  shows "p = q \<and> i = j \<and> b = c"
proof -
  from assms have "PadInt p 4 @ CHR ''/'' # (if b then ''input'' else ''output'') @ PadInt i 3 =
      PadInt q 4 @ CHR ''/'' # (if c then ''input'' else ''output'') @ PadInt j 3"
    by (simp add: td_link_path)
  then have "PadInt p 4 = PadInt q 4 \<and>
      (if b then ''input'' else ''output'') @ PadInt i 3 = (if c then ''input'' else ''output'') @ PadInt j 3"
    by (rule separator_unique) (simp_all add: PadInt_no_slash assms)
  then show ?thesis using assms by (auto dest: PadInt_inj split: if_splits)
qed

lemma pool_inj:
  assumes "TdPoolPath cfg i b t = TdPoolPath cfg j c u" "0 \<le> i" "0 \<le> j"
  shows "i = j \<and> b = c \<and> t = u"
proof -
  let ?e = "\<lambda>b t. (if b then ''in'' else ''out'') @ (if t then ''.tmp'' else '''')"
  from assms have "PadInt (i div 100) 4 @ CHR ''/'' # PadInt i 6 @ CHR ''.'' # ?e b t =
      PadInt (j div 100) 4 @ CHR ''/'' # PadInt j 6 @ CHR ''.'' # ?e c u"
    by (simp add: TdPoolPath_eq)
  then have "PadInt i 6 @ CHR ''.'' # ?e b t = PadInt j 6 @ CHR ''.'' # ?e c u"
    using separator_unique PadInt_no_slash assms(2,3) by (metis pos_imp_zdiv_nonneg_iff zero_less_numeral)
  moreover have "CHR ''.'' \<notin> set (PadInt k 6)" if "0 \<le> k" for k
    using PadInt_digits [OF that, of "CHR ''.''" 6] by (auto simp: isdigit_def)
  ultimately have "PadInt i 6 = PadInt j 6 \<and> ?e b t = ?e c u"
    using separator_unique assms(2,3) by metis
  then show ?thesis using assms by (auto dest: PadInt_inj split: if_splits)
qed

lemma pool_not_link: "0 \<le> i \<Longrightarrow> 0 \<le> p \<Longrightarrow> 0 \<le> j \<Longrightarrow> TdPoolPath cfg i b t \<noteq> td_link cfg p j c"
  by (simp add: TdPoolPath_eq td_link_path)

lemma td_paths [simp]:
  "0 \<le> p \<Longrightarrow> 0 \<le> i \<Longrightarrow> 0 \<le> q \<Longrightarrow> 0 \<le> j \<Longrightarrow> td_link cfg p i b = td_link cfg q j c \<longleftrightarrow> p = q \<and> i = j \<and> b = c"
  "0 \<le> i \<Longrightarrow> 0 \<le> j \<Longrightarrow> TdPoolPath cfg i b t = TdPoolPath cfg j c u \<longleftrightarrow> i = j \<and> b = c \<and> t = u"
  "0 \<le> i \<Longrightarrow> 0 \<le> p \<Longrightarrow> 0 \<le> j \<Longrightarrow> TdPoolPath cfg i b t \<noteq> td_link cfg p j c"
  "0 \<le> i \<Longrightarrow> 0 \<le> p \<Longrightarrow> 0 \<le> j \<Longrightarrow> td_link cfg p j c \<noteq> TdPoolPath cfg i b t"
  subgoal by (auto dest: td_link_inj)
  subgoal by (auto dest: pool_inj)
  subgoal by (rule pool_not_link)
  subgoal by (rule pool_not_link [THEN not_sym])
  done

section \<open>Files and the table\<close>

text \<open>
  A file is regular or a symbolic link. \<open>bad p\<close> says that the system refuses calls on \<open>p\<close>, for any
  reason the code does not look into. \<open>rename\<close> needs a source, \<open>create_symlink\<close> a free name; the errors
  of \<open>remove\<close> are ignored by the code. A call that can fail returns \<open>None\<close> for the error code.
\<close>

datatype node = Regular string | Symlink path

type_synonym files = "path \<Rightarrow> node option"

definition fs_rename :: "(path \<Rightarrow> bool) \<Rightarrow> path \<Rightarrow> path \<Rightarrow> files \<Rightarrow> files option" where
  "fs_rename bad p q st = (if bad p \<or> bad q \<or> st p = None then None else Some (st(p := None, q := st p)))"

definition fs_remove :: "(path \<Rightarrow> bool) \<Rightarrow> path \<Rightarrow> files \<Rightarrow> files" where
  "fs_remove bad p st = (if bad p then st else st(p := None))"

definition fs_create_symlink :: "(path \<Rightarrow> bool) \<Rightarrow> path \<Rightarrow> path \<Rightarrow> files \<Rightarrow> files option" where
  "fs_create_symlink bad p q st = (if bad q \<or> st q \<noteq> None then None else Some (st(q \<mapsto> Symlink p)))"

definition fs_write :: "(path \<Rightarrow> bool) \<Rightarrow> path \<Rightarrow> string \<Rightarrow> files \<Rightarrow> files" where
  "fs_write bad p s st = (if bad p then st else st(p \<mapsto> Regular s))"

text \<open>Reading a file through at most one link, as the judge reads its input.\<close>

definition read_file :: "path \<Rightarrow> files \<Rightarrow> string option" where
  "read_file p st =
     (case st p of
        Some (Regular s) \<Rightarrow> Some s
      | Some (Symlink q) \<Rightarrow> (case st q of Some (Regular s) \<Rightarrow> Some s | _ \<Rightarrow> None)
      | None \<Rightarrow> None)"

text \<open>
  \<open>struct Testdata\<close>, a row of the table; the identifier is the primary key. \<open>ProblemTd\<close> selects by
  problem, \<open>UpdateTd\<close> is \<open>replace_range\<close>: a row with the same key is replaced.
\<close>

record Testdata =
  row_id :: int
  row_problem :: int
  row_order :: int
  row_timestamp :: int
  row_input_compressed :: bool
  row_output_compressed :: bool

definition ProblemTd :: "int \<Rightarrow> Testdata list \<Rightarrow> Testdata list" where
  "ProblemTd prob rows = filter (\<lambda>r. row_problem r = prob) rows"

definition UpdateTd :: "Testdata list \<Rightarrow> Testdata list \<Rightarrow> Testdata list" where
  "UpdateTd td rows = fold (\<lambda>t rows. filter (\<lambda>r. row_id r \<noteq> row_id t) rows @ [t]) td rows"

section \<open>Comparing\<close>

text \<open>
  What the loop over the testdata of a submission collects; \<open>new_meta\<close> is a map that keeps the first
  entry of an identifier, here the list of its entries.
\<close>

record TdPlan =
  to_download :: "int list"
  to_update_position :: "(int \<times> int) list"
  new_meta :: "Testdata list"

definition find_row :: "int \<Rightarrow> Testdata list \<Rightarrow> Testdata option" where
  "find_row k rows = find (\<lambda>r. row_id r = k) rows"

definition compare_td :: "Testdata list \<Rightarrow> Testdata \<Rightarrow> TdPlan \<Rightarrow> TdPlan" where
  "compare_td orig_td td pl =
     (let it = find_row (row_id td) orig_td;
          stale = (case it of None \<Rightarrow> True | Some r \<Rightarrow> row_timestamp r \<noteq> row_timestamp td);
          moved = (case it of None \<Rightarrow> True | Some r \<Rightarrow> row_order r \<noteq> row_order td)
      in pl\<lparr>to_download := to_download pl @ (if stale then [row_id td] else []),
            to_update_position := to_update_position pl @ (if moved then [(row_order td, row_id td)] else []),
            new_meta := new_meta pl @ (if find_row (row_id td) (new_meta pl) = None then [td] else [])\<rparr>)"

definition plan_td :: "Testdata list \<Rightarrow> Testdata list \<Rightarrow> TdPlan" where
  "plan_td orig_td tds =
     fold (compare_td orig_td) tds \<lparr>to_download = [], to_update_position = [], new_meta = []\<rparr>"

definition to_delete :: "Testdata list \<Rightarrow> TdPlan \<Rightarrow> int list" where
  "to_delete orig_td pl = map row_id (filter (\<lambda>r. find_row (row_id r) (new_meta pl) = None) orig_td)"

text \<open>One more than the largest order in the table.\<close>

definition orig_td_count :: "Testdata list \<Rightarrow> int" where
  "orig_td_count orig_td = fold (\<lambda>r n. if n \<le> row_order r then row_order r + 1 else n) orig_td 0"

section \<open>Updating\<close>

text \<open>A loop whose body may leave the function with \<open>false\<close>; the state is kept either way.\<close>

fun each :: "('a \<Rightarrow> 's \<Rightarrow> bool \<times> 's) \<Rightarrow> 'a list \<Rightarrow> 's \<Rightarrow> bool \<times> 's" where
  "each f [] s = (True, s)"
| "each f (x # xs) s = (let (ok, s) = f x s in if ok then each f xs s else (False, s))"

text \<open>
  The response to a download is a parameter: whether it succeeded in the end, and what was written to
  the file. The directory of the pool is created first.
\<close>

type_synonym server = "int \<Rightarrow> bool \<Rightarrow> bool \<times> string"

definition download :: "Config \<Rightarrow> (path \<Rightarrow> bool) \<Rightarrow> server \<Rightarrow> int \<Rightarrow> files \<Rightarrow> bool \<times> files" where
  "download cfg bad net k st =
     (if bad (TdPoolDir cfg k) then (False, st)
      else let (ok, s) = net k True; st = fs_write bad (TdPoolPath cfg k True True) s st
           in if \<not> ok then (False, st)
              else let (ok, s) = net k False in (ok, fs_write bad (TdPoolPath cfg k False True) s st))"

definition try_call :: "files option \<Rightarrow> files \<Rightarrow> (files \<Rightarrow> bool \<times> files) \<Rightarrow> bool \<times> files" where
  "try_call r st f = (case r of None \<Rightarrow> (False, st) | Some st \<Rightarrow> f st)"

definition install :: "Config \<Rightarrow> (path \<Rightarrow> bool) \<Rightarrow> int \<Rightarrow> files \<Rightarrow> bool \<times> files" where
  "install cfg bad k st =
     try_call (fs_rename bad (TdPoolPath cfg k True True) (TdPoolPath cfg k True False) st) st
       (\<lambda>st. try_call (fs_rename bad (TdPoolPath cfg k False True) (TdPoolPath cfg k False False) st) st (Pair True))"

definition discard :: "Config \<Rightarrow> (path \<Rightarrow> bool) \<Rightarrow> int \<Rightarrow> files \<Rightarrow> files" where
  "discard cfg bad k st =
     fs_remove bad (TdPoolPath cfg k False False) (fs_remove bad (TdPoolPath cfg k True False) st)"

definition relink :: "Config \<Rightarrow> (path \<Rightarrow> bool) \<Rightarrow> int \<Rightarrow> int \<times> int \<Rightarrow> files \<Rightarrow> bool \<times> files" where
  "relink cfg bad prob x st =
     (let (ord, k) = x;
          st = fs_remove bad (TdInput cfg prob ord) st;
          st = fs_remove bad (TdAnswer cfg prob ord) st
      in try_call (fs_create_symlink bad (TdPoolPath cfg k True False) (TdInput cfg prob ord) st) st
           (\<lambda>st. try_call (fs_create_symlink bad (TdPoolPath cfg k False False) (TdAnswer cfg prob ord) st) st (Pair True)))"

definition unlink_old :: "Config \<Rightarrow> (path \<Rightarrow> bool) \<Rightarrow> int \<Rightarrow> int \<Rightarrow> files \<Rightarrow> files" where
  "unlink_old cfg bad prob i st = fs_remove bad (TdAnswer cfg prob i) (fs_remove bad (TdInput cfg prob i) st)"

definition update_testdata ::
    "Config \<Rightarrow> (path \<Rightarrow> bool) \<Rightarrow> server \<Rightarrow> int \<Rightarrow> Testdata list \<Rightarrow> Testdata list \<times> files \<Rightarrow>
     bool \<times> (Testdata list \<times> files)" where
  "update_testdata cfg bad net prob tds db_st =
     (let (rows, st) = db_st; orig_td = ProblemTd prob rows; pl = plan_td orig_td tds;
          (ok, st) = each (download cfg bad net) (to_download pl) st
      in if \<not> ok then (False, (rows, st))
         else let (ok, st) = each (install cfg bad) (to_download pl) st
         in if \<not> ok then (False, (rows, st))
         else let st = fold (discard cfg bad) (to_delete orig_td pl) st;
                  (ok, st) = each (relink cfg bad prob) (to_update_position pl) st
         in if \<not> ok then (False, (rows, st))
         else let st = fold (unlink_old cfg bad prob) [int (length tds) .. orig_td_count orig_td - 1] st
         in (True, (UpdateTd (new_meta pl) rows, st)))"

section \<open>The comparison\<close>

lemma find_row_None: "find_row k rows = None \<longleftrightarrow> k \<notin> row_id ` set rows"
  by (auto simp: find_row_def find_None_iff)

lemma find_row_Some: "find_row k rows = Some r \<Longrightarrow> r \<in> set rows \<and> row_id r = k"
  by (auto simp: find_row_def find_Some_iff)

text \<open>The table has no row for a testdata, or one that differs in \<open>f\<close>.\<close>

definition differs :: "(Testdata \<Rightarrow> int) \<Rightarrow> Testdata list \<Rightarrow> Testdata \<Rightarrow> bool" where
  "differs f orig_td t \<longleftrightarrow> (case find_row (row_id t) orig_td of None \<Rightarrow> True | Some r \<Rightarrow> f r \<noteq> f t)"

text \<open>What the loop has collected of the testdata \<open>tds\<close>.\<close>

definition planned :: "Testdata list \<Rightarrow> Testdata list \<Rightarrow> TdPlan \<Rightarrow> bool" where
  "planned orig_td tds pl \<longleftrightarrow>
     set (to_download pl) = row_id ` {t \<in> set tds. differs row_timestamp orig_td t} \<and>
     set (to_update_position pl) = (\<lambda>t. (row_order t, row_id t)) ` {t \<in> set tds. differs row_order orig_td t} \<and>
     set (new_meta pl) \<subseteq> set tds \<and> row_id ` set (new_meta pl) = row_id ` set tds \<and>
     distinct (map row_id (new_meta pl))"

lemma compare_td_planned:
  assumes "planned orig_td tds pl"
  shows "planned orig_td (tds @ [t]) (compare_td orig_td t pl)"
proof -
  have "to_download (compare_td orig_td t pl) = to_download pl @ (if differs row_timestamp orig_td t then [row_id t] else [])"
    "to_update_position (compare_td orig_td t pl) =
       to_update_position pl @ (if differs row_order orig_td t then [(row_order t, row_id t)] else [])"
    "new_meta (compare_td orig_td t pl) = new_meta pl @ (if row_id t \<notin> row_id ` set (new_meta pl) then [t] else [])"
    by (simp_all add: compare_td_def Let_def find_row_None differs_def)
  then show ?thesis using assms unfolding planned_def by auto
qed

lemma plan_td_planned: "planned orig_td tds (plan_td orig_td tds)"
proof -
  have "planned orig_td (us @ tds) (fold (compare_td orig_td) tds pl)" if "planned orig_td us pl" for us pl
    using that
  proof (induction tds arbitrary: us pl)
    case (Cons t tds)
    from Cons.IH [OF compare_td_planned [OF Cons.prems]] show ?case by simp
  qed simp
  from this [of "[]"] show ?thesis by (simp add: plan_td_def planned_def)
qed

lemma UpdateTd_rows:
  assumes "distinct (map row_id td)"
  shows "set (UpdateTd td rows) = set td \<union> {r \<in> set rows. row_id r \<notin> row_id ` set td}"
    and "distinct (map row_id rows) \<Longrightarrow> distinct (map row_id (UpdateTd td rows))"
proof -
  have a: "set (UpdateTd td rows) = set td \<union> {r \<in> set rows. row_id r \<notin> row_id ` set td} \<and>
      (distinct (map row_id rows) \<longrightarrow> distinct (map row_id (UpdateTd td rows)))" if "distinct (map row_id td)" for td rows
    using that
  proof (induction td arbitrary: rows)
    case (Cons t td)
    let ?rows = "filter (\<lambda>r. row_id r \<noteq> row_id t) rows @ [t]"
    have "UpdateTd (t # td) rows = UpdateTd td ?rows" by (simp add: UpdateTd_def)
    moreover have "distinct (map row_id ?rows)" if "distinct (map row_id rows)"
      using that by (auto simp: distinct_map_filter)
    ultimately show ?case using Cons.IH [of ?rows] Cons.prems by auto
  qed (simp add: UpdateTd_def)
  show "set (UpdateTd td rows) = set td \<union> {r \<in> set rows. row_id r \<notin> row_id ` set td}"
    and "distinct (map row_id rows) \<Longrightarrow> distinct (map row_id (UpdateTd td rows))" using a [OF assms] by simp_all
qed

section \<open>The steps of an update\<close>

abbreviation temp_path :: "Config \<Rightarrow> int \<Rightarrow> bool \<Rightarrow> path" where
  "temp_path cfg k b \<equiv> TdPoolPath cfg k b True"

abbreviation pool_path :: "Config \<Rightarrow> int \<Rightarrow> bool \<Rightarrow> path" where
  "pool_path cfg k b \<equiv> TdPoolPath cfg k b False"

lemma each_prefix:
  assumes "each f xs s = (True, s')" "P [] s"
    and "\<And>ys x s s'. P ys s \<Longrightarrow> set ys \<subseteq> set xs \<Longrightarrow> x \<in> set xs \<Longrightarrow> f x s = (True, s') \<Longrightarrow> P (ys @ [x]) s'"
  shows "P xs s'"
proof -
  have "P (ys @ xs) s'" if "each f xs s = (True, s')" "P ys s" "set ys \<subseteq> A" "set xs \<subseteq> A"
      "\<And>ys x s s'. P ys s \<Longrightarrow> set ys \<subseteq> A \<Longrightarrow> x \<in> A \<Longrightarrow> f x s = (True, s') \<Longrightarrow> P (ys @ [x]) s'" for A ys
    using that
  proof (induction xs arbitrary: ys s)
    case (Cons x xs)
    then obtain s1 where s1: "f x s = (True, s1)" "each f xs s1 = (True, s')"
      by (auto split: prod.splits if_splits)
    have "P (ys @ [x]) s1" using Cons.prems(2-5) s1(1) by simp
    from Cons.IH [OF s1(2) this _ _ Cons.prems(5)] Cons.prems(3,4) show ?case by simp
  qed simp
  from this [OF assms(1,2) empty_subsetI [THEN subset_trans [OF eq_refl [OF list.set(1)]]] subset_refl assms(3)]
  show ?thesis by simp
qed

lemma fold_frame:
  assumes "\<And>x s. x \<in> set xs \<Longrightarrow> f x s p = s p"
  shows "fold f xs s p = s p"
  using assms by (induction xs arbitrary: s) simp_all

lemma each_frame:
  assumes "\<And>x s. x \<in> set xs \<Longrightarrow> snd (f x s) p = s p"
  shows "snd (each f xs s) p = s p"
  using assms
proof (induction xs arbitrary: s)
  case (Cons x xs)
  obtain ok s1 where f: "f x s = (ok, s1)" by fastforce
  then have "s1 p = s p" using Cons.prems [of x s] by simp
  then show ?case using Cons.IH [of s1] Cons.prems f by simp
qed simp

lemma download_frame: "(\<forall>b. p \<noteq> temp_path cfg k b) \<Longrightarrow> snd (download cfg bad net k st) p = st p"
  by (auto simp: download_def fs_write_def Let_def split: prod.splits)

lemma download_value:
  assumes "download cfg bad net k st = (True, st')"
  shows "fst (net k b) \<and> st' = fs_write bad (temp_path cfg k False) (snd (net k False))
    (fs_write bad (temp_path cfg k True) (snd (net k True)) st)"
  using assms unfolding download_def Let_def
  by (cases b; cases "net k True"; cases "net k False"; cases "bad (TdPoolDir cfg k)"; simp split: if_splits)

lemma download_ok:
  assumes "download cfg bad net k st = (True, st')"
  shows "\<not> bad (temp_path cfg k b) \<Longrightarrow> 0 \<le> k \<Longrightarrow> st' (temp_path cfg k b) = Some (Regular (snd (net k b)))"
    "(\<And>b. p \<noteq> temp_path cfg k b) \<Longrightarrow> st' p = st p"
proof -
  note V = download_value [OF assms, THEN conjunct2]
  show "\<not> bad (temp_path cfg k b) \<Longrightarrow> 0 \<le> k \<Longrightarrow> st' (temp_path cfg k b) = Some (Regular (snd (net k b)))"
    unfolding V by (cases b) (simp_all add: fs_write_def)
  show "(\<And>b. p \<noteq> temp_path cfg k b) \<Longrightarrow> st' p = st p" unfolding V by (simp add: fs_write_def)
qed

lemma downloads_ok:
  assumes "each (download cfg bad net) ks st = (True, st')" "\<forall>k \<in> set ks. 0 \<le> k"
  shows "(\<forall>k \<in> set ks. \<forall>b. fst (net k b) \<and> (\<not> bad (temp_path cfg k b) \<longrightarrow> st' (temp_path cfg k b) = Some (Regular (snd (net k b))))) \<and>
    (\<forall>p. (\<forall>k \<in> set ks. \<forall>b. p \<noteq> temp_path cfg k b) \<longrightarrow> st' p = st p)"
  using assms(1)
proof (rule each_prefix)
  fix ys x s s'
  assume P: "(\<forall>k \<in> set ys. \<forall>b. fst (net k b) \<and> (\<not> bad (temp_path cfg k b) \<longrightarrow> s (temp_path cfg k b) = Some (Regular (snd (net k b))))) \<and>
      (\<forall>p. (\<forall>k \<in> set ys. \<forall>b. p \<noteq> temp_path cfg k b) \<longrightarrow> s p = st p)"
    and sub: "set ys \<subseteq> set ks" "x \<in> set ks" and d: "download cfg bad net x s = (True, s')"
  note D = download_value [OF d, THEN conjunct1] download_ok [OF d]
  have "s' (temp_path cfg k b) = Some (Regular (snd (net k b)))"
    if "k \<in> set (ys @ [x])" "\<not> bad (temp_path cfg k b)" for k b
  proof (cases "k = x")
    case False
    then have "s' (temp_path cfg k b) = s (temp_path cfg k b)"
      using sub that(1) assms(2) by (intro D(3)) (auto simp: subset_iff)
    then show ?thesis using P that False by simp
  qed (use D(2) that assms(2) sub in simp)
  then show "(\<forall>k \<in> set (ys @ [x]). \<forall>b. fst (net k b) \<and> (\<not> bad (temp_path cfg k b) \<longrightarrow> s' (temp_path cfg k b) = Some (Regular (snd (net k b))))) \<and>
      (\<forall>p. (\<forall>k \<in> set (ys @ [x]). \<forall>b. p \<noteq> temp_path cfg k b) \<longrightarrow> s' p = st p)"
    using P D(1,3) by auto
qed simp

lemma install_ok:
  assumes "install cfg bad k st = (True, st')" "0 \<le> k"
  shows "\<not> bad (temp_path cfg k b)" "st (temp_path cfg k b) \<noteq> None" "st' (temp_path cfg k b) = None"
    "st' (pool_path cfg k b) = st (temp_path cfg k b)"
    "(\<And>b t. p \<noteq> TdPoolPath cfg k b t) \<Longrightarrow> st' p = st p"
  using assms by (cases b; auto simp: install_def try_call_def fs_rename_def split: if_splits)+

lemma installs_ok:
  assumes "each (install cfg bad) ks st = (True, st')" "\<forall>k \<in> set ks. 0 \<le> k"
  shows "(\<forall>k \<in> set ks. \<forall>b. \<not> bad (temp_path cfg k b) \<and> st' (pool_path cfg k b) = st (temp_path cfg k b)) \<and>
    (\<forall>p. (\<forall>k \<in> set ks. \<forall>b t. p \<noteq> TdPoolPath cfg k b t) \<longrightarrow> st' p = st p)"
proof -
  have "(\<forall>k \<in> set ks. \<forall>b. \<not> bad (temp_path cfg k b) \<and> st' (temp_path cfg k b) = None \<and>
      st' (pool_path cfg k b) = st (temp_path cfg k b)) \<and>
    (\<forall>p. (\<forall>k \<in> set ks. \<forall>b t. p \<noteq> TdPoolPath cfg k b t) \<longrightarrow> st' p = st p)"
    using assms(1)
  proof (rule each_prefix)
    fix ys x s s'
    assume P: "(\<forall>k \<in> set ys. \<forall>b. \<not> bad (temp_path cfg k b) \<and> s (temp_path cfg k b) = None \<and>
          s (pool_path cfg k b) = st (temp_path cfg k b)) \<and>
        (\<forall>p. (\<forall>k \<in> set ys. \<forall>b t. p \<noteq> TdPoolPath cfg k b t) \<longrightarrow> s p = st p)"
      and sub: "set ys \<subseteq> set ks" "x \<in> set ks" and i: "install cfg bad x s = (True, s')"
    have x: "0 \<le> x" and ys: "\<forall>k \<in> set ys. 0 \<le> k" using sub assms(2) by auto
    note I = install_ok [OF i x]
    have new: "x \<notin> set ys" using P I(2) by blast
    have "s (temp_path cfg x b) = st (temp_path cfg x b)" for b
    proof -
      have "\<forall>k \<in> set ys. \<forall>c t. temp_path cfg x b \<noteq> TdPoolPath cfg k c t" using new x ys by auto
      then show ?thesis using P by blast
    qed
    moreover have "s' (TdPoolPath cfg k b t) = s (TdPoolPath cfg k b t)" if "k \<in> set ys" for k b t
      using that new x ys by (intro I(5)) auto
    ultimately show "(\<forall>k \<in> set (ys @ [x]). \<forall>b. \<not> bad (temp_path cfg k b) \<and> s' (temp_path cfg k b) = None \<and>
          s' (pool_path cfg k b) = st (temp_path cfg k b)) \<and>
        (\<forall>p. (\<forall>k \<in> set (ys @ [x]). \<forall>b t. p \<noteq> TdPoolPath cfg k b t) \<longrightarrow> s' p = st p)"
      using P I by auto
  qed simp
  then show ?thesis by blast
qed

lemma relink_ok:
  assumes "relink cfg bad prob (i, k) st = (True, st')" "0 \<le> prob" "0 \<le> i"
  shows "st' (td_link cfg prob i b) = Some (Symlink (pool_path cfg k b))"
    "(\<And>b. p \<noteq> td_link cfg prob i b) \<Longrightarrow> st' p = st p"
proof -
  have ne: "TdInput cfg prob i \<noteq> TdAnswer cfg prob i"
    using td_paths(1) [of prob i prob i cfg True False] assms(2,3) by (simp add: td_link_def)
  let ?s = "fs_remove bad (TdAnswer cfg prob i) (fs_remove bad (TdInput cfg prob i) st)"
  have "st' = ?s(TdInput cfg prob i \<mapsto> Symlink (pool_path cfg k True), TdAnswer cfg prob i \<mapsto> Symlink (pool_path cfg k False))"
    using assms(1) by (simp add: relink_def Let_def try_call_def fs_create_symlink_def split: if_splits option.splits)
  then show "st' (td_link cfg prob i b) = Some (Symlink (pool_path cfg k b))"
    "(\<And>b. p \<noteq> td_link cfg prob i b) \<Longrightarrow> st' p = st p"
    using ne by (cases b; simp add: td_link_def fs_remove_def; metis)+
qed

lemma relinks_ok:
  assumes "each (relink cfg bad prob) xs st = (True, st')" "0 \<le> prob" "\<forall>x \<in> set xs. 0 \<le> fst x" "inj_on fst (set xs)"
  shows "(\<forall>(i, k) \<in> set xs. \<forall>b. st' (td_link cfg prob i b) = Some (Symlink (pool_path cfg k b))) \<and>
    (\<forall>p. (\<forall>x \<in> set xs. \<forall>b. p \<noteq> td_link cfg prob (fst x) b) \<longrightarrow> st' p = st p)"
  using assms(1)
proof (rule each_prefix)
  fix ys x s s'
  assume P: "(\<forall>(i, k) \<in> set ys. \<forall>b. s (td_link cfg prob i b) = Some (Symlink (pool_path cfg k b))) \<and>
      (\<forall>p. (\<forall>x \<in> set ys. \<forall>b. p \<noteq> td_link cfg prob (fst x) b) \<longrightarrow> s p = st p)"
    and sub: "set ys \<subseteq> set xs" "x \<in> set xs" and r: "relink cfg bad prob x s = (True, s')"
  obtain i k where x: "x = (i, k)" by (cases x)
  have i: "0 \<le> i" using assms(3) sub x by auto
  note R = relink_ok [OF r [unfolded x] assms(2) i]
  have "s' (td_link cfg prob j b) = Some (Symlink (pool_path cfg l b))" if "(j, l) \<in> set (ys @ [x])" for j l b
  proof (cases "j = i")
    case True
    have "(j, l) \<in> set xs" "(i, k) \<in> set xs" using that sub x by auto
    with True inj_onD [OF assms(4), of "(j, l)" "(i, k)"] have "l = k" by simp
    then show ?thesis using R(1) True by simp
  next
    case False
    then have "(j, l) \<in> set ys" using that x by simp
    moreover from this have "0 \<le> j" using sub assms(3) by fastforce
    ultimately show ?thesis using P R(2) [of "td_link cfg prob j b"] False i assms(2) by auto
  qed
  then show "(\<forall>(i, k) \<in> set (ys @ [x]). \<forall>b. s' (td_link cfg prob i b) = Some (Symlink (pool_path cfg k b))) \<and>
      (\<forall>p. (\<forall>x \<in> set (ys @ [x]). \<forall>b. p \<noteq> td_link cfg prob (fst x) b) \<longrightarrow> s' p = st p)"
    using P R(2) x by auto
qed simp

section \<open>The cache\<close>

text \<open>
  \<open>content k ts b\<close> is the input or the answer of the testdata \<open>k\<close> as of the time stamp \<open>ts\<close>. The files of a
  row are current if its links lead to the pool and the pool holds that version.
\<close>

definition current :: "Config \<Rightarrow> (int \<Rightarrow> int \<Rightarrow> bool \<Rightarrow> string) \<Rightarrow> files \<Rightarrow> Testdata \<Rightarrow> bool" where
  "current cfg content st r \<longleftrightarrow>
     (\<forall>b. st (td_link cfg (row_problem r) (row_order r) b) = Some (Symlink (pool_path cfg (row_id r) b)) \<and>
          st (pool_path cfg (row_id r) b) = Some (Regular (content (row_id r) (row_timestamp r) b)))"

lemma current_read:
  "current cfg content st r \<Longrightarrow> read_file (td_link cfg (row_problem r) (row_order r) b) st =
     Some (content (row_id r) (row_timestamp r) b)"
  by (simp add: current_def read_file_def)

definition row_ok :: "Testdata \<Rightarrow> bool" where
  "row_ok r \<longleftrightarrow> 0 \<le> row_id r \<and> 0 \<le> row_problem r \<and> 0 \<le> row_order r"

text \<open>
  The table keeps the rows of testdata a problem no longer has; \<open>live\<close> are those some problem still has.
\<close>

definition cache_ok :: "Config \<Rightarrow> (int \<Rightarrow> int \<Rightarrow> bool \<Rightarrow> string) \<Rightarrow> int set \<Rightarrow> Testdata list \<times> files \<Rightarrow> bool" where
  "cache_ok cfg content live db_st \<longleftrightarrow>
     (let (rows, st) = db_st
      in distinct (map row_id rows) \<and>
         (\<forall>r \<in> set rows. row_ok r \<and> (row_id r \<in> live \<longrightarrow> current cfg content st r)))"

text \<open>The testdata of a submission, as \<open>DealOneSubmission\<close> numbers them.\<close>

definition tds_ok :: "int \<Rightarrow> Testdata list \<Rightarrow> bool" where
  "tds_ok prob tds \<longleftrightarrow> map row_order tds = map int [0 ..< length tds] \<and>
     (\<forall>t \<in> set tds. row_ok t \<and> row_problem t = prob)"

lemma tds_order:
  assumes "tds_ok prob tds" "t \<in> set tds" "t' \<in> set tds"
  shows "row_order t < int (length tds)" "row_order t = row_order t' \<Longrightarrow> t = t'"
proof -
  have m: "map row_order tds = map int [0 ..< length tds]" using assms(1) by (simp add: tds_ok_def)
  then have "set (map row_order tds) = set (map int [0 ..< length tds])" by simp
  moreover have "row_order t \<in> set (map row_order tds)" using assms(2) by simp
  ultimately show "row_order t < int (length tds)" by auto
  have "distinct (map row_order tds)" unfolding m by (simp add: distinct_map inj_on_def)
  then show "row_order t = row_order t' \<Longrightarrow> t = t'" using assms(2,3) by (auto simp: distinct_map inj_on_def)
qed

text \<open>What a successful update leaves in the file system.\<close>

lemma update_files:
  assumes "update_testdata cfg bad net prob tds (rows, st) = (True, rows', st')"
    and t: "tds_ok prob tds" and p: "0 \<le> prob" and rows: "\<forall>r \<in> set rows. row_ok r"
  defines "orig \<equiv> ProblemTd prob rows" and "pl \<equiv> plan_td (ProblemTd prob rows) tds"
  shows "rows' = UpdateTd (new_meta pl) rows"
    and "(\<forall>k \<in> set (to_download pl). \<forall>b. fst (net k b) \<and> st' (pool_path cfg k b) = Some (Regular (snd (net k b)))) \<and>
      (\<forall>(i, k) \<in> set (to_update_position pl). \<forall>b. st' (td_link cfg prob i b) = Some (Symlink (pool_path cfg k b))) \<and>
      (\<forall>k b. 0 \<le> k \<longrightarrow> k \<notin> set (to_download pl) \<longrightarrow> k \<notin> set (to_delete orig pl) \<longrightarrow>
        st' (pool_path cfg k b) = st (pool_path cfg k b)) \<and>
      (\<forall>q i b. 0 \<le> q \<longrightarrow> 0 \<le> i \<longrightarrow> q \<noteq> prob \<or> i < int (length tds) \<and> i \<notin> fst ` set (to_update_position pl) \<longrightarrow>
        st' (td_link cfg q i b) = st (td_link cfg q i b))"
proof -
  note C = plan_td_planned [of orig tds, folded pl_def [folded orig_def], unfolded planned_def]
  define old where "old = [int (length tds) .. orig_td_count orig - 1]"
  from assms(1) obtain st1 st2 st3 where
    d: "each (download cfg bad net) (to_download pl) st = (True, st1)" and
    i: "each (install cfg bad) (to_download pl) st1 = (True, st2)" and
    l: "each (relink cfg bad prob) (to_update_position pl) (fold (discard cfg bad) (to_delete orig pl) st2) = (True, st3)" and
    st': "st' = fold (unlink_old cfg bad prob) old st3" and r: "rows' = UpdateTd (new_meta pl) rows"
    by (auto simp: update_testdata_def Let_def old_def orig_def pl_def split: prod.splits if_splits)
  show "rows' = UpdateTd (new_meta pl) rows" by (rule r)
  let ?dl = "to_download pl" and ?del = "to_delete orig pl" and ?up = "to_update_position pl"
  have dl: "\<forall>k \<in> set ?dl. 0 \<le> k" using C t by (auto simp: tds_ok_def row_ok_def)
  have up: "\<forall>x \<in> set ?up. 0 \<le> fst x" "\<forall>x \<in> set ?up. fst x < int (length tds)" "inj_on fst (set ?up)"
    using C t tds_order [OF t] by (auto simp: tds_ok_def row_ok_def inj_on_def)
  have del: "\<forall>k \<in> set ?del. 0 \<le> k \<and> k \<notin> set ?dl"
    using rows C by (auto simp: to_delete_def orig_def ProblemTd_def row_ok_def find_row_None)
  note D = downloads_ok [OF d dl] and I = installs_ok [OF i dl] and L = relinks_ok [OF l p up(1) up(3)]
  have un: "st' q = st3 q" if "\<And>j b. int (length tds) \<le> j \<Longrightarrow> q \<noteq> td_link cfg prob j b" for q
    unfolding st' using that [of _ True] that [of _ False]
    by (intro fold_frame) (auto simp: old_def unlink_old_def fs_remove_def td_link_def)
  have di: "fold (discard cfg bad) ?del st2 q = st2 q" if "\<And>k b. k \<in> set ?del \<Longrightarrow> q \<noteq> pool_path cfg k b" for q
    using that by (intro fold_frame) (auto simp: discard_def fs_remove_def)
  have pool: "st' (pool_path cfg k b) = st2 (pool_path cfg k b)" if "0 \<le> k" "k \<notin> set ?del" for k b
  proof -
    have "st' (pool_path cfg k b) = st3 (pool_path cfg k b)" using that p by (intro un) simp
    also have "\<dots> = fold (discard cfg bad) ?del st2 (pool_path cfg k b)" using L that p up(1) by simp
    also have "\<dots> = st2 (pool_path cfg k b)" using that del by (intro di) auto
    finally show ?thesis .
  qed
  have link: "st' (td_link cfg q j b) = st3 (td_link cfg q j b)" if "0 \<le> q" "0 \<le> j" "q \<noteq> prob \<or> j < int (length tds)" for q j b
    using that p by (intro un) auto
  have "fst (net k b) \<and> st' (pool_path cfg k b) = Some (Regular (snd (net k b)))" if k: "k \<in> set ?dl" for k b
    using D I pool [of k b] k dl del by auto
  moreover have "st' (td_link cfg prob j b) = Some (Symlink (pool_path cfg k b))" if x: "(j, k) \<in> set ?up" for j k b
  proof -
    have "0 \<le> j" "j < int (length tds)" using up(1,2) x by auto
    then show ?thesis using link [of prob j b] p L x by auto
  qed
  moreover have "st' (pool_path cfg k b) = st (pool_path cfg k b)" if "0 \<le> k" "k \<notin> set ?dl" "k \<notin> set ?del" for k b
  proof -
    have "\<forall>x \<in> set ?dl. \<forall>c u. pool_path cfg k b \<noteq> TdPoolPath cfg x c u" using that dl by auto
    then show ?thesis using pool that I D by simp
  qed
  moreover have "st' (td_link cfg q j b) = st (td_link cfg q j b)"
    if "0 \<le> q" "0 \<le> j" "q \<noteq> prob \<or> j < int (length tds) \<and> j \<notin> fst ` set ?up" for q j b
  proof -
    have "st' (td_link cfg q j b) = st3 (td_link cfg q j b)" using that by (intro link) auto
    also have "\<dots> = fold (discard cfg bad) ?del st2 (td_link cfg q j b)"
    proof -
      have "\<forall>x \<in> set ?up. \<forall>c. td_link cfg q j b \<noteq> td_link cfg prob (fst x) c" using that p up(1) by auto
      then show ?thesis using L by blast
    qed
    also have "\<dots> = st2 (td_link cfg q j b)" using that del by (intro di) auto
    also have "\<dots> = st (td_link cfg q j b)" using I D dl that by auto
    finally show ?thesis .
  qed
  ultimately show "(\<forall>k \<in> set ?dl. \<forall>b. fst (net k b) \<and> st' (pool_path cfg k b) = Some (Regular (snd (net k b)))) \<and>
      (\<forall>(i, k) \<in> set ?up. \<forall>b. st' (td_link cfg prob i b) = Some (Symlink (pool_path cfg k b))) \<and>
      (\<forall>k b. 0 \<le> k \<longrightarrow> k \<notin> set ?dl \<longrightarrow> k \<notin> set ?del \<longrightarrow> st' (pool_path cfg k b) = st (pool_path cfg k b)) \<and>
      (\<forall>q i b. 0 \<le> q \<longrightarrow> 0 \<le> i \<longrightarrow> q \<noteq> prob \<or> i < int (length tds) \<and> i \<notin> fst ` set ?up \<longrightarrow>
        st' (td_link cfg q i b) = st (td_link cfg q i b))" by blast
qed

lemma find_row_distinct:
  "distinct (map row_id rows) \<Longrightarrow> r \<in> set rows \<Longrightarrow> find_row (row_id r) rows = Some r"
  by (induction rows) (force simp: find_row_def)+

text \<open>Every testdata of the submission, listed twice or not.\<close>

lemma update_current:
  assumes c: "cache_ok cfg content live (rows, st)" and t: "tds_ok prob tds" and p: "0 \<le> prob"
    and again: "\<forall>r \<in> set rows. row_problem r = prob \<and> row_id r \<in> row_id ` set tds \<longrightarrow> row_id r \<in> live"
    and net: "\<forall>t \<in> set tds. \<forall>b. fst (net (row_id t) b) \<longrightarrow> snd (net (row_id t) b) = content (row_id t) (row_timestamp t) b"
    and u: "update_testdata cfg bad net prob tds (rows, st) = (True, rows', st')"
    and td: "td \<in> set tds"
  shows "current cfg content st' td"
  unfolding current_def
proof
  fix b
  define orig where "orig = ProblemTd prob rows"
  define pl where "pl = plan_td orig tds"
  note C = plan_td_planned [of orig tds, folded pl_def, unfolded planned_def]
  have rows: "\<forall>r \<in> set rows. row_ok r" using c by (simp add: cache_ok_def)
  note U = update_files(2) [OF u t p rows, folded orig_def, folded pl_def]
  have td': "row_ok td" "row_problem td = prob" using t td by (auto simp: tds_ok_def)
  have old: "row_problem r = prob \<and> current cfg content st r \<and> row_id r = row_id td" if "find_row (row_id td) orig = Some r" for r
  proof -
    have r: "r \<in> set rows" "row_problem r = prob" "row_id r = row_id td"
      using find_row_Some [OF that] by (simp_all add: orig_def ProblemTd_def)
    then have "row_id r \<in> live" using again td by auto
    with r c show ?thesis by (simp add: cache_ok_def)
  qed
  have kept: "row_id td \<notin> set (to_delete orig pl)"
    using C imageI [OF td, of row_id] by (auto simp: to_delete_def find_row_None)
  show "st' (td_link cfg (row_problem td) (row_order td) b) = Some (Symlink (pool_path cfg (row_id td) b)) \<and>
    st' (pool_path cfg (row_id td) b) = Some (Regular (content (row_id td) (row_timestamp td) b))"
  proof
    show "st' (td_link cfg (row_problem td) (row_order td) b) = Some (Symlink (pool_path cfg (row_id td) b))"
    proof (cases "differs row_order orig td")
      case True
      then have "(row_order td, row_id td) \<in> set (to_update_position pl)" using C td by auto
      then show ?thesis using U td' by auto
    next
      case False
      then obtain r where r: "find_row (row_id td) orig = Some r" "row_order r = row_order td"
        by (auto simp: differs_def split: option.splits)
      have "row_order td \<notin> fst ` set (to_update_position pl)"
        using C False tds_order(2) [OF t td] by force
      then have "st' (td_link cfg prob (row_order td) b) = st (td_link cfg prob (row_order td) b)"
        using U p td' tds_order(1) [OF t td td] by (auto simp: row_ok_def)
      then show ?thesis using old [OF r(1)] r(2) td' by (auto simp: current_def)
    qed
    show "st' (pool_path cfg (row_id td) b) = Some (Regular (content (row_id td) (row_timestamp td) b))"
    proof (cases "row_id td \<in> set (to_download pl)")
      case True
      then show ?thesis using U net td by auto
    next
      case False
      then have "\<not> differs row_timestamp orig td" using C td by auto
      then obtain r where r: "find_row (row_id td) orig = Some r" "row_timestamp r = row_timestamp td"
        by (auto simp: differs_def split: option.splits)
      have "st' (pool_path cfg (row_id td) b) = st (pool_path cfg (row_id td) b)"
        using U False kept td' by (auto simp: row_ok_def)
      then show ?thesis using old [OF r(1)] r(2) by (auto simp: current_def)
    qed
  qed
qed

lemma update_cache:
  assumes c: "cache_ok cfg content live (rows, st)" and t: "tds_ok prob tds" and p: "0 \<le> prob"
    and u: "update_testdata cfg bad net prob tds (rows, st) = (True, rows', st')"
    and td: "\<And>td. td \<in> set tds \<Longrightarrow> current cfg content st' td"
  shows "cache_ok cfg content (live - row_id ` set (ProblemTd prob rows) \<union> row_id ` set tds) (rows', st')"
proof -
  define orig where "orig = ProblemTd prob rows"
  define pl where "pl = plan_td orig tds"
  note C = plan_td_planned [of orig tds, folded pl_def, unfolded planned_def]
  have rows: "\<forall>r \<in> set rows. row_ok r" and d: "distinct (map row_id rows)" using c by (simp_all add: cache_ok_def)
  note U = update_files [OF u t p rows, folded orig_def, folded pl_def]
  have S: "set rows' = set (new_meta pl) \<union> {r \<in> set rows. row_id r \<notin> row_id ` set tds}" "distinct (map row_id rows')"
    unfolding U(1) using UpdateTd_rows [of "new_meta pl" rows] C d by auto
  have "current cfg content st' r"
    if "r \<in> set rows" "row_id r \<notin> row_id ` set tds" "row_id r \<in> live" "row_id r \<notin> row_id ` set orig" for r
  proof -
    have r: "row_ok r" "current cfg content st r" using that c by (auto simp: cache_ok_def)
    have "row_id r \<notin> set (to_download pl)" "row_id r \<notin> set (to_delete orig pl)" "row_problem r \<noteq> prob"
      using that C by (auto simp: to_delete_def orig_def ProblemTd_def)
    then have "st' (pool_path cfg (row_id r) b) = st (pool_path cfg (row_id r) b)"
      "st' (td_link cfg (row_problem r) (row_order r) b) = st (td_link cfg (row_problem r) (row_order r) b)" for b
      using U(2) r(1) by (auto simp: row_ok_def)
    then show ?thesis using r(2) by (simp add: current_def)
  qed
  moreover have "row_ok r" if "r \<in> set rows'" for r
    using that S(1) C t rows by (auto simp: tds_ok_def)
  ultimately show ?thesis
    using S td C unfolding cache_ok_def orig_def [symmetric] by auto
qed

section \<open>Properties\<close>

text \<open>
  C10: After a successful update of the testdata of a problem, reading the link of each testdata of the submission
  gives the input and the answer in the version the submission names, and the cache is valid for the
  next submission of any problem; provided no testdata comes back that the problem had dropped before.
\<close>

theorem testdata_current:
  assumes "cache_ok cfg content live (rows, st)" "tds_ok prob tds" "0 \<le> prob"
    and "\<forall>r \<in> set rows. row_problem r = prob \<and> row_id r \<in> row_id ` set tds \<longrightarrow> row_id r \<in> live"
    and "\<forall>t \<in> set tds. \<forall>b. fst (net (row_id t) b) \<longrightarrow> snd (net (row_id t) b) = content (row_id t) (row_timestamp t) b"
    and u: "update_testdata cfg bad net prob tds (rows, st) = (True, rows', st')"
  shows "cache_ok cfg content (live - row_id ` set (ProblemTd prob rows) \<union> row_id ` set tds) (rows', st') \<and>
    (\<forall>t \<in> set tds. \<forall>b. read_file (td_link cfg prob (row_order t) b) st' =
       Some (content (row_id t) (row_timestamp t) b))"
proof (intro conjI ballI allI)
  note cur = update_current [OF assms]
  show "cache_ok cfg content (live - row_id ` set (ProblemTd prob rows) \<union> row_id ` set tds) (rows', st')"
    using update_cache [OF assms(1-3) u cur] .
  fix t b assume t: "t \<in> set tds"
  then have "row_problem t = prob" using assms(2) by (simp add: tds_ok_def)
  then show "read_file (td_link cfg prob (row_order t) b) st' = Some (content (row_id t) (row_timestamp t) b)"
    using current_read [OF cur [OF t], of b] by simp
qed

text \<open>A problem with the testdata 5, to which 7 is added in front.\<close>

definition sample_row :: "int \<Rightarrow> int \<Rightarrow> Testdata" where
  "sample_row k ord = \<lparr>row_id = k, row_problem = 1, row_order = ord, row_timestamp = 100,
     row_input_compressed = False, row_output_compressed = False\<rparr>"

definition sample_content :: "int \<Rightarrow> int \<Rightarrow> bool \<Rightarrow> string" where
  "sample_content k ts b = (if b then ''in '' else ''out '') @ to_string k"

definition sample_cache :: "Testdata list \<times> files" where
  "sample_cache = ([sample_row 5 0],
     [TdInput plain_config 1 0 \<mapsto> Symlink (pool_path plain_config 5 True),
      TdAnswer plain_config 1 0 \<mapsto> Symlink (pool_path plain_config 5 False),
      pool_path plain_config 5 True \<mapsto> Regular ''in 5'', pool_path plain_config 5 False \<mapsto> Regular ''out 5''])"

definition sample_update :: "int list \<Rightarrow> Testdata list \<times> files \<Rightarrow> bool \<times> (Testdata list \<times> files)" where
  "sample_update ks = update_testdata plain_config (\<lambda>_. False) (\<lambda>k b. (True, sample_content k 100 b)) 1
     (map (\<lambda>i. sample_row (ks ! i) (int i)) [0 ..< length ks])"

lemma sample_cache_ok: "cache_ok plain_config sample_content {5} (fst sample_cache, snd sample_cache)"
proof -
  have "current plain_config sample_content (snd sample_cache) (sample_row 5 0)" by code_simp
  then show ?thesis by (simp add: cache_ok_def sample_cache_def row_ok_def sample_row_def)
qed

lemma sample_update_ok: "fst (sample_update [7, 5] sample_cache)"
  by code_simp

theorem testdata_current_witness:
  "\<exists>rows' st'. sample_update [7, 5] sample_cache = (True, rows', st') \<and>
     read_file (TdInput plain_config 1 0) st' = Some ''in 7'' \<and> read_file (TdAnswer plain_config 1 1) st' = Some ''out 5''"
proof -
  let ?tds = "[sample_row 7 0, sample_row 5 1]"
  obtain rows' st' where u: "sample_update [7, 5] sample_cache = (True, rows', st')"
    using sample_update_ok by (cases "sample_update [7, 5] sample_cache") auto
  have t: "tds_ok 1 ?tds" by (simp add: tds_ok_def row_ok_def sample_row_def)
  have "update_testdata plain_config (\<lambda>_. False) (\<lambda>k b. (True, sample_content k 100 b)) 1 ?tds
      (fst sample_cache, snd sample_cache) = (True, rows', st')"
    using u by (simp add: sample_update_def)
  from testdata_current [OF sample_cache_ok t _ _ _ this]
  have "read_file (td_link plain_config 1 (row_order t) b) st' = Some (sample_content (row_id t) 100 b)" if "t \<in> set ?tds" for t b
    using that by (auto simp: sample_cache_def sample_row_def)
  from this [of "sample_row 7 0" True] this [of "sample_row 5 1" False]
  have "read_file (TdInput plain_config 1 0) st' = Some (sample_content 7 100 True)"
    "read_file (TdAnswer plain_config 1 1) st' = Some (sample_content 5 100 False)"
    by (simp_all add: td_link_def sample_row_def)
  moreover have "sample_content 7 100 True = ''in 7''" "sample_content 5 100 False = ''out 5''" by code_simp+
  ultimately show ?thesis using u by simp
qed

text \<open>
  A failed download leaves the cache as it was: only temporary files are written, and every link still leads
  to the version in the table.
\<close>

theorem failed_download_keeps_cache:
  assumes "cache_ok cfg content live (rows, st)" "tds_ok prob tds" "0 \<le> prob"
    and "k \<in> set (to_download (plan_td (ProblemTd prob rows) tds))" "\<not> fst (net k b)"
  shows "\<exists>st'. update_testdata cfg bad net prob tds (rows, st) = (False, rows, st') \<and>
    cache_ok cfg content live (rows, st')"
proof -
  let ?pl = "plan_td (ProblemTd prob rows) tds"
  note C = plan_td_planned [of "ProblemTd prob rows" tds, unfolded planned_def]
  have dl: "\<forall>k \<in> set (to_download ?pl). 0 \<le> k" using C assms(2) by (auto simp: tds_ok_def row_ok_def)
  obtain ok st' where e: "each (download cfg bad net) (to_download ?pl) st = (ok, st')" by fastforce
  have ok: "\<not> ok" using downloads_ok [OF _ dl, of cfg bad net st st'] e assms(4,5) by (cases ok) auto
  have F: "st' p = st p" if "\<forall>k \<in> set (to_download ?pl). \<forall>b. p \<noteq> temp_path cfg k b" for p
    using each_frame [of "to_download ?pl" "download cfg bad net" p st] download_frame that e by simp
  have "st' (td_link cfg q i b) = st (td_link cfg q i b)" if "0 \<le> q" "0 \<le> i" for q i b
    using that dl by (intro F) auto
  moreover have "st' (pool_path cfg j b) = st (pool_path cfg j b)" if "0 \<le> j" for j b
    using that dl by (intro F) auto
  ultimately have "cache_ok cfg content live (rows, st')"
    using assms(1) by (simp add: cache_ok_def current_def row_ok_def)
  then show ?thesis using e ok by (simp add: update_testdata_def Let_def)
qed

theorem failed_download_keeps_cache_witness:
  "\<exists>st'. update_testdata plain_config (\<lambda>_. False) (\<lambda>k b. (k \<noteq> 7 \<or> b, ''?'')) 1 [sample_row 7 0, sample_row 5 1]
      (fst sample_cache, snd sample_cache) = (False, fst sample_cache, st') \<and>
    cache_ok plain_config sample_content {5} (fst sample_cache, st')"
proof (rule failed_download_keeps_cache [OF sample_cache_ok, where k = 7 and b = False])
  show "7 \<in> set (to_download (plan_td (ProblemTd 1 (fst sample_cache)) [sample_row 7 0, sample_row 5 1]))"
    by code_simp
qed (simp_all add: tds_ok_def row_ok_def sample_row_def)

text \<open>
  A testdata that a problem drops and gets back with its old time stamp is neither downloaded nor linked
  again, though its files are gone: all three updates succeed and the link leads nowhere.
\<close>

lemma testdata_comes_back:
  "(let (ok1, c1) = sample_update [5] sample_cache; (ok2, c2) = sample_update [7] c1; (ok3, c3) = sample_update [5] c2
    in ok1 \<and> ok2 \<and> ok3 \<and> read_file (TdInput plain_config 1 0) (snd c3) = None)"
  by code_simp

text \<open>
  The links belong to the problem and not to a submission: one that was taken with two testdata and waits in the
  queue finds the other testdata in the first place after a message that swaps them, and none in the second
  after a message with one.
\<close>

lemma queued_testdata_change:
  "(let (ok1, c1) = sample_update [5, 7] sample_cache; (ok2, c2) = sample_update [7, 5] c1; (ok3, c3) = sample_update [5] c1
    in ok1 \<and> ok2 \<and> ok3 \<and> read_file (TdInput plain_config 1 0) (snd c1) = Some ''in 5'' \<and>
       read_file (TdInput plain_config 1 1) (snd c1) = Some ''in 7'' \<and>
       read_file (TdInput plain_config 1 0) (snd c2) = Some ''in 7'' \<and>
       read_file (TdInput plain_config 1 1) (snd c3) = None)"
  by code_simp

end
