(* ===== verification/Requests.thy ===== *)
theory Requests
  imports Specjudge
begin

text \<open>
  The outgoing messages of \<open>src/server_io.cpp\<close>: what a message says, \<open>PushRequest\<close> with its queue and its
  at most one waiting request per submission, \<open>CheckUniqueRequests\<close>, the loop that sends, and what a
  connection that opens, closes or answers does to the queues. What is proved: when the iterator of
  \<open>CheckUniqueRequests\<close> is valid, which results a waiting request holds, and what a drain of the queue
  delivers with and without a connection.
\<close>

section \<open>Messages\<close>

record Request =
  is_subscribe :: bool
  is_unique :: bool
  force_pop :: bool
  req_key :: int
  action :: string
  body :: json

definition Request_init :: Request where
  "Request_init = \<lparr>is_subscribe = False, is_unique = False, force_pop = False, req_key = 0, action = '''', body = JNull\<rparr>"

definition kFetchKey :: int where "kFetchKey = -1"
definition kReportQueuedKey :: int where "kReportQueuedKey = -2"

definition kChannelIdentifier :: string where
  "kChannelIdentifier =
     ''{'' @ [CHR 34] @ ''channel'' @ [CHR 34] @ '':'' @ [CHR 34] @ ''FetchChannel'' @ [CHR 34] @ ''}''"

text \<open>\<open>json[key] = value\<close> on an object, or on \<open>null\<close>, which becomes one.\<close>

fun json_set :: "string \<Rightarrow> json \<Rightarrow> json \<Rightarrow> json" where
  "json_set key v (JObject kvs) = JObject ((key, v) # filter (\<lambda>kv. fst kv \<noteq> key) kvs)"
| "json_set key v JNull = JObject [(key, v)]"
| "json_set key v j = j"

text \<open>\<open>dump\<close> is the library's serializer.\<close>

definition ToRequest :: "(json \<Rightarrow> string) \<Rightarrow> Request \<Rightarrow> string" where
  "ToRequest dump r =
     dump (JObject ([(''identifier'', JString kChannelIdentifier),
                     (''command'', JString (if is_subscribe r then ''subscribe'' else ''message''))] @
            (if is_subscribe r then []
             else [(''data'', JString (dump (json_set ''action'' (JString (action r)) (body r))))])))"

text \<open>A verdict in the words of the server: versions before 3.5.0 and 3.5.3 set the flags.\<close>

definition VerdictToAbrCompat :: "bool \<Rightarrow> Verdict \<Rightarrow> string" where
  "VerdictToAbrCompat jce_to_er v = (if jce_to_er \<and> v = JCE then ''ER'' else VerdictToAbr v)"

definition WaitingVerdict :: "bool \<Rightarrow> string" where
  "WaitingVerdict waiting_to_queued = (if waiting_to_queued then ''queued'' else ''waiting'')"

definition OneTdJSON :: "bool \<Rightarrow> TestdataResult \<Rightarrow> int \<Rightarrow> json" where
  "OneTdJSON jce_to_er nowtd position =
     JObject ([(''position'', JInt position), (''verdict'', JString (VerdictToAbrCompat jce_to_er (td_verdict nowtd))),
               (''time'', JInt (td_time nowtd)), (''rss'', JInt (td_rss nowtd)), (''score'', JInt (td_score nowtd)),
               (''vss'', if td_vss nowtd = 0 then JNull else JInt (td_vss nowtd))] @
       (if message nowtd \<noteq> [] then [(''message_type'', JString (message_type nowtd)), (''message'', JString (message nowtd))]
        else []))"

text \<open>The results of one testdata, or with \<open>-1\<close> of all that have a verdict.\<close>

definition TdResultsJSON :: "bool \<Rightarrow> SubmissionResult \<Rightarrow> int \<Rightarrow> error + json list" where
  "TdResultsJSON jce_to_er res k =
     (if k = -1 then
        Inr (map (\<lambda>(i, nowtd). OneTdJSON jce_to_er nowtd (int i))
          (filter (\<lambda>(i, nowtd). td_verdict nowtd \<noteq> NUL) (enumerate 0 (td_results res))))
      else if k < 0 then Inl OutOfRange
      else and_then (guard_some OutOfRange (nth_opt (td_results res) (nat k)))
        (\<lambda>nowtd. Inr [OneTdJSON jce_to_er nowtd k]))"

definition fetch_request :: Request where
  "fetch_request = Request_init\<lparr>is_unique := True, req_key := kFetchKey, action := ''fetch_submission''\<rparr>"

definition subscribe_request :: Request where
  "subscribe_request = Request_init\<lparr>is_subscribe := True\<rparr>"

definition status_request :: "int \<Rightarrow> string \<Rightarrow> Request" where
  "status_request k status =
     Request_init\<lparr>force_pop := True, req_key := k, action := ''submission_result'',
       body := JObject [(''submission_id'', JInt k), (''verdict'', JString status)]\<rparr>"

definition result_request :: "bool \<Rightarrow> int \<Rightarrow> SubmissionResult \<Rightarrow> int \<Rightarrow> error + Request" where
  "result_request jce_to_er sid res k =
     and_then (TdResultsJSON jce_to_er res k) (\<lambda>tds. Inr
       (Request_init\<lparr>is_unique := True, req_key := sid, action := ''td_result'',
          body := JObject [(''submission_id'', JInt sid), (''results'', JArray tds)]\<rparr>))"

definition final_request :: "bool \<Rightarrow> int \<Rightarrow> SubmissionResult \<Rightarrow> error + Request" where
  "final_request jce_to_er sid res =
     and_then (TdResultsJSON jce_to_er res (-1)) (\<lambda>tds.
       let data = JObject [(''submission_id'', JInt sid),
                    (''verdict'', JString (VerdictToAbrCompat jce_to_er (verdict res))),
                    (''score'', JInt (total_score res)), (''total_time'', JInt (total_time res)),
                    (''total_memory'', JInt (total_memory res))];
           data = (if ce_message res \<noteq> [] then json_set ''message'' (JString (ce_message res)) data else data);
           data = (if verdict res = CE \<or> verdict res = CLE then data
                   else if verdict res = JCE then json_set ''message'' (JString (jce_message res)) data
                   else json_set ''td_results'' (JArray tds) data)
       in Inr (Request_init\<lparr>force_pop := True, req_key := sid, action := ''submission_result'', body := data\<rparr>))"

definition queued_request :: "int list \<Rightarrow> Request" where
  "queued_request ids =
     Request_init\<lparr>is_unique := True, req_key := kReportQueuedKey, action := ''report_queued'',
       body := JObject [(''submission_ids'', JArray (map JInt ids))]\<rparr>"

section \<open>The queues\<close>

text \<open>
  Times are nanoseconds of the steady clock. \<open>unsent_timestamps\<close> is a set ordered by time and key, the
  list of its elements here; \<open>unique_requests\<close> holds the waiting request of a key, and
  \<open>unique_timestamp_map\<close> when a request of the key was last sent.
\<close>

record ReqState =
  unsent_timestamps :: "(int \<times> int) list"
  unique_timestamp_map :: "int \<Rightarrow> int option"
  unique_requests :: "int \<Rightarrow> Request option"
  request_queue :: "Request list"
  backup_queue :: "Request list"

definition ReqState_init :: ReqState where
  "ReqState_init = \<lparr>unsent_timestamps = [], unique_timestamp_map = Map.empty, unique_requests = Map.empty,
     request_queue = [], backup_queue = []\<rparr>"

definition kUniqueReqMinInterval :: int where "kUniqueReqMinInterval = 500000000"
definition kFetchMinInterval :: int where "kFetchMinInterval = 200000000"

definition stamp_less :: "int \<times> int \<Rightarrow> int \<times> int \<Rightarrow> bool" where
  "stamp_less x y \<longleftrightarrow> fst x < fst y \<or> fst x = fst y \<and> snd x < snd y"

fun set_insert :: "int \<times> int \<Rightarrow> (int \<times> int) list \<Rightarrow> (int \<times> int) list" where
  "set_insert x [] = [x]"
| "set_insert x (y # ys) = (if x = y then y # ys else if stamp_less x y then x # y # ys else y # set_insert x ys)"

lemma set_set_insert [simp]: "set (set_insert x ys) = insert x (set ys)"
  by (induction ys) auto

text \<open>
  The results of the waiting request go behind those of the new one. Every body with \<open>results\<close> is built
  by \<open>result_request\<close>, with an array; on anything else \<open>push_back\<close> would throw.
\<close>

definition merge_results :: "Request \<Rightarrow> Request \<Rightarrow> Request" where
  "merge_results r waiting =
     (case json_find ''results'' (body r) of
        Some (JArray new) \<Rightarrow>
          (case json_find ''results'' (body waiting) of
             Some (JArray old) \<Rightarrow> r\<lparr>body := json_set ''results'' (JArray (new @ old)) (body r)\<rparr>
           | _ \<Rightarrow> r)
      | _ \<Rightarrow> r)"

definition PushRequest :: "Request \<Rightarrow> ReqState \<Rightarrow> ReqState" where
  "PushRequest r st =
     (let k = req_key r
      in if is_unique r then
           (case unique_requests st k of
              Some waiting \<Rightarrow> st\<lparr>unique_requests := (unique_requests st)(k \<mapsto> merge_results r waiting)\<rparr>
            | None \<Rightarrow>
                (case unique_timestamp_map st k of
                   Some t \<Rightarrow> st\<lparr>unsent_timestamps := set_insert (t, k) (unsent_timestamps st),
                                unique_requests := (unique_requests st)(k \<mapsto> r)\<rparr>
                 | None \<Rightarrow> st\<lparr>unsent_timestamps := set_insert (0, k) (unsent_timestamps st),
                               unique_timestamp_map := (unique_timestamp_map st)(k \<mapsto> 0),
                               unique_requests := (unique_requests st)(k \<mapsto> r)\<rparr>))
         else if force_pop r then
           (let st = (case unique_timestamp_map st k of
                        Some t \<Rightarrow> st\<lparr>unsent_timestamps := filter (\<lambda>x. x \<noteq> (t, k)) (unsent_timestamps st),
                                     unique_requests := (unique_requests st)(k := None)\<rparr>
                      | None \<Rightarrow> st)
            in st\<lparr>request_queue := request_queue st @ [r]\<rparr>)
         else if is_subscribe r then st\<lparr>request_queue := r # request_queue st\<rparr>
         else st\<lparr>request_queue := request_queue st @ [r]\<rparr>)"

text \<open>
  The loop of \<open>CheckUniqueRequests\<close> at the time \<open>now\<close>, over the set from its beginning; \<open>find\<close> may return
  the end iterator.
\<close>

fun check_loop :: "int \<Rightarrow> (int \<times> int) list \<Rightarrow> ReqState \<Rightarrow> error + ReqState" where
  "check_loop now [] st = Inr (st\<lparr>unsent_timestamps := []\<rparr>)"
| "check_loop now ((t, k) # xs) st =
     (if now - kUniqueReqMinInterval \<le> t then Inr (st\<lparr>unsent_timestamps := (t, k) # xs\<rparr>)
      else case unique_requests st k of
             None \<Rightarrow> Inl EndIterator
           | Some r \<Rightarrow> check_loop now xs
               (st\<lparr>request_queue := request_queue st @ [r], unique_requests := (unique_requests st)(k := None)\<rparr>))"

definition CheckUniqueRequests :: "int \<Rightarrow> ReqState \<Rightarrow> error + bool \<times> ReqState" where
  "CheckUniqueRequests now st =
     and_then (check_loop now (unsent_timestamps st) st) (\<lambda>st. Inr (request_queue st \<noteq> [], st))"

definition ResendBackupRequests :: "ReqState \<Rightarrow> ReqState" where
  "ResendBackupRequests st = st\<lparr>request_queue := backup_queue st @ request_queue st, backup_queue := []\<rparr>"

text \<open>
  The head of the queue is taken, at the time \<open>now\<close>: \<open>long ts\<close> cuts the time to whole seconds, and for a
  fetch again after 0.3 seconds are taken off.
\<close>

definition sent_stamp :: "int \<Rightarrow> int \<Rightarrow> int" where
  "sent_stamp now k =
     (let ts = now div 1000000000;
          ts = (if k = kFetchKey
                then trunc (of_int ts - of_int (kUniqueReqMinInterval - kFetchMinInterval) / 1000000000) else ts)
      in ts * 1000000000)"

definition take_request :: "int \<Rightarrow> ReqState \<Rightarrow> (Request \<times> ReqState) option" where
  "take_request now st =
     (case request_queue st of
        [] \<Rightarrow> None
      | r # rs \<Rightarrow>
          let st = (if is_unique r then
                      st\<lparr>unique_timestamp_map := (unique_timestamp_map st)(req_key r \<mapsto> sent_stamp now (req_key r))\<rparr>
                    else if force_pop r then
                      st\<lparr>unique_timestamp_map := (unique_timestamp_map st)(req_key r := None)\<rparr>
                    else st)
          in Some (r, st\<lparr>request_queue := rs\<rparr>))"

section \<open>The sending loop and the connection\<close>

text \<open>
  The lock of the queue is free while the loop waits and while it sends the request it has taken.
  \<open>can_send\<close> is \<open>CanSend()\<close>; \<open>transmitted\<close> are the requests sent over an open connection.
\<close>

datatype phase = Waiting | Sending Request

record Net =
  reqs :: ReqState
  can_send :: bool
  transmitted :: "Request list"

definition Net_init :: Net where
  "Net_init = \<lparr>reqs = ReqState_init, can_send = False, transmitted = []\<rparr>"

text \<open>
  What can happen: another thread pushes; the loop wakes up, where the checks of its condition and its
  first request are at the times given; a request has been sent and the next is taken; the connection
  opens (\<open>OnOpen\<close>), \<open>Close()\<close> is issued, it is closed or fails (\<open>OnClose\<close>, \<open>OnFail\<close>); a message comes
  (\<open>OnMessage\<close>).
\<close>

datatype req_event =
  PushReq Request | WakeUp int int | Sent int | Opened | CloseIssued | Closed | Answered

definition take_next :: "int \<Rightarrow> ReqState \<Rightarrow> phase \<times> ReqState" where
  "take_next now st = (case take_request now st of None \<Rightarrow> (Waiting, st) | Some (r, st) \<Rightarrow> (Sending r, st))"

definition on_open :: "ReqState \<Rightarrow> ReqState" where
  "on_open st = PushRequest fetch_request (PushRequest subscribe_request st)"

text \<open>\<open>wait_for\<close> returns after a while even if its condition is false, and the loop goes on.\<close>

definition wake_up :: "int \<Rightarrow> int \<Rightarrow> Net \<Rightarrow> error + phase \<times> Net" where
  "wake_up now now' n =
     and_then (if can_send n then CheckUniqueRequests now (reqs n) else Inr (False, reqs n)) (\<lambda>(_, st).
       let (ph, st) = take_next now' st in Inr (ph, n\<lparr>reqs := st\<rparr>))"

definition sent :: "Request \<Rightarrow> int \<Rightarrow> Net \<Rightarrow> phase \<times> Net" where
  "sent r now n =
     (let n = (if can_send n then n\<lparr>transmitted := transmitted n @ [r]\<rparr> else n);
          st = (reqs n)\<lparr>backup_queue := backup_queue (reqs n) @ [r]\<rparr>;
          (ph, st) = take_next now st
      in (ph, n\<lparr>reqs := st\<rparr>))"

text \<open>An event that the phase does not allow changes nothing.\<close>

fun run_event :: "req_event \<Rightarrow> phase \<times> Net \<Rightarrow> error + phase \<times> Net" where
  "run_event (PushReq r) (ph, n) = Inr (ph, n\<lparr>reqs := PushRequest r (reqs n)\<rparr>)"
| "run_event (WakeUp now now') (Waiting, n) = wake_up now now' n"
| "run_event (WakeUp now now') (Sending r, n) = Inr (Sending r, n)"
| "run_event (Sent now) (Sending r, n) = Inr (sent r now n)"
| "run_event (Sent now) (Waiting, n) = Inr (Waiting, n)"
| "run_event Opened (ph, n) = Inr (ph, n\<lparr>can_send := True, reqs := on_open (reqs n)\<rparr>)"
| "run_event CloseIssued (ph, n) = Inr (ph, n\<lparr>can_send := False\<rparr>)"
| "run_event Closed (ph, n) = Inr (ph, n\<lparr>can_send := False, reqs := ResendBackupRequests (reqs n)\<rparr>)"
| "run_event Answered (ph, n) = Inr (ph, n\<lparr>reqs := (reqs n)\<lparr>backup_queue := []\<rparr>\<rparr>)"

fun run_events :: "req_event list \<Rightarrow> phase \<times> Net \<Rightarrow> error + phase \<times> Net" where
  "run_events [] s = Inr s"
| "run_events (e # es) s = and_then (run_event e s) (run_events es)"

section \<open>Waiting requests\<close>

text \<open>
  No request of a key is waiting while an earlier one of the key is on its way. The invariant holds as long
  as this is so: every time stamp belongs to a waiting request, and every waiting request has one.
\<close>

definition no_overlap :: "ReqState \<Rightarrow> bool" where
  "no_overlap st \<longleftrightarrow> (\<forall>r \<in> set (request_queue st). is_unique r \<longrightarrow> unique_requests st (req_key r) = None)"

definition stamps_ok :: "(int \<times> int) list \<Rightarrow> ReqState \<Rightarrow> bool" where
  "stamps_ok xs st \<longleftrightarrow> distinct (map snd xs) \<and> snd ` set xs = dom (unique_requests st) \<and>
     (\<forall>(t, k) \<in> set xs. unique_timestamp_map st k = None \<or> unique_timestamp_map st k = Some t) \<and>
     (\<forall>k r. unique_requests st k = Some r \<longrightarrow> is_unique r \<and> req_key r = k)"

definition pending_ok :: "ReqState \<Rightarrow> bool" where
  "pending_ok st \<longleftrightarrow> stamps_ok (unsent_timestamps st) st"

lemma merge_results_key [simp]:
  "is_unique (merge_results r w) = is_unique r" "req_key (merge_results r w) = req_key r"
  by (simp_all add: merge_results_def split: option.splits json.splits)

lemma distinct_set_insert:
  "distinct (map snd ys) \<Longrightarrow> snd x \<notin> snd ` set ys \<Longrightarrow> distinct (map snd (set_insert x ys))"
  by (induction ys) auto

lemma filter_stamp:
  assumes "\<And>a. (a, k) \<in> set xs \<Longrightarrow> a = t"
  shows "snd ` set (filter (\<lambda>x. x \<noteq> (t, k)) xs) = snd ` set xs - {k}"
proof
  show "snd ` set (filter (\<lambda>x. x \<noteq> (t, k)) xs) \<subseteq> snd ` set xs - {k}" using assms by auto
  show "snd ` set xs - {k} \<subseteq> snd ` set (filter (\<lambda>x. x \<noteq> (t, k)) xs)"
  proof
    fix j assume "j \<in> snd ` set xs - {k}"
    then obtain a where "(a, j) \<in> set xs" "j \<noteq> k" by auto
    then have "(a, j) \<in> set (filter (\<lambda>x. x \<noteq> (t, k)) xs)" by simp
    then show "j \<in> snd ` set (filter (\<lambda>x. x \<noteq> (t, k)) xs)" by (rule image_eqI [rotated]) simp
  qed
qed

lemma PushRequest_pending: "pending_ok st \<Longrightarrow> pending_ok (PushRequest r st)"
proof -
  assume p: "pending_ok st"
  note P = p [unfolded pending_ok_def stamps_ok_def]
  show ?thesis
  proof (cases "is_unique r")
    case True
    show ?thesis
    proof (cases "unique_requests st (req_key r)")
      case (Some w)
      then show ?thesis using P True by (auto simp: PushRequest_def pending_ok_def stamps_ok_def Let_def)
    next
      case None
      then have n: "req_key r \<notin> snd ` set (unsent_timestamps st)" using P by auto
      then have "(a, req_key r) \<notin> set (unsent_timestamps st)" for a by force
      with n show ?thesis using P True None
        by (auto simp: PushRequest_def pending_ok_def stamps_ok_def Let_def distinct_set_insert split: option.splits)
    qed
  next
    case False
    show ?thesis
    proof (cases "force_pop r \<and> unique_timestamp_map st (req_key r) \<noteq> None")
      case True
      then obtain t where t: "unique_timestamp_map st (req_key r) = Some t" by auto
      let ?xs = "filter (\<lambda>x. x \<noteq> (t, req_key r)) (unsent_timestamps st)"
      have "distinct (map snd ?xs)" using P by (simp add: distinct_map_filter)
      moreover have "snd ` set ?xs = snd ` set (unsent_timestamps st) - {req_key r}"
        using P t by (intro filter_stamp) auto
      ultimately show ?thesis using P True False t
        by (auto simp: PushRequest_def pending_ok_def stamps_ok_def Let_def)
    next
      case other: False
      then show ?thesis using P False
        by (auto simp: PushRequest_def pending_ok_def stamps_ok_def Let_def split: option.splits)
    qed
  qed
qed

lemma check_loop_pending:
  assumes "stamps_ok xs st" "no_overlap st"
  shows "\<exists>st'. check_loop now xs st = Inr st' \<and> pending_ok st' \<and> no_overlap st' \<and>
    (\<forall>k r. unique_requests st k = Some r \<longrightarrow> unique_requests st' k = Some r \<or> r \<in> set (request_queue st')) \<and>
    set (request_queue st) \<subseteq> set (request_queue st')"
  using assms
proof (induction now xs st rule: check_loop.induct)
  case (1 now st)
  then show ?case by (simp add: pending_ok_def stamps_ok_def no_overlap_def)
next
  case (2 now t k xs st)
  show ?case
  proof (cases "now - kUniqueReqMinInterval \<le> t")
    case True
    then show ?thesis using 2(2,3) by (simp add: pending_ok_def stamps_ok_def no_overlap_def)
  next
    case False
    note S = 2(2) [unfolded stamps_ok_def]
    have "k \<in> dom (unique_requests st)" using S by auto
    then obtain r where r: "unique_requests st k = Some r" by auto
    let ?st = "st\<lparr>request_queue := request_queue st @ [r], unique_requests := (unique_requests st)(k := None)\<rparr>"
    have "stamps_ok xs ?st" unfolding stamps_ok_def using S by auto
    moreover have "no_overlap ?st" using 2(3) S r by (auto simp: no_overlap_def)
    ultimately obtain st' where st': "check_loop now xs ?st = Inr st'" "pending_ok st'" "no_overlap st'"
        "\<forall>k r. unique_requests ?st k = Some r \<longrightarrow> unique_requests st' k = Some r \<or> r \<in> set (request_queue st')"
        "set (request_queue ?st) \<subseteq> set (request_queue st')"
      using 2(1) [OF False r] by blast
    have "check_loop now ((t, k) # xs) st = Inr st'" using False r st'(1) by simp
    moreover have "unique_requests st' l = Some q \<or> q \<in> set (request_queue st')" if "unique_requests st l = Some q" for l q
      using that st'(4,5) r by (cases "l = k") auto
    moreover have "set (request_queue st) \<subseteq> set (request_queue st')" using st'(5) by simp
    ultimately show ?thesis using st'(2,3) by blast
  qed
qed

lemma take_next_pending: "pending_ok st \<Longrightarrow> no_overlap st \<Longrightarrow> pending_ok (snd (take_next now st))"
proof (cases "request_queue st")
  case (Cons r rs)
  assume p: "pending_ok st" and c: "no_overlap st"
  show ?thesis
  proof (cases "is_unique r")
    case True
    then have "unique_requests st (req_key r) = None" using c Cons by (simp add: no_overlap_def)
    then have "(t, req_key r) \<notin> set (unsent_timestamps st)" for t
      using p by (force simp: pending_ok_def stamps_ok_def)
    then show ?thesis using p True Cons
      by (auto simp: take_next_def take_request_def pending_ok_def stamps_ok_def)
  next
    case False
    then show ?thesis using p Cons
      by (auto simp: take_next_def take_request_def pending_ok_def stamps_ok_def)
  qed
qed (simp add: take_next_def take_request_def)

lemma pending_queues: "pending_ok (st\<lparr>request_queue := q, backup_queue := b\<rparr>) = pending_ok st"
  "pending_ok (st\<lparr>backup_queue := b\<rparr>) = pending_ok st" "pending_ok (st\<lparr>request_queue := q\<rparr>) = pending_ok st"
  by (simp_all add: pending_ok_def stamps_ok_def)

lemma wake_up_pending:
  assumes "pending_ok (reqs n)" "no_overlap (reqs n)"
  shows "\<exists>ph n'. wake_up now now' n = Inr (ph, n') \<and> pending_ok (reqs n')"
proof -
  obtain b st where st: "(if can_send n then CheckUniqueRequests now (reqs n) else Inr (False, reqs n)) = Inr (b, st)"
      "pending_ok st" "no_overlap st"
  proof (cases "can_send n")
    case True
    from check_loop_pending [OF assms(1) [unfolded pending_ok_def] assms(2), of now] that True show ?thesis
      by (auto simp: CheckUniqueRequests_def)
  qed (use assms that in simp)
  then show ?thesis using take_next_pending [OF st(2,3), of now']
    by (auto simp: wake_up_def split: prod.splits)
qed

lemma run_event_pending:
  assumes "pending_ok (reqs n)" "no_overlap (reqs n)"
  shows "\<exists>ph' n'. run_event e (ph, n) = Inr (ph', n') \<and> pending_ok (reqs n')"
proof (cases e)
  case (WakeUp now now')
  then show ?thesis using wake_up_pending [OF assms, of now now'] assms by (cases ph) simp_all
next
  case (Sent now)
  show ?thesis
  proof (cases ph)
    case (Sending r)
    let ?st = "(reqs n)\<lparr>backup_queue := backup_queue (reqs n) @ [r]\<rparr>"
    have "pending_ok ?st" "no_overlap ?st" using assms by (simp_all add: pending_queues no_overlap_def)
    from take_next_pending [OF this, of now] show ?thesis
      using Sent Sending by (auto simp: sent_def Let_def split: prod.splits)
  qed (use assms Sent in simp)
qed (use assms in \<open>auto simp: PushRequest_pending on_open_def ResendBackupRequests_def pending_queues\<close>)

definition net_init :: "phase \<times> Net \<Rightarrow> bool" where
  "net_init s \<longleftrightarrow> s = (Waiting, Net_init)"

definition quiet_step :: "phase \<times> Net \<Rightarrow> phase \<times> Net \<Rightarrow> bool" where
  "quiet_step s s' \<longleftrightarrow> (\<exists>e. run_event e s = Inr s' \<and> no_overlap (reqs (snd s')))"

interpretation net: invariant_system net_init quiet_step "\<lambda>s. pending_ok (reqs (snd s)) \<and> no_overlap (reqs (snd s))"
proof
  fix s :: "phase \<times> Net"
  assume "net_init s"
  then show "pending_ok (reqs (snd s)) \<and> no_overlap (reqs (snd s))"
    by (simp add: net_init_def Net_init_def ReqState_init_def pending_ok_def stamps_ok_def no_overlap_def)
next
  fix s s' :: "phase \<times> Net"
  assume i: "pending_ok (reqs (snd s)) \<and> no_overlap (reqs (snd s))" and st: "quiet_step s s'"
  from st obtain e where "run_event e (fst s, snd s) = Inr s'" "no_overlap (reqs (snd s'))" by (auto simp: quiet_step_def)
  then show "pending_ok (reqs (snd s')) \<and> no_overlap (reqs (snd s'))"
    using run_event_pending [of "snd s" e "fst s"] i by auto
qed

section \<open>Draining the queue\<close>

lemma run_events_step: "run_event e s = Inr s' \<Longrightarrow> run_events (e # es) s = run_events es s'"
  by simp

lemma drain_loop:
  "request_queue (reqs n) = rs \<Longrightarrow>
   \<exists>n'. run_events (replicate (Suc (length rs)) (Sent t)) (Sending r, n) = Inr (Waiting, n') \<and>
     transmitted n' = transmitted n @ (if can_send n then r # rs else []) \<and>
     backup_queue (reqs n') = backup_queue (reqs n) @ r # rs \<and>
     request_queue (reqs n') = [] \<and> can_send n' = can_send n \<and> unique_requests (reqs n') = unique_requests (reqs n)"
proof (induction rs arbitrary: n r)
  case Nil
  then show ?case by (simp add: sent_def take_next_def take_request_def Let_def)
next
  case (Cons q rs)
  define n1 where "n1 = snd (sent r t n)"
  have n1: "sent r t n = (Sending q, n1)" "request_queue (reqs n1) = rs" "can_send n1 = can_send n"
      "transmitted n1 = transmitted n @ (if can_send n then [r] else [])"
      "backup_queue (reqs n1) = backup_queue (reqs n) @ [r]" "unique_requests (reqs n1) = unique_requests (reqs n)"
    using Cons.prems by (simp_all add: n1_def sent_def take_next_def take_request_def Let_def)
  obtain n' where n': "run_events (replicate (Suc (length rs)) (Sent t)) (Sending q, n1) = Inr (Waiting, n')"
      "transmitted n' = transmitted n1 @ (if can_send n1 then q # rs else [])"
      "backup_queue (reqs n') = backup_queue (reqs n1) @ q # rs" "request_queue (reqs n') = []"
      "can_send n' = can_send n1" "unique_requests (reqs n') = unique_requests (reqs n1)"
    using Cons.IH [OF n1(2)] by blast
  have "run_events (replicate (Suc (length (q # rs))) (Sent t)) (Sending r, n) = Inr (Waiting, n')"
    using run_events_step [of "Sent t" "(Sending r, n)" "(Sending q, n1)"] n1(1) n'(1) by simp
  then show ?case using n' n1 by auto
qed

lemma wake_up_drain:
  assumes "(if can_send n then CheckUniqueRequests t (reqs n) else Inr (False, reqs n)) = Inr (b, st)"
  shows "\<exists>n'. run_events (WakeUp t t # replicate (length (request_queue st)) (Sent t)) (Waiting, n) = Inr (Waiting, n') \<and>
     transmitted n' = transmitted n @ (if can_send n then request_queue st else []) \<and>
     backup_queue (reqs n') = backup_queue st @ request_queue st \<and>
     request_queue (reqs n') = [] \<and> can_send n' = can_send n \<and> unique_requests (reqs n') = unique_requests st"
proof (cases "request_queue st")
  case Nil
  then show ?thesis using assms by (simp add: wake_up_def take_next_def take_request_def)
next
  case (Cons r rs)
  define st' where "st' = snd (take_next t st)"
  have st': "take_next t st = (Sending r, st')" "request_queue st' = rs"
      "backup_queue st' = backup_queue st" "unique_requests st' = unique_requests st"
    using Cons by (simp_all add: st'_def take_next_def take_request_def Let_def)
  have e: "run_event (WakeUp t t) (Waiting, n) = Inr (Sending r, n\<lparr>reqs := st'\<rparr>)"
    using assms st'(1) by (simp add: wake_up_def)
  from drain_loop [of "n\<lparr>reqs := st'\<rparr>" rs t r] st'(2) obtain n' where
    "run_events (replicate (Suc (length rs)) (Sent t)) (Sending r, n\<lparr>reqs := st'\<rparr>) = Inr (Waiting, n')"
    "transmitted n' = transmitted n @ (if can_send n then r # rs else [])"
    "backup_queue (reqs n') = backup_queue st' @ r # rs" "request_queue (reqs n') = []"
    "can_send n' = can_send n" "unique_requests (reqs n') = unique_requests st'" by auto
  then show ?thesis
    unfolding run_events_step [OF e] Cons using st'(3,4) by (intro exI [of _ n']) simp
qed

section \<open>Properties\<close>

definition sample_result :: Request where
  "sample_result = Request_init\<lparr>is_unique := True, req_key := 5, action := ''td_result'',
     body := JObject [(''submission_id'', JInt 5), (''results'', JArray [JInt 1])]\<rparr>"

definition sample_final :: Request where
  "sample_final = status_request 5 ''AC''"



text \<open>
  C12: With a connection the loop transmits the queue in its order; without one it transmits nothing and empties
  the queue all the same, and when the next connection gets its first message the requests are gone.
\<close>

theorem drain_outcome:
  assumes "(if can_send n then CheckUniqueRequests t (reqs n) else Inr (False, reqs n)) = Inr (b, st)"
  shows "\<exists>n' n''. run_events (WakeUp t t # replicate (length (request_queue st)) (Sent t)) (Waiting, n) = Inr (Waiting, n') \<and>
    transmitted n' = transmitted n @ (if can_send n then request_queue st else []) \<and>
    run_events [Opened, Answered] (Waiting, n') = Inr (Waiting, n'') \<and>
    transmitted n'' = transmitted n' \<and> request_queue (reqs n'') = [subscribe_request] \<and> backup_queue (reqs n'') = []"
proof -
  obtain n' where n': "run_events (WakeUp t t # replicate (length (request_queue st)) (Sent t)) (Waiting, n) = Inr (Waiting, n')"
      "transmitted n' = transmitted n @ (if can_send n then request_queue st else [])" "request_queue (reqs n') = []"
    using wake_up_drain [OF assms] by blast
  have "request_queue (on_open (reqs n')) = [subscribe_request]"
    using n'(3) by (simp add: on_open_def PushRequest_def subscribe_request_def fetch_request_def Request_init_def
        Let_def split: option.splits)
  moreover define n'' where "n'' = n'\<lparr>can_send := True, reqs := (on_open (reqs n'))\<lparr>backup_queue := []\<rparr>\<rparr>"
  ultimately have "run_events [Opened, Answered] (Waiting, n') = Inr (Waiting, n'')" "transmitted n'' = transmitted n'"
    "request_queue (reqs n'') = [subscribe_request]" "backup_queue (reqs n'') = []" by simp_all
  with n'(1,2) show ?thesis by blast
qed

theorem drain_outcome_witness:
  "\<exists>n''. and_then (run_events [WakeUp 0 0, Sent 0] (Waiting, Net_init\<lparr>reqs := PushRequest sample_final ReqState_init\<rparr>))
      (run_events [Opened, Answered]) = Inr (Waiting, n'') \<and>
    transmitted n'' = [] \<and> request_queue (reqs n'') = [subscribe_request] \<and> backup_queue (reqs n'') = []"
proof -
  let ?n = "Net_init\<lparr>reqs := PushRequest sample_final ReqState_init\<rparr>"
  have c: "\<not> can_send ?n" "transmitted ?n = []" by (simp_all add: Net_init_def)
  have q: "request_queue (reqs ?n) = [sample_final]"
    by (simp add: PushRequest_def sample_final_def status_request_def Request_init_def ReqState_init_def Let_def)
  have "(if can_send ?n then CheckUniqueRequests 0 (reqs ?n) else Inr (False, reqs ?n)) = Inr (False, reqs ?n)"
    using c by simp
  from drain_outcome [OF this] obtain n' n'' where
    "run_events (WakeUp 0 0 # replicate (length (request_queue (reqs ?n))) (Sent 0)) (Waiting, ?n) = Inr (Waiting, n')"
    "transmitted n' = transmitted ?n @ (if can_send ?n then request_queue (reqs ?n) else [])"
    "run_events [Opened, Answered] (Waiting, n') = Inr (Waiting, n'')" "transmitted n'' = transmitted n'"
    "request_queue (reqs n'') = [subscribe_request]" "backup_queue (reqs n'') = []" by blast
  then have "and_then (run_events [WakeUp 0 0, Sent 0] (Waiting, ?n)) (run_events [Opened, Answered]) = Inr (Waiting, n'')"
    "transmitted n'' = []" using q c by (simp_all del: run_events.simps)
  then show ?thesis using \<open>request_queue (reqs n'') = _\<close> \<open>backup_queue (reqs n'') = _\<close> by blast
qed

text \<open>
  A result that is pushed while an earlier one of the submission is on its way, and then the final result:
  the time stamp stays behind without a request, and the next check uses the end iterator.
\<close>

lemma overlapping_request_dangles:
  "(case run_events
      [Opened, PushReq sample_result, WakeUp 10000000000 10000000000, PushReq sample_result,
       Sent 10000000000, Sent 10000000000, PushReq sample_final, Sent 10000000000, Sent 10000000000,
       WakeUp 11000000000 11000000000] (Waiting, Net_init) of
      Inl e \<Rightarrow> e = EndIterator | Inr s \<Rightarrow> False)"
  by code_simp

text \<open>
  The time stamps are cut to whole seconds: two results of a submission are sent 50 milliseconds apart,
  not half a second.
\<close>

lemma interval_not_kept:
  "(case run_events
      [Opened, WakeUp 5000000000 5000000000, Sent 5000000000, Sent 5000000000,
       PushReq sample_result, WakeUp 10900000000 10900000000, Sent 10900000000,
       PushReq sample_result, WakeUp 10950000000 10950000000, Sent 10950000000] (Waiting, Net_init) of
      Inl e \<Rightarrow> False | Inr s \<Rightarrow> map req_key (transmitted (snd s)) = [0, -1, 5, 5])"
  by code_simp

end
