(* ===== verification/Intake.thy ===== *)
theory Intake
  imports Base64 TdCache Requests Push
begin

text \<open>
  Receiving a submission: \<open>DealOneSubmission\<close> and \<open>OneSubmissionThread\<close> of \<open>src/server_io.cpp\<close>, from the
  message of the server to \<open>PushSubmission\<close>. What is proved: what is pushed is what \<open>PushSubmission\<close> relies
  on (stages, problem programs and groups in range, sizes that are not negative), and the queue stays
  within its bound.
\<close>

section \<open>Reading JSON\<close>

text \<open>
  \<open>operator[]\<close> with a key: a missing member, or any member of \<open>null\<close>, reads as \<open>null\<close>; other values throw,
  which is \<open>None\<close>. The members \<open>operator[]\<close> inserts are never looked at again.
\<close>

fun json_get :: "string \<Rightarrow> json \<Rightarrow> json option" where
  "json_get key (JObject kvs) = Some (case map_of kvs key of None \<Rightarrow> JNull | Some v \<Rightarrow> v)"
| "json_get key JNull = Some JNull"
| "json_get key _ = None"

text \<open>\<open>value(key, default)\<close>.\<close>

fun json_value :: "(json \<Rightarrow> 'a option) \<Rightarrow> string \<Rightarrow> 'a \<Rightarrow> json \<Rightarrow> 'a option" where
  "json_value get key d (JObject kvs) = (case map_of kvs key of None \<Rightarrow> Some d | Some v \<Rightarrow> get v)"
| "json_value get key d _ = None"

text \<open>
  \<open>get<int>()\<close> takes numbers and booleans and cuts to 32 bits; a \<open>double\<close> is truncated, out of range to the
  smallest \<open>int\<close>. \<open>get<long>()\<close> and \<open>get<int64_t>()\<close> are \<open>json_long\<close>.
\<close>

fun json_int :: "json \<Rightarrow> int option" where
  "json_int (JInt n) = Some (narrow_int n)"
| "json_int (JBool b) = Some (if b then 1 else 0)"
| "json_int (JFloat q) = Some (if - (2 ^ 31) \<le> trunc q \<and> trunc q < 2 ^ 31 then trunc q else - (2 ^ 31))"
| "json_int _ = None"

fun json_bool :: "json \<Rightarrow> bool option" where
  "json_bool (JBool b) = Some b"
| "json_bool _ = None"

fun json_string :: "json \<Rightarrow> string option" where
  "json_string (JString s) = Some s"
| "json_string _ = None"

fun map_all :: "('a \<Rightarrow> 'b option) \<Rightarrow> 'a list \<Rightarrow> 'b list option" where
  "map_all f [] = Some []"
| "map_all f (x # xs) = do { y \<leftarrow> f x; ys \<leftarrow> map_all f xs; Some (y # ys) }"

text \<open>\<open>get<std::vector<T>>()\<close> takes arrays only; \<open>get<std::set<int>>()\<close> is the sorted list of the elements.\<close>

fun json_list :: "(json \<Rightarrow> 'a option) \<Rightarrow> json \<Rightarrow> 'a list option" where
  "json_list get (JArray xs) = map_all get xs"
| "json_list get _ = None"

definition json_int_set :: "json \<Rightarrow> int list option" where
  "json_int_set j = map_option (\<lambda>xs. remdups (sort xs)) (json_list json_int j)"

text \<open>
  The elements of an array as the loops over \<open>size()\<close> and \<open>operator[]\<close> see them: \<open>null\<close> and an empty object
  have none, and indexing anything else throws. A range-based loop goes over the members of an object and
  takes a value that is no container as its only element.
\<close>

fun json_items :: "json \<Rightarrow> json list option" where
  "json_items (JArray xs) = Some xs"
| "json_items JNull = Some []"
| "json_items (JObject kvs) = (if kvs = [] then Some [] else None)"
| "json_items _ = None"

fun json_range :: "json \<Rightarrow> json list" where
  "json_range (JArray xs) = xs"
| "json_range (JObject kvs) = map snd kvs"
| "json_range JNull = []"
| "json_range j = [j]"

definition get_at :: "(json \<Rightarrow> 'a option) \<Rightarrow> string \<Rightarrow> json \<Rightarrow> 'a option" where
  "get_at get key j = do { v \<leftarrow> json_get key j; get v }"

section \<open>The submission\<close>

text \<open>
  The enumerations are cast from an \<open>int\<close>; a number without an enumerator gives a value without a name,
  which the model does not follow.
\<close>

definition SpecjudgeType_of_int :: "int \<Rightarrow> SpecjudgeType option" where
  "SpecjudgeType_of_int n =
     (if n = 0 then Some NORMAL else if n = 1 then Some SPECJUDGE_OLD else if n = 2 then Some SPECJUDGE_NEW
      else if n = 3 then Some SPECJUDGE_POLYGON else if n = 4 then Some SPECJUDGE_KATTIS
      else if n = 5 then Some SKIP else None)"

definition InterlibType_of_int :: "int \<Rightarrow> InterlibType option" where
  "InterlibType_of_int n = (if n = 0 then Some Interlib_NONE else if n = 1 then Some Interlib_INCLUDE else None)"

definition SummaryType_of_int :: "int \<Rightarrow> SummaryType option" where
  "SummaryType_of_int n = (if n = 0 then Some Summary_NONE else if n = 1 then Some Summary_CUSTOM else None)"

text \<open>
  What has been read: the submission with its enumerations still numbers, and the files written to the
  temporary directory.
\<close>

record Parsed =
  p_sub :: Submission
  p_specjudge :: int
  p_interlib :: int
  p_summary :: int
  p_files :: "(string \<times> string) list"

definition Parsed_init :: Parsed where
  "Parsed_init = \<lparr>p_sub = Submission_init 0 0 False, p_specjudge = 0, p_interlib = 0, p_summary = 0, p_files = []\<rparr>"

definition decoded_code :: "string \<Rightarrow> string" where
  "decoded_code s = map (\<lambda>b. char_of (unat b)) (OutputBase64 (map of_char s))"

definition parse_user :: "json \<Rightarrow> Parsed \<Rightarrow> Parsed option" where
  "parse_user data p = do {
     sid \<leftarrow> get_at json_int ''submission_id'' data;
     cid \<leftarrow> get_at json_int ''contest_id'' data;
     prio \<leftarrow> get_at json_long ''priority'' data;
     compiler \<leftarrow> get_at json_string ''compiler'' data;
     tm \<leftarrow> get_at json_long ''time'' data;
     skip \<leftarrow> json_value json_bool ''skip_group'' False data;
     code \<leftarrow> get_at json_string ''code_base64'' data;
     user \<leftarrow> json_get ''user'' data;
     uid \<leftarrow> get_at json_int ''id'' user;
     name \<leftarrow> get_at json_string ''name'' user;
     nick \<leftarrow> get_at json_string ''nickname'' user;
     Some (p\<lparr>p_sub := (p_sub p)\<lparr>submission_id := sid, contest_id := cid, priority := prio,
                lang := GetCompiler compiler, submission_time := tm, skip_group := skip,
                submitter_id := uid, submitter_name := name, submitter_nickname := nick\<rparr>,
              p_files := p_files p @ [(''code'', decoded_code code)]\<rparr>) }"

definition parse_programs :: "json \<Rightarrow> Parsed \<Rightarrow> Parsed option" where
  "parse_programs problem p = do {
     pid \<leftarrow> get_at json_int ''id'' problem;
     strict \<leftarrow> get_at json_bool ''strict_mode'' problem;
     n \<leftarrow> get_at json_int ''num_stages'' problem;
     ps \<leftarrow> json_value json_int_set ''problem_prog_stages'' [] problem;
     let ns = max 1 (min n 32);
         sb = (p_sub p)\<lparr>problem_id := pid, sandbox_strict := strict, stages := ns, problem_prog_stages := ps\<rparr>
     in if list_ex (\<lambda>s. s < 0 \<or> ns \<le> s) ps then None
        else if ps = [] then Some (p\<lparr>p_sub := sb\<rparr>)
        else do {
          compiler \<leftarrow> get_at json_string ''problem_prog_compiler'' problem;
          code \<leftarrow> get_at json_string ''problem_prog_code'' problem;
          Some (p\<lparr>p_sub := sb\<lparr>problem_prog_lang := GetCompiler compiler\<rparr>,
                   p_files := p_files p @ [(''probprog'', code)]\<rparr>) } }"

definition parse_specjudge :: "json \<Rightarrow> Parsed \<Rightarrow> Parsed option" where
  "parse_specjudge problem p = do {
     ty \<leftarrow> get_at json_int ''specjudge_type'' problem;
     if ty = 0 then do {
       args \<leftarrow> get_at (json_list json_string) ''default_scoring_args'' problem;
       Some (p\<lparr>p_specjudge := ty, p_sub := (p_sub p)\<lparr>default_scoring_args := args\<rparr>\<rparr>) }
     else do {
       compiler \<leftarrow> get_at json_string ''specjudge_compiler'' problem;
       between \<leftarrow> get_at json_bool ''judge_between_stages'' problem;
       code \<leftarrow> get_at json_string ''sjcode'' problem;
       args \<leftarrow> get_at json_string ''specjudge_compile_args'' problem;
       abn \<leftarrow> json_value json_bool ''judge_abnormally_terminated'' (ty = 2) problem;
       re_as_wa \<leftarrow> json_value json_bool ''judge_re_as_wa'' True problem;
       Some (p\<lparr>p_specjudge := ty,
               p_sub := (p_sub p)\<lparr>specjudge_lang := GetCompiler compiler, judge_between_stages := between,
                 specjudge_compile_args := args, judge_abnormally_terminated := abn, specjudge_re_as_wa := re_as_wa\<rparr>,
               p_files := p_files p @ [(''sjcode'', code)]\<rparr>) } }"

definition parse_interlib :: "json \<Rightarrow> Parsed \<Rightarrow> Parsed option" where
  "parse_interlib problem p = do {
     ty \<leftarrow> get_at json_int ''interlib_type'' problem;
     if ty = 0 then Some (p\<lparr>p_interlib := ty\<rparr>)
     else do {
       lib \<leftarrow> get_at json_string ''interlib'' problem;
       impl \<leftarrow> get_at json_string ''interlib_impl'' problem;
       Some (p\<lparr>p_interlib := ty, p_files := p_files p @ [(''interlib'', lib), (''interlib_impl'', impl)]\<rparr>) } }"

definition parse_summary :: "json \<Rightarrow> Parsed \<Rightarrow> Parsed option" where
  "parse_summary problem p = do {
     ty \<leftarrow> json_value json_int ''summary_type'' 0 problem;
     if ty = 0 then Some (p\<lparr>p_summary := ty\<rparr>)
     else do {
       compiler \<leftarrow> get_at json_string ''summary_compiler'' problem;
       code \<leftarrow> get_at json_string ''summary_code'' problem;
       Some (p\<lparr>p_summary := ty, p_sub := (p_sub p)\<lparr>summary_lang := GetCompiler compiler\<rparr>,
               p_files := p_files p @ [(''summary'', code)]\<rparr>) } }"

section \<open>Testdata and groups\<close>

text \<open>The limits of a testdata; Haskell programs get their limit of virtual memory as one of resident memory.\<close>

definition parse_td :: "Config \<Rightarrow> int \<Rightarrow> Compiler \<Rightarrow> int \<Rightarrow> json \<Rightarrow> (Testdata \<times> TestdataItem) option" where
  "parse_td cfg prob lng i item = do {
     k \<leftarrow> get_at json_int ''id'' item;
     ts \<leftarrow> get_at json_long ''updated_at'' item;
     inz \<leftarrow> json_value json_bool ''input_compressed'' False item;
     outz \<leftarrow> json_value json_bool ''output_compressed'' False item;
     tm \<leftarrow> get_at json_long ''time'' item;
     v \<leftarrow> get_at json_long ''vss'' item;
     r \<leftarrow> get_at json_long ''rss'' item;
     out \<leftarrow> get_at json_long ''output'' item;
     ign \<leftarrow> get_at json_bool ''verdict_ignore'' item;
     let vss = max v 0; rss = max r 0; haskell = (lng = HASKELL \<and> vss > 0)
     in Some
       (\<lparr>row_id = k, row_problem = prob, row_order = i, row_timestamp = ts,
         row_input_compressed = inz, row_output_compressed = outz\<rparr>,
        \<lparr>input_file = TdInput cfg prob i, answer_file = TdAnswer cfg prob i,
         lim_vss = (if haskell then 0 else vss),
         lim_rss = (if haskell then (if rss = 0 then vss else min vss rss) else rss),
         lim_output = max out 0, lim_time = tm, ignore_verdict = ign, td_groups = []\<rparr>) }"

definition parse_testdata :: "Config \<Rightarrow> int \<Rightarrow> Compiler \<Rightarrow> json \<Rightarrow> (Testdata \<times> TestdataItem) list option" where
  "parse_testdata cfg prob lng data = do {
     td \<leftarrow> json_get ''td'' data;
     items \<leftarrow> json_items td;
     map_all (\<lambda>(i, item). parse_td cfg prob lng (int i) item) (enumerate 0 items) }"

text \<open>The task with the index \<open>i\<close> puts its testdata into the group \<open>i\<close>.\<close>

fun add_positions :: "int \<Rightarrow> json list \<Rightarrow> TestdataItem list \<Rightarrow> TestdataItem list option" where
  "add_positions g [] tds = Some tds"
| "add_positions g (x # xs) tds = do {
     p \<leftarrow> json_int x;
     if p < 0 \<or> int (length tds) \<le> p then None
     else add_positions g xs (tds[nat p := (tds ! nat p)\<lparr>td_groups := td_groups (tds ! nat p) @ [g]\<rparr>]) }"

fun add_groups :: "int \<Rightarrow> json list \<Rightarrow> TestdataItem list \<Rightarrow> (TestdataItem list \<times> int list) option" where
  "add_groups g [] tds = Some (tds, [])"
| "add_groups g (item # items) tds = do {
     ps \<leftarrow> json_get ''positions'' item;
     tds \<leftarrow> add_positions g (json_range ps) tds;
     score \<leftarrow> get_at json_long ''score'' item;
     (tds, scores) \<leftarrow> add_groups (g + 1) items tds;
     Some (tds, score # scores) }"

text \<open>The \<open>try\<close> block; \<open>haskell_limit\<close> is the build option \<open>HASKELL_PROCESS_LIMIT\<close>.\<close>

definition raise_process_limit :: "int \<Rightarrow> Submission \<Rightarrow> Submission" where
  "raise_process_limit haskell_limit sb =
     (if lang sb = HASKELL then sb\<lparr>process_limit := max (process_limit sb) haskell_limit\<rparr> else sb)"

definition parse_submission :: "Config \<Rightarrow> int \<Rightarrow> json \<Rightarrow> (Parsed \<times> Testdata list) option" where
  "parse_submission cfg haskell_limit data = do {
     p \<leftarrow> parse_user data Parsed_init;
     problem \<leftarrow> json_get ''problem'' data;
     p \<leftarrow> parse_programs problem p;
     p \<leftarrow> parse_specjudge problem p;
     p \<leftarrow> parse_interlib problem p;
     p \<leftarrow> parse_summary problem p;
     tds \<leftarrow> parse_testdata cfg (problem_id (p_sub p)) (lang (p_sub p)) data;
     tasks \<leftarrow> json_get ''tasks'' data;
     items \<leftarrow> json_items tasks;
     grouped \<leftarrow> add_groups 0 items (map snd tds);
     Some (p\<lparr>p_sub := (raise_process_limit haskell_limit (p_sub p))
                \<lparr>testdata := fst grouped, group_score := snd grouped\<rparr>\<rparr>, map fst tds) }"

section \<open>Dealing with a submission\<close>

text \<open>
  The state the server's threads share: the counter of internal ids, the testdata, the scheduler and the
  outgoing requests; \<open>fs_log\<close> records the other calls on files. What a call meets: the temporary directory
  \<open>mkdtemp\<close> gives, the paths the system refuses, the downloads, and the flags and options set before.
\<close>

record Server =
  seq :: int
  cache :: "Testdata list \<times> files"
  sched :: JState
  outgoing :: ReqState
  fs_log :: "fs_op list"

record DealEnv =
  tempdir :: "path option"
  refused :: "path \<Rightarrow> bool"
  downloads :: server
  haskell_limit :: int
  waiting_to_queued :: bool

datatype deal = Failed | Dealt | NoEnumerator

definition server_reporter :: Reporter where
  "server_reporter = no_reporter\<lparr>ReportStartCompiling := True, ReportOverallResult := True,
     ReportScoringResult := True, ReportFinalized := True\<rparr>"

definition GetUniqueSubmissionInternalId :: "Server \<Rightarrow> int \<times> Server" where
  "GetUniqueSubmissionInternalId s = (seq s + 1, s\<lparr>seq := seq s + 1\<rparr>)"

definition move_files :: "Config \<Rightarrow> path \<Rightarrow> int \<Rightarrow> Parsed \<Rightarrow> fs_op list" where
  "move_files cfg tmp iid p =
     [FsCreateDirs (SubmissionCodePath cfg iid) None, FsMove (path_div tmp ''code'') (SubmissionUserCode cfg iid) None] @
     (if p_specjudge p \<noteq> 0 then [FsMove (path_div tmp ''sjcode'') (SubmissionJudgeCode cfg iid) None] else []) @
     (if p_interlib p \<noteq> 0
      then [FsMove (path_div tmp ''interlib'') (SubmissionInterlibCode cfg iid) None,
            FsMove (path_div tmp ''interlib_impl'') (SubmissionInterlibImplCode cfg iid) None] else []) @
     (if p_summary p \<noteq> 0 then [FsMove (path_div tmp ''summary'') (SubmissionSummaryCode cfg iid) None] else []) @
     (if problem_prog_stages (p_sub p) \<noteq> []
      then [FsMove (path_div tmp ''probprog'') (SubmissionProblemProgCode cfg iid) None] else [])"

definition with_enums :: "Parsed \<Rightarrow> Submission option" where
  "with_enums p = do {
     sj \<leftarrow> SpecjudgeType_of_int (p_specjudge p);
     il \<leftarrow> InterlibType_of_int (p_interlib p);
     su \<leftarrow> SummaryType_of_int (p_summary p);
     Some ((p_sub p)\<lparr>specjudge_type := sj, interlib_type := il, summary_type := su\<rparr>) }"

definition SendStatus :: "int \<Rightarrow> string \<Rightarrow> Server \<Rightarrow> Server" where
  "SendStatus k status s = s\<lparr>outgoing := PushRequest (status_request k status) (outgoing s)\<rparr>"

definition TryFetchSubmission :: "Server \<Rightarrow> Server" where
  "TryFetchSubmission s = s\<lparr>outgoing := PushRequest fetch_request (outgoing s)\<rparr>"

text \<open>From the downloads on: the files are where they belong, the submission gets its id and is pushed.\<close>

definition finish_deal :: "Config \<Rightarrow> DealEnv \<Rightarrow> path \<Rightarrow> Parsed \<Rightarrow> Server \<Rightarrow> error + deal \<times> Server" where
  "finish_deal cfg env tmp p s =
     (let (iid, s) = GetUniqueSubmissionInternalId s;
          s = s\<lparr>fs_log := fs_log s @ map (\<lambda>(f, x). FsWriteText (path_div tmp f) x) (p_files p) @ move_files cfg tmp iid p\<rparr>
      in case with_enums p of
           None \<Rightarrow> Inr (NoEnumerator, s)
         | Some sb \<Rightarrow>
             let sb = sb\<lparr>submission_internal_id := iid, reporter := server_reporter, remove_submission := True\<rparr>;
                 s = (if \<not> waiting_to_queued env then SendStatus (submission_id sb) ''queued'' s else s)
             in and_then (PushSubmission sb 0 (sched s)) (\<lambda>(_, st). Inr (Dealt, s\<lparr>sched := st\<rparr>)))"

definition DealOneSubmission :: "Config \<Rightarrow> DealEnv \<Rightarrow> json \<Rightarrow> Server \<Rightarrow> error + deal \<times> Server" where
  "DealOneSubmission cfg env data s =
     (case tempdir env of
        None \<Rightarrow> Inr (Failed, s)
      | Some tmp \<Rightarrow>
          (case parse_submission cfg (haskell_limit env) data of
             None \<Rightarrow> Inr (Failed, s)
           | Some (p, tds) \<Rightarrow>
               let (ok, c) = update_testdata cfg (refused env) (downloads env) (problem_id (p_sub p)) tds (cache s);
                   s = s\<lparr>cache := c\<rparr>
               in if \<not> ok then Inr (Failed, s) else finish_deal cfg env tmp p s))"

text \<open>\<open>data.at("submission_id")\<close> throws if the member is missing.\<close>

fun json_at :: "string \<Rightarrow> json \<Rightarrow> json option" where
  "json_at key (JObject kvs) = map_of kvs key"
| "json_at key _ = None"

definition OneSubmissionThread :: "Config \<Rightarrow> nat \<Rightarrow> DealEnv \<Rightarrow> json \<Rightarrow> Server \<Rightarrow> error + Server" where
  "OneSubmissionThread cfg kMaxQueue env data s =
     (case Option.bind (json_at ''submission_id'' data) json_int of
        None \<Rightarrow> Inr (TryFetchSubmission s)
      | Some k \<Rightarrow>
          if kMaxQueue \<le> CurrentSubmissionQueueSize (sched s)
          then Inr (SendStatus k (WaitingVerdict (waiting_to_queued env)) s)
          else let s = (if CurrentSubmissionQueueSize (sched s) + 1 < kMaxQueue then TryFetchSubmission s else s)
               in and_then (DealOneSubmission cfg env data s) (\<lambda>(r, s).
                    Inr (if r = Failed then TryFetchSubmission (SendStatus k (VerdictToAbr JE) s) else s)))"

section \<open>What is read\<close>

lemmas bind_Some = Option.bind_eq_Some_conv

lemma map_all_Some: "map_all f xs = Some ys \<Longrightarrow> length ys = length xs \<and> (\<forall>i < length xs. f (xs ! i) = Some (ys ! i))"
proof (induction xs arbitrary: ys)
  case (Cons x xs)
  from Cons.prems obtain y ys' where y: "f x = Some y" "map_all f xs = Some ys'" "ys = y # ys'"
    by (auto simp: bind_Some)
  with Cons.IH [OF y(2)] show ?case by (auto simp: nth_Cons split: nat.splits)
qed simp

lemma json_int_set_sorted: "json_int_set j = Some xs \<Longrightarrow> sorted xs"
  by (auto simp: json_int_set_def)

text \<open>The stages a submission is read with.\<close>

definition stages_read :: "Submission \<Rightarrow> bool" where
  "stages_read sb \<longleftrightarrow> 1 \<le> stages sb \<and> stages sb \<le> 32 \<and> sorted (problem_prog_stages sb) \<and>
     (\<forall>s \<in> set (problem_prog_stages sb). 0 \<le> s \<and> s < stages sb)"

lemma parse_programs_stages:
  assumes "parse_programs problem p = Some p'"
  shows "stages_read (p_sub p')"
proof -
  obtain pid strict n ps where ps: "json_value json_int_set ''problem_prog_stages'' [] problem = Some ps"
    and v: "(let ns = max 1 (min n 32);
         sb = (p_sub p)\<lparr>problem_id := pid, sandbox_strict := strict, stages := ns, problem_prog_stages := ps\<rparr>
     in if list_ex (\<lambda>s. s < 0 \<or> ns \<le> s) ps then None
        else if ps = [] then Some (p\<lparr>p_sub := sb\<rparr>)
        else do {
          compiler \<leftarrow> get_at json_string ''problem_prog_compiler'' problem;
          code \<leftarrow> get_at json_string ''problem_prog_code'' problem;
          Some (p\<lparr>p_sub := sb\<lparr>problem_prog_lang := GetCompiler compiler\<rparr>,
                   p_files := p_files p @ [(''probprog'', code)]\<rparr>) }) = Some p'"
    using assms unfolding parse_programs_def bind_Some by (elim exE conjE) simp
  have ok: "\<not> list_ex (\<lambda>s. s < 0 \<or> max 1 (min n 32) \<le> s) ps" using v by (auto simp: Let_def)
  then have p': "stages (p_sub p') = max 1 (min n 32)" "problem_prog_stages (p_sub p') = ps"
    using v by (cases "ps = []"; clarsimp simp: Let_def bind_Some)+
  have "sorted ps" using ps json_int_set_sorted by (cases problem) (auto split: option.splits)
  moreover have "\<forall>s \<in> set ps. 0 \<le> s \<and> s < max 1 (min n 32)" using ok by (force simp: list_ex_iff not_le)
  ultimately show ?thesis unfolding stages_read_def p' by simp
qed

text \<open>The later parts leave these members alone.\<close>

definition same_head :: "Parsed \<Rightarrow> Parsed \<Rightarrow> bool" where
  "same_head p p' \<longleftrightarrow> stages (p_sub p') = stages (p_sub p) \<and>
     problem_prog_stages (p_sub p') = problem_prog_stages (p_sub p) \<and> problem_id (p_sub p') = problem_id (p_sub p) \<and>
     lang (p_sub p') = lang (p_sub p)"

lemma parse_specjudge_head: "parse_specjudge problem p = Some p' \<Longrightarrow> same_head p p'"
  unfolding parse_specjudge_def bind_Some
  by (elim exE conjE, split if_split_asm; clarsimp simp: same_head_def bind_Some)

lemma parse_interlib_head: "parse_interlib problem p = Some p' \<Longrightarrow> same_head p p'"
  unfolding parse_interlib_def bind_Some
  by (elim exE conjE, split if_split_asm; clarsimp simp: same_head_def bind_Some)

lemma parse_summary_head: "parse_summary problem p = Some p' \<Longrightarrow> same_head p p'"
  unfolding parse_summary_def bind_Some
  by (elim exE conjE, split if_split_asm; clarsimp simp: same_head_def bind_Some)

text \<open>A testdata as read: its row and its limits.\<close>

definition td_read :: "Config \<Rightarrow> int \<Rightarrow> int \<Rightarrow> Testdata \<Rightarrow> TestdataItem \<Rightarrow> bool" where
  "td_read cfg prob i t item \<longleftrightarrow> row_problem t = prob \<and> row_order t = i \<and>
     input_file item = TdInput cfg prob i \<and> answer_file item = TdAnswer cfg prob i \<and>
     0 \<le> lim_vss item \<and> 0 \<le> lim_rss item \<and> 0 \<le> lim_output item"

lemma parse_td_read: "parse_td cfg prob lng i item = Some (t, it) \<Longrightarrow> td_read cfg prob i t it \<and> td_groups it = []"
  unfolding parse_td_def bind_Some Let_def by (elim exE conjE) (auto simp: td_read_def)

lemma parse_testdata_read:
  assumes "parse_testdata cfg prob lng data = Some tds" "i < length tds"
  shows "td_read cfg prob (int i) (fst (tds ! i)) (snd (tds ! i)) \<and> td_groups (snd (tds ! i)) = []"
proof -
  from assms(1) obtain items where "map_all (\<lambda>(i, item). parse_td cfg prob lng (int i) item) (enumerate 0 items) = Some tds"
    by (auto simp: parse_testdata_def bind_Some)
  from map_all_Some [OF this] assms(2) have "parse_td cfg prob lng (int i) (items ! i) = Some (tds ! i)"
    by (simp add: nth_enumerate_eq)
  then show ?thesis using parse_td_read [of cfg prob lng "int i" "items ! i" "fst (tds ! i)" "snd (tds ! i)"] by simp
qed

text \<open>Groups are only added to; all of them are below the number of tasks.\<close>

definition regrouped :: "int \<Rightarrow> TestdataItem list \<Rightarrow> TestdataItem list \<Rightarrow> bool" where
  "regrouped n tds tds' \<longleftrightarrow> length tds' = length tds \<and>
     (\<forall>i < length tds. \<exists>gs. tds' ! i = (tds ! i)\<lparr>td_groups := td_groups (tds ! i) @ gs\<rparr> \<and> set gs \<subseteq> {0 ..< n})"

lemma regrouped_refl: "regrouped n tds tds"
  by (auto simp: regrouped_def intro!: exI [of _ "[]"])

lemma regrouped_trans: "regrouped n tds tds' \<Longrightarrow> regrouped n tds' tds'' \<Longrightarrow> regrouped n tds tds''"
  unfolding regrouped_def
proof (intro conjI allI impI)
  fix i
  assume a: "length tds' = length tds \<and> (\<forall>i < length tds. \<exists>gs. tds' ! i = (tds ! i)\<lparr>td_groups := td_groups (tds ! i) @ gs\<rparr> \<and> set gs \<subseteq> {0 ..< n})"
    and b: "length tds'' = length tds' \<and> (\<forall>i < length tds'. \<exists>gs. tds'' ! i = (tds' ! i)\<lparr>td_groups := td_groups (tds' ! i) @ gs\<rparr> \<and> set gs \<subseteq> {0 ..< n})"
    and i: "i < length tds"
  obtain gs where "tds' ! i = (tds ! i)\<lparr>td_groups := td_groups (tds ! i) @ gs\<rparr>" "set gs \<subseteq> {0 ..< n}" using a i by blast
  moreover obtain hs where "tds'' ! i = (tds' ! i)\<lparr>td_groups := td_groups (tds' ! i) @ hs\<rparr>" "set hs \<subseteq> {0 ..< n}"
    using a b i by metis
  ultimately show "\<exists>gs. tds'' ! i = (tds ! i)\<lparr>td_groups := td_groups (tds ! i) @ gs\<rparr> \<and> set gs \<subseteq> {0 ..< n}"
    by (intro exI [of _ "gs @ hs"]) simp
qed simp

lemma add_positions_regrouped:
  "add_positions g xs tds = Some tds' \<Longrightarrow> 0 \<le> g \<Longrightarrow> g < n \<Longrightarrow> regrouped n tds tds'"
proof (induction xs arbitrary: tds)
  case (Cons x xs)
  obtain p where j: "json_int x = Some p" using Cons.prems(1) by (cases "json_int x") auto
  with Cons.prems(1) have p: "0 \<le> p" "p < int (length tds)"
      "add_positions g xs (tds[nat p := (tds ! nat p)\<lparr>td_groups := td_groups (tds ! nat p) @ [g]\<rparr>]) = Some tds'"
    by (auto split: if_split_asm)
  have "regrouped n tds (tds[nat p := (tds ! nat p)\<lparr>td_groups := td_groups (tds ! nat p) @ [g]\<rparr>])"
    unfolding regrouped_def
  proof (intro conjI allI impI)
    fix i assume i: "i < length tds"
    show "\<exists>gs. tds[nat p := (tds ! nat p)\<lparr>td_groups := td_groups (tds ! nat p) @ [g]\<rparr>] ! i =
        (tds ! i)\<lparr>td_groups := td_groups (tds ! i) @ gs\<rparr> \<and> set gs \<subseteq> {0 ..< n}"
      using i Cons.prems(2,3) by (intro exI [of _ "if i = nat p then [g] else []"]) (simp add: nth_list_update)
  qed simp
  then show ?case using Cons.IH [OF p(3) Cons.prems(2,3)] regrouped_trans by blast
qed (simp add: regrouped_refl)

lemma add_groups_regrouped:
  "add_groups g items tds = Some (tds', scores) \<Longrightarrow> 0 \<le> g \<Longrightarrow> g + int (length items) = n \<Longrightarrow>
   regrouped n tds tds' \<and> length scores = length items"
proof (induction items arbitrary: g tds scores)
  case (Cons item items)
  then obtain ps tds1 scores' where p: "add_positions g (json_range ps) tds = Some tds1"
      "add_groups (g + 1) items tds1 = Some (tds', scores')" "length scores = Suc (length scores')"
    by (auto simp: bind_Some)
  have "regrouped n tds tds1" using add_positions_regrouped [OF p(1) Cons.prems(2)] Cons.prems(3) by simp
  moreover have "regrouped n tds1 tds' \<and> length scores' = length items"
    using Cons.IH [OF p(2)] Cons.prems(2,3) by simp
  ultimately show ?case using regrouped_trans p(3) by auto
qed (simp add: regrouped_refl)

text \<open>A submission as read.\<close>

lemma parse_submission_read:
  assumes "parse_submission cfg limit data = Some (p, tds)"
  defines "sb \<equiv> p_sub p"
  shows "stages_read sb" "length (testdata sb) = length tds"
    "i < length tds \<Longrightarrow> td_read cfg (problem_id sb) (int i) (tds ! i) (testdata sb ! i) \<and>
       set (td_groups (testdata sb ! i)) \<subseteq> {0 ..< int (length (group_score sb))}"
proof -
  obtain p1 p2 p3 p4 p5 problem items0 items gr where
    p: "parse_programs problem p1 = Some p2" "parse_specjudge problem p2 = Some p3"
      "parse_interlib problem p3 = Some p4" "parse_summary problem p4 = Some p5"
    and t: "parse_testdata cfg (problem_id (p_sub p5)) (lang (p_sub p5)) data = Some items0"
    and gr: "add_groups 0 items (map snd items0) = Some gr"
    and e: "Some (p5\<lparr>p_sub := (raise_process_limit limit (p_sub p5))
        \<lparr>testdata := fst gr, group_score := snd gr\<rparr>\<rparr>, map fst items0) = Some (p, tds)"
    using assms(1) unfolding parse_submission_def bind_Some by blast
  obtain grouped scores where g: "add_groups 0 items (map snd items0) = Some (grouped, scores)" "gr = (grouped, scores)"
    using gr by (cases gr) simp
  have v: "stages (p_sub p) = stages (p_sub p5)" "problem_prog_stages (p_sub p) = problem_prog_stages (p_sub p5)"
      "problem_id (p_sub p) = problem_id (p_sub p5)" "testdata (p_sub p) = grouped" "group_score (p_sub p) = scores"
      "tds = map fst items0"
    using e g(2) by (auto simp: raise_process_limit_def)
  have "stages_read (p_sub p5)"
    using parse_programs_stages [OF p(1)] parse_specjudge_head [OF p(2)] parse_interlib_head [OF p(3)]
      parse_summary_head [OF p(4)] by (simp add: same_head_def stages_read_def)
  then show "stages_read sb" unfolding sb_def stages_read_def v(1,2) .
  have r: "regrouped (int (length items)) (map snd items0) grouped" "length scores = length items"
    using add_groups_regrouped [OF g(1)] by simp_all
  then show "length (testdata sb) = length tds" by (simp add: sb_def v regrouped_def)
  assume i: "i < length tds"
  then have "td_read cfg (problem_id sb) (int i) (tds ! i) (snd (items0 ! i)) \<and> td_groups (snd (items0 ! i)) = []"
    using parse_testdata_read [OF t, of i] by (simp add: sb_def v)
  moreover obtain gs where "grouped ! i = (snd (items0 ! i))\<lparr>td_groups := td_groups (snd (items0 ! i)) @ gs\<rparr>"
      "set gs \<subseteq> {0 ..< int (length items)}"
    using r(1) i by (auto simp: regrouped_def v)
  ultimately show "td_read cfg (problem_id sb) (int i) (tds ! i) (testdata sb ! i) \<and>
      set (td_groups (testdata sb ! i)) \<subseteq> {0 ..< int (length (group_score sb))}"
    using r(2) by (simp add: sb_def v td_read_def)
qed

end
