(* ===== verification/Submitted.thy ===== *)
theory Submitted
  imports Intake Sample
begin

text \<open>
  The intake of submissions beside the judge: what \<open>DealOneSubmission\<close> pushes satisfies the conditions of
  \<open>PushSubmission\<close>, so that receiving a submission is a step of the judge; the testdata it names are the
  files the judge will read; and the number of queued submissions keeps its bound.
\<close>

lemma dealt_cases:
  assumes "DealOneSubmission cfg env data s = Inr (r, s')"
  obtains "r = Failed" "sched s' = sched s" "seq s' = seq s"
  | tmp p tds c where "tempdir env = Some tmp" "parse_submission cfg (haskell_limit env) data = Some (p, tds)"
      "update_testdata cfg (refused env) (downloads env) (problem_id (p_sub p)) tds (cache s) = (True, c)"
      "finish_deal cfg env tmp p (s\<lparr>cache := c\<rparr>) = Inr (r, s')"
  using assms unfolding DealOneSubmission_def Let_def
  by (auto split: option.splits prod.splits if_split_asm)

text \<open>The submission pushed, from what was read.\<close>

definition pushed_sub :: "int \<Rightarrow> Parsed \<Rightarrow> Submission option" where
  "pushed_sub iid p = map_option (\<lambda>sb. sb\<lparr>submission_internal_id := iid, reporter := server_reporter,
     remove_submission := True\<rparr>) (with_enums p)"

lemma finish_deal_value:
  "finish_deal cfg env tmp p s =
     (let st = (case pushed_sub (seq s + 1) p of None \<Rightarrow> Inr (False, sched s) | Some sb \<Rightarrow> PushSubmission sb 0 (sched s))
      in case st of Inl e \<Rightarrow> Inl e
         | Inr (_, st) \<Rightarrow> Inr (if pushed_sub (seq s + 1) p = None then NoEnumerator else Dealt,
             snd (projr (finish_deal cfg env tmp p s))\<lparr>seq := seq s + 1, cache := cache s, sched := st\<rparr>))"
  by (cases "with_enums p")
    (auto simp: finish_deal_def pushed_sub_def GetUniqueSubmissionInternalId_def SendStatus_def Let_def and_then_def
      split: sum.splits)

lemma pushed_sub_fields:
  assumes "pushed_sub iid p = Some sb"
  shows "submission_internal_id sb = iid" "stages sb = stages (p_sub p)"
    "problem_prog_stages sb = problem_prog_stages (p_sub p)" "testdata sb = testdata (p_sub p)"
    "group_score sb = group_score (p_sub p)" "problem_id sb = problem_id (p_sub p)"
  using assms by (auto simp: pushed_sub_def with_enums_def bind_Some)

lemma narrow_id: "0 \<le> i \<Longrightarrow> i < 2 ^ 31 \<Longrightarrow> narrow_int i = i"
  by (simp add: narrow_int_ok)

text \<open>What \<open>PushSubmission\<close> relies on.\<close>

lemma read_push_pre:
  assumes r: "parse_submission cfg limit data = Some (p, tds)" and sb: "pushed_sub iid p = Some sb"
    and iid: "0 \<le> iid" "iid < 2 ^ 31" "submission_list st iid = None"
  shows "push_pre sb st"
proof -
  note F = pushed_sub_fields [OF sb] and R = parse_submission_read [OF r]
  have st: "stages_read sb" using R(1) F by (simp add: stages_read_def)
  then have "push_ok (clamp_stages sb)"
    by (auto simp: push_ok_def clamp_stages_def stages_read_def first_prob_stage_def dest: hd_in_set)
  moreover have "groups_ok sb"
    unfolding groups_ok_def
  proof (intro ballI)
    fix item g assume item: "item \<in> set (testdata sb)" and g: "g \<in> set (td_groups item)"
    from item obtain i where i: "i < length tds" "item = testdata sb ! i"
      using R(2) F(4) by (auto simp: in_set_conv_nth)
    then have "g \<in> {0 ..< int (length (group_score sb))}" using R(3) [OF i(1)] g F(4,5) by auto
    then show "0 \<le> g \<and> nat g < length (group_score sb)" by auto
  qed
  ultimately show ?thesis
    using st iid F(1) by (simp add: push_pre_def Let_def narrow_id stages_read_def)
qed

lemma dealt_jinv:
  assumes inv: "jinv Q R (sched s)" "R \<subseteq> Q" and ids: "dom (submission_list (sched s)) \<subseteq> {..seq s}"
    and seq: "0 \<le> seq s" "seq s < 2 ^ 31 - 1"
  shows "\<exists>r s'. DealOneSubmission cfg env data s = Inr (r, s') \<and>
    (if r = Dealt then \<exists>sb. push_pre sb (sched s) \<and> PushSubmission sb 0 (sched s) = Inr (True, sched s')
     else sched s' = sched s) \<and>
    dom (submission_list (sched s')) \<subseteq> {..seq s'} \<and> seq s \<le> seq s'"
proof (cases "tempdir env")
  case None
  then show ?thesis using ids by (simp add: DealOneSubmission_def)
next
  case (Some tmp)
  show ?thesis
  proof (cases "parse_submission cfg (haskell_limit env) data")
    case None
    then show ?thesis using ids Some by (simp add: DealOneSubmission_def)
  next
    case read: (Some x)
    obtain p tds where x: "x = (p, tds)" by (cases x)
    obtain ok c where u: "update_testdata cfg (refused env) (downloads env) (problem_id (p_sub p)) tds (cache s) = (ok, c)"
      by (metis surj_pair)
    show ?thesis
    proof (cases ok)
      case False
      then show ?thesis using ids Some read u x by (simp add: DealOneSubmission_def)
    next
      case True
      then have d: "DealOneSubmission cfg env data s = finish_deal cfg env tmp p (s\<lparr>cache := c\<rparr>)"
        using Some read u x by (simp add: DealOneSubmission_def)
      show ?thesis
      proof (cases "pushed_sub (seq s + 1) p")
        case None
        then show ?thesis using ids unfolding d by (subst finish_deal_value) auto
      next
        case sb: (Some sb)
        have "seq s + 1 \<notin> dom (submission_list (sched s))" using ids by auto
        then have new: "submission_list (sched s) (seq s + 1) = None" by auto
        have pre: "push_pre sb (sched s)"
          using read_push_pre [OF read [unfolded x] sb _ _ new] seq by simp
        obtain st where st: "PushSubmission sb 0 (sched s) = Inr (True, st)"
          "submission_list st = (submission_list (sched s))(seq s + 1 \<mapsto> \<lparr>sub = clamp_stages sb, result = SubmissionResult_init\<rparr>)"
          using push_jinv [OF inv pre disjI1 [OF refl]] pushed_sub_fields(1) [OF sb] by auto
        then show ?thesis
          using sb pre ids unfolding d by (subst finish_deal_value) auto
      qed
    qed
  qed
qed

section \<open>Properties\<close>


lemma push_size:
  assumes "PushSubmission sb 0 st = Inr (b, st')"
  shows "CurrentSubmissionQueueSize st' \<le> CurrentSubmissionQueueSize st + 1"
proof -
  let ?i = "narrow_int (submission_internal_id (clamp_stages sb))"
  from assms obtain ks B c where st': "st' = enqueue (clamp_stages sb) ?i (insert_batch B ks (st\<lparr>task_count := c\<rparr>))"
    by (auto simp: PushSubmission_def Let_def split: sum.splits prod.splits)
  have "submission_list (insert_batch B ks (st\<lparr>task_count := c\<rparr>)) = submission_list st"
    by (simp add: insert_batch_fields)
  then have "dom (submission_list st') \<subseteq> insert ?i (dom (submission_list st))"
    unfolding st' by (auto simp: enqueue_def Let_def split: option.splits)
  show ?thesis
  proof (cases "finite (dom (submission_list st))")
    case True
    then have "card (dom (submission_list st')) \<le> card (insert ?i (dom (submission_list st)))"
      using \<open>dom (submission_list st') \<subseteq> _\<close> by (intro card_mono) simp_all
    also have "\<dots> \<le> card (dom (submission_list st)) + 1" using True by (simp add: card_insert_if)
    finally show ?thesis by (simp add: CurrentSubmissionQueueSize_def)
  next
    case False
    have "submission_list st k = None \<or> submission_list st' k \<noteq> None" for k
      using \<open>submission_list (insert_batch _ _ _) = _\<close> unfolding st'
      by (auto simp: enqueue_def Let_def split: option.splits)
    then have "dom (submission_list st) \<subseteq> dom (submission_list st')"
      unfolding dom_def by (metis (mono_tags, lifting) Collect_mono)
    then have "infinite (dom (submission_list st'))" using False finite_subset by blast
    then show ?thesis by (simp add: CurrentSubmissionQueueSize_def)
  qed
qed

lemma sent_sched [simp]:
  "sched (SendStatus k x s) = sched s" "sched (TryFetchSubmission s) = sched s"
  by (simp_all add: SendStatus_def TryFetchSubmission_def)

lemma dealt_size:
  assumes "DealOneSubmission cfg env data s = Inr (r, s')"
  shows "CurrentSubmissionQueueSize (sched s') \<le> CurrentSubmissionQueueSize (sched s) + 1"
  using assms
proof (cases rule: dealt_cases)
  case (2 tmp p tds c)
  then show ?thesis
    using push_size by (subst (asm) finish_deal_value) (auto simp: Let_def split: option.splits sum.splits)
qed simp

text \<open>
  C14: The server's threads keep the number of queued submissions within \<open>kMaxQueue\<close>: a submission that comes when
  the queue is full is not taken but answered with the waiting verdict.
\<close>

theorem queue_bound:
  assumes "OneSubmissionThread cfg kMaxQueue env data s = Inr s'"
    and "CurrentSubmissionQueueSize (sched s) \<le> kMaxQueue"
  shows "CurrentSubmissionQueueSize (sched s') \<le> kMaxQueue \<and>
    (CurrentSubmissionQueueSize (sched s) = kMaxQueue \<longrightarrow> sched s' = sched s)"
proof (cases "Option.bind (json_at ''submission_id'' data) json_int")
  case None
  then show ?thesis using assms by (auto simp: OneSubmissionThread_def)
next
  case (Some k)
  show ?thesis
  proof (cases "kMaxQueue \<le> CurrentSubmissionQueueSize (sched s)")
    case True
    then show ?thesis using assms Some by (auto simp: OneSubmissionThread_def)
  next
    case False
    define s1 where "s1 = (if CurrentSubmissionQueueSize (sched s) + 1 < kMaxQueue then TryFetchSubmission s else s)"
    have s1: "sched s1 = sched s" by (simp add: s1_def)
    obtain r s2 where d: "DealOneSubmission cfg env data s1 = Inr (r, s2)" "sched s' = sched s2"
      using assms(1) Some False unfolding OneSubmissionThread_def s1_def [symmetric] Let_def
      by (auto simp: and_then_Inr split: if_splits)
    then show ?thesis using dealt_size [OF d(1)] s1 False by simp
  qed
qed

lemma push_entry:
  assumes "PushSubmission sb 0 st = Inr (b, st')" "narrow_int (submission_internal_id sb) = submission_internal_id sb"
    and "submission_list st (submission_internal_id sb) = None"
  shows "submission_list st' (submission_internal_id sb) = Some \<lparr>sub = clamp_stages sb, result = SubmissionResult_init\<rparr>"
proof -
  have i: "submission_internal_id (clamp_stages sb) = submission_internal_id sb" by (simp add: clamp_stages_def)
  from assms(1) obtain ks B c where
    st': "st' = enqueue (clamp_stages sb) (submission_internal_id sb) (insert_batch B ks (st\<lparr>task_count := c\<rparr>))"
    by (auto simp: PushSubmission_def Let_def i assms(2) split: sum.splits prod.splits)
  have "submission_list (insert_batch B ks (st\<lparr>task_count := c\<rparr>)) (submission_internal_id sb) = None"
    using assms(3) by (simp add: insert_batch_fields)
  then show ?thesis unfolding st' by (auto simp: enqueue_def Let_def split: option.splits)
qed

lemma read_tds_ok:
  assumes "parse_submission cfg limit data = Some (p, tds)" "0 \<le> problem_id (p_sub p)" "\<forall>t \<in> set tds. 0 \<le> row_id t"
  shows "tds_ok (problem_id (p_sub p)) tds"
proof -
  have r: "row_problem (tds ! i) = problem_id (p_sub p) \<and> row_order (tds ! i) = int i" if "i < length tds" for i
    using parse_submission_read(3) [OF assms(1) that] by (simp add: td_read_def)
  have "map row_order tds = map int [0 ..< length tds]" by (rule nth_equalityI) (simp_all add: r)
  moreover have "row_ok t \<and> row_problem t = problem_id (p_sub p)" if "t \<in> set tds" for t
    using that r assms(2,3) by (auto simp: in_set_conv_nth row_ok_def)
  ultimately show ?thesis by (simp add: tds_ok_def)
qed


section \<open>A message\<close>

text \<open>A problem with two testdata, of which the table knows the second, and one group with both.\<close>

definition sample_td_json :: "int \<Rightarrow> json" where
  "sample_td_json k = JObject [(''id'', JInt k), (''updated_at'', JInt 100), (''time'', JInt 1000000),
     (''vss'', JInt 65536), (''rss'', JInt 0), (''output'', JInt (-1)), (''verdict_ignore'', JBool False)]"

definition sample_message :: json where
  "sample_message = JObject
     [(''submission_id'', JInt 9), (''contest_id'', JInt 0), (''priority'', JInt 3),
      (''compiler'', JString ''haskell''), (''time'', JInt 1700000000), (''code_base64'', JString ''bWFpbg==''),
      (''user'', JObject [(''id'', JInt 2), (''name'', JString ''u''), (''nickname'', JString ''v'')]),
      (''problem'', JObject [(''id'', JInt 1), (''strict_mode'', JBool False), (''num_stages'', JInt 1),
         (''specjudge_type'', JInt 0), (''default_scoring_args'', JArray []), (''interlib_type'', JInt 0)]),
      (''td'', JArray [sample_td_json 7, sample_td_json 5]),
      (''tasks'', JArray [JObject [(''positions'', JArray [JInt 0, JInt 1]), (''score'', JInt 100000000)]])]"

definition sample_deal :: DealEnv where
  "sample_deal = \<lparr>tempdir = Some ''/tmp/tmpsub'', refused = (\<lambda>_. False),
     downloads = (\<lambda>k b. (True, sample_content k 100 b)), haskell_limit = 2, waiting_to_queued = True\<rparr>"

definition sample_server :: Server where
  "sample_server = \<lparr>seq = 0, cache = sample_cache, sched = JState_init, outgoing = ReqState_init, fs_log = []\<rparr>"

lemma sample_read:
  "case parse_submission plain_config 2 sample_message of
     None \<Rightarrow> False
   | Some (p, tds) \<Rightarrow> problem_id (p_sub p) = 1 \<and> map row_id tds = [7, 5] \<and> map row_timestamp tds = [100, 100] \<and>
       p_files p = [(''code'', ''main'')] \<and> \<not> Option.is_none (with_enums p) \<and>
       fst (update_testdata plain_config (\<lambda>_. False) (\<lambda>k b. (True, sample_content k 100 b)) (problem_id (p_sub p)) tds sample_cache)"
  by code_simp

lemma sample_parse:
  obtains p tds where "parse_submission plain_config 2 sample_message = Some (p, tds)" "problem_id (p_sub p) = 1"
    "map row_id tds = [7, 5]" "map row_timestamp tds = [100, 100]" "with_enums p \<noteq> None"
    "fst (update_testdata plain_config (\<lambda>_. False) (\<lambda>k b. (True, sample_content k 100 b)) (problem_id (p_sub p)) tds sample_cache)"
  using sample_read by (auto simp: Option.is_none_def split: option.splits prod.splits)

lemma sample_taken:
  "\<exists>s'. DealOneSubmission plain_config sample_deal sample_message sample_server = Inr (Dealt, s') \<and>
     push_pre (the (pushed_sub 1 (fst (the (parse_submission plain_config 2 sample_message))))) JState_init"
proof -
  obtain p tds where p: "parse_submission plain_config 2 sample_message = Some (p, tds)" "with_enums p \<noteq> None"
    and u: "fst (update_testdata plain_config (\<lambda>_. False) (\<lambda>k b. (True, sample_content k 100 b)) (problem_id (p_sub p)) tds sample_cache)"
    by (rule sample_parse)
  obtain sb where sb: "pushed_sub 1 p = Some sb" using p(2) by (auto simp: pushed_sub_def)
  have new: "submission_list JState_init 1 = None" by (simp add: JState_init_def)
  have pre: "push_pre sb JState_init" by (rule read_push_pre [OF p(1) sb _ _ new]) simp_all
  obtain st where "PushSubmission sb 0 JState_init = Inr (True, st)"
    using push_jinv [OF jinv_init subset_refl pre disjI1 [OF refl]] by blast
  moreover obtain c where c: "update_testdata plain_config (\<lambda>_. False) (\<lambda>k b. (True, sample_content k 100 b)) (problem_id (p_sub p)) tds sample_cache = (True, c)"
    using u by (metis prod.collapse)
  moreover have "DealOneSubmission plain_config sample_deal sample_message sample_server =
      finish_deal plain_config sample_deal ''/tmp/tmpsub'' p (sample_server\<lparr>cache := c\<rparr>)"
    using p(1) c by (simp add: DealOneSubmission_def) (simp add: sample_deal_def sample_server_def)
  moreover have "pushed_sub (seq (sample_server\<lparr>cache := c\<rparr>) + 1) p = Some sb" "sched (sample_server\<lparr>cache := c\<rparr>) = JState_init"
    using sb by (simp_all add: sample_server_def)
  ultimately have "\<exists>s'. DealOneSubmission plain_config sample_deal sample_message sample_server = Inr (Dealt, s')"
    by (simp only:) (subst finish_deal_value, simp)
  then show ?thesis using p(1) sb pre by simp
qed


theorem queue_bound_witness:
  "\<exists>s'. OneSubmissionThread plain_config 1 sample_deal sample_message sample_server = Inr s' \<and>
     CurrentSubmissionQueueSize (sched s') \<le> 1"
proof -
  have k: "Option.bind (json_at ''submission_id'' sample_message) json_int = Some 9" by code_simp
  have z: "CurrentSubmissionQueueSize (sched sample_server) = 0"
    by (simp add: CurrentSubmissionQueueSize_def sample_server_def JState_init_def)
  obtain s' where "OneSubmissionThread plain_config 1 sample_deal sample_message sample_server = Inr s'"
    using sample_taken k z by (auto simp: OneSubmissionThread_def)
  from queue_bound [OF this] this z show ?thesis by auto
qed


end
