(* ===== verification/ServerLoop.thy ===== *)
theory ServerLoop
  imports Intake
begin

text \<open>
  The remaining parts of \<open>src/server_io.cpp\<close>: the reporter that turns the judge's reports into requests,
  \<open>OnMessage\<close> with the version of the server, and a round of \<open>ServerWorkLoop\<close>.
\<close>

section \<open>Reports\<close>

text \<open>
  \<open>server_reporter\<close>: the requests a report pushes. The size given to \<open>ReportFinalized\<close> is that of the queue
  before the submission is taken out of it.
\<close>

fun report_requests :: "bool \<Rightarrow> nat \<Rightarrow> report \<Rightarrow> error + Request list" where
  "report_requests jce kMaxQueue (StartCompiling sid) = Inr [status_request sid ''Validating'']"
| "report_requests jce kMaxQueue (OverallResult sid res) = and_then (final_request jce sid res) (\<lambda>r. Inr [r])"
| "report_requests jce kMaxQueue (ScoringResult sid res k _) = and_then (result_request jce sid res k) (\<lambda>r. Inr [r])"
| "report_requests jce kMaxQueue (CEMessage sid res) = Inr []"
| "report_requests jce kMaxQueue (JCEMessage sid res) = Inr []"
| "report_requests jce kMaxQueue (Finalized sid n) = Inr (if n = kMaxQueue then [fetch_request] else [])"

definition SendReport :: "bool \<Rightarrow> nat \<Rightarrow> report \<Rightarrow> ReqState \<Rightarrow> error + ReqState" where
  "SendReport jce kMaxQueue rep st =
     and_then (report_requests jce kMaxQueue rep) (\<lambda>rs. Inr (fold PushRequest rs st))"

section \<open>Messages of the server\<close>

text \<open>
  \<open>std::stoi\<close>, which throws without digits or out of range, and \<open>substr\<close> and \<open>find\<close> with \<open>npos\<close> as \<open>None\<close>:
  \<open>npos + 1\<close> is 0, and a length computed from \<open>npos\<close> reaches the end.
\<close>

definition stoi :: "string \<Rightarrow> int option" where
  "stoi s = fst (read_int32 (open_stream s))"

definition find_dot :: "string \<Rightarrow> nat \<Rightarrow> nat option" where
  "find_dot s i = find (\<lambda>j. s ! j = CHR ''.'') [i ..< length s]"

definition after_dot :: "nat option \<Rightarrow> nat" where
  "after_dot d = (case d of None \<Rightarrow> 0 | Some i \<Rightarrow> i + 1)"

definition part :: "string \<Rightarrow> nat \<Rightarrow> nat option \<Rightarrow> string" where
  "part s i d = (case d of None \<Rightarrow> drop i s | Some j \<Rightarrow> take (j - i) (drop i s))"

text \<open>
  The three numbers start as 3, 4 and 0; an exception keeps those not yet read, and closes the
  connection. The flags are computed in any case.
\<close>

definition parse_version :: "string \<Rightarrow> (int \<times> int \<times> int) \<times> bool" where
  "parse_version v =
     (let first = find_dot v 0; second = find_dot v (after_dot first)
      in case stoi (part v 0 first) of
           None \<Rightarrow> ((3, 4, 0), False)
         | Some major \<Rightarrow>
             (case stoi (part v (after_dot first) second) of
                None \<Rightarrow> ((major, 4, 0), False)
              | Some minor \<Rightarrow>
                  (case stoi (drop (after_dot second) v) of
                     None \<Rightarrow> ((major, minor, 0), False)
                   | Some patch \<Rightarrow> ((major, minor, patch), True))))"

definition jce_to_er_of :: "int \<times> int \<times> int \<Rightarrow> bool" where
  "jce_to_er_of v = (let (major, minor, _) = v in major < 3 \<or> major = 3 \<and> minor < 5)"

definition waiting_to_queued_of :: "int \<times> int \<times> int \<Rightarrow> bool" where
  "waiting_to_queued_of v =
     (let (major, minor, patch) = v
      in major < 3 \<or> major = 3 \<and> (minor < 5 \<or> minor = 5 \<and> patch < 3))"

text \<open>
  What a message makes the client do, its JSON being \<open>None\<close> if the text does not parse: nothing, set the
  flags and perhaps close, fetch, or start a thread for a submission. \<open>data["message"]\<close> and its \<open>"type"\<close> are
  read as the code reads them; the backup queue has been cleared before.
\<close>

datatype reaction = Nothing | Welcome bool bool bool | Fetch | StartSubmission json

definition OnMessage :: "json option \<Rightarrow> reaction" where
  "OnMessage msg =
     (case msg of
        None \<Rightarrow> Nothing
      | Some data \<Rightarrow>
          if json_find ''type'' data \<noteq> None then
            (if json_find ''type'' data = Some (JString ''welcome'') then
               (case json_value json_string ''version'' ''3.4.0'' data of
                  None \<Rightarrow> Nothing
                | Some v \<Rightarrow>
                    let (n, ok) = parse_version v in Welcome (jce_to_er_of n) (waiting_to_queued_of n) (\<not> ok))
             else Nothing)
          else
            (case Option.bind (json_get ''message'' data) (get_at json_string ''type'') of
               None \<Rightarrow> Nothing
             | Some ty \<Rightarrow>
                 if ty = ''notify'' then Fetch
                 else if ty = ''submission'' then
                   (case Option.bind (json_get ''message'' data) (json_get ''data'') of
                      None \<Rightarrow> Nothing | Some d \<Rightarrow> StartSubmission d)
                 else Nothing))"

text \<open>The three numbers of a version are read back, and compared lexicographically.\<close>

definition print_version :: "int \<Rightarrow> int \<Rightarrow> int \<Rightarrow> string" where
  "print_version a b c = to_string a @ ''.'' @ to_string b @ ''.'' @ to_string c"

section \<open>The work loop\<close>

text \<open>
  \<open>GetReceivedSubmissionID\<close>: the queued submissions and the one being received; the order of the first is
  that of a hash map, so they are given as a list.
\<close>

definition GetReceivedSubmissionID :: "int list \<Rightarrow> int \<Rightarrow> int list" where
  "GetReceivedSubmissionID queued receiving = queued @ (if receiving \<noteq> -1 then [receiving] else [])"

definition SendQueuedSubmissions :: "int list \<Rightarrow> bool \<Rightarrow> ReqState \<Rightarrow> ReqState" where
  "SendQueuedSubmissions ids send_if_empty st =
     (if ids = [] \<and> \<not> send_if_empty then st else PushRequest (queued_request ids) st)"

text \<open>A round of \<open>ServerWorkLoop\<close>, ten seconds after the last.\<close>

definition work_round :: "nat \<Rightarrow> int list \<Rightarrow> nat \<Rightarrow> nat \<times> ReqState \<Rightarrow> nat \<times> ReqState" where
  "work_round kMaxQueue ids queue_size s =
     (let (empty_cnt, st) = s;
          st = SendQueuedSubmissions ids (empty_cnt = 2) st;
          empty_cnt = (if queue_size = 0 then (if empty_cnt + 1 = 3 then 0 else empty_cnt + 1) else 0);
          st = (if queue_size < kMaxQueue then PushRequest fetch_request st else st)
      in (empty_cnt, st))"

section \<open>Facts\<close>

lemma to_string_dot: "c \<in> set (to_string a) \<Longrightarrow> c \<noteq> CHR ''.''"
  using nat_to_string_digits [of c] by (auto simp: to_string_def isdigit_def split: if_splits)

lemma stoi_printed: "- (2 ^ 31) \<le> a \<Longrightarrow> a < 2 ^ 31 \<Longrightarrow> rest = [] \<or> \<not> isdigit (hd rest) \<Longrightarrow> stoi (to_string a @ rest) = Some a"
  using read_int_printed [of "- (2 ^ 31)" a "2 ^ 31 - 1" rest] by (simp add: stoi_def open_stream_def)

lemma find_dot_first:
  assumes "CHR ''.'' \<notin> set w"
  shows "find_dot (u @ w @ CHR ''.'' # r) (length u) = Some (length u + length w)"
proof -
  let ?s = "u @ w @ CHR ''.'' # r"
  have "find (\<lambda>j. ?s ! j = CHR ''.'') [length u ..< length ?s] = Some (length u + length w)"
    unfolding find_Some_iff
  proof (intro exI [of _ "length w"] conjI allI impI)
    fix j assume "j < length w"
    then show "\<not> ?s ! ([length u ..< length ?s] ! j) = CHR ''.''"
      using assms nth_mem [of j w] by (simp add: nth_append del: nth_mem) fastforce
  qed (simp_all add: nth_append)
  then show ?thesis by (simp add: find_dot_def)
qed

text \<open>A version printed as three numbers is read back, and the connection is kept.\<close>

theorem version_roundtrip:
  assumes "int_ok a" "int_ok b" "int_ok c"
  shows "parse_version (print_version a b c) = ((a, b, c), True)"
proof -
  let ?A = "to_string a" and ?B = "to_string b" and ?C = "to_string c"
  let ?v = "print_version a b c"
  have nd: "CHR ''.'' \<notin> set ?A" "CHR ''.'' \<notin> set ?B" using to_string_dot by blast+
  have f: "find_dot ?v 0 = Some (length ?A)"
    using find_dot_first [OF nd(1), of "[]" "?B @ ''.'' @ ?C"] by (simp add: print_version_def)
  have s: "find_dot ?v (after_dot (find_dot ?v 0)) = Some (Suc (length ?A) + length ?B)"
    unfolding f using find_dot_first [OF nd(2), of "?A @ ''.''" ?C] by (simp add: print_version_def after_dot_def)
  have p: "part ?v 0 (Some (length ?A)) = ?A @ []"
    "part ?v (after_dot (Some (length ?A))) (Some (Suc (length ?A) + length ?B)) = ?B @ []"
    "drop (after_dot (Some (Suc (length ?A) + length ?B))) ?v = ?C @ []"
    by (simp_all add: part_def after_dot_def print_version_def)
  show ?thesis
    unfolding parse_version_def Let_def s unfolding f p using assms stoi_printed [of _ "[]"] by simp
qed

end
