(* ===== verification/Connection.thy ===== *)
theory Connection
  imports ServerLoop
begin

text \<open>
  The client of the websocket: \<open>WsClient\<close> of \<open>src/websocket.h\<close>, \<open>src/websocket.cpp\<close>, and what \<open>TIOJClient\<close> of
  \<open>src/server_io.cpp\<close> puts on top of it. What is proved: with a library that keeps the order of its
  callbacks, the flags of the client agree with the handle it holds, closing an open connection does not throw,
  and calls and callbacks act on the queues as the events of \<open>Requests\<close>.
\<close>

section \<open>The wrapper\<close>

text \<open>
  A handle is a number; what a call of the library answers is an argument: whether it sets the error
  code. Which of the two clients of the library is used is \<open>is_tls\<close>; both are used the same way.
\<close>

record WsClient =
  is_tls :: bool
  connected :: bool
  close_issued :: bool
  hdl :: "int option"

definition WsClient_new :: "string \<Rightarrow> WsClient" where
  "WsClient_new url = \<lparr>is_tls = (take 3 url = ''wss''), connected = False, close_issued = False, hdl = None\<rparr>"

definition CanSend :: "WsClient \<Rightarrow> bool" where
  "CanSend c \<longleftrightarrow> connected c \<and> \<not> close_issued c"

definition WsOnOpen :: "int \<Rightarrow> WsClient \<Rightarrow> WsClient" where
  "WsOnOpen h c = c\<lparr>connected := True, hdl := Some h\<rparr>"

definition WsOnClose :: "WsClient \<Rightarrow> WsClient" where
  "WsOnClose c = c\<lparr>hdl := None, connected := False, close_issued := False\<rparr>"

definition WsConnect :: "bool \<Rightarrow> bool" where
  "WsConnect ec \<longleftrightarrow> \<not> ec"

text \<open>\<open>Send\<close> hands the text to the library for the handle, open or not; the library sets the error code.\<close>

definition WsSend :: "bool \<Rightarrow> bool" where
  "WsSend ec \<longleftrightarrow> \<not> ec"

text \<open>\<open>close\<close> is called without the error code, so that an error is an exception, \<open>None\<close> here.\<close>

definition WsClose :: "bool \<Rightarrow> WsClient \<Rightarrow> (bool \<times> WsClient) option" where
  "WsClose rejected c = (if rejected then None else Some (True, c\<lparr>close_issued := True\<rparr>))"

text \<open>The destructor closes the handle if there is a connection, for which the library may throw too.\<close>

definition WsDestroy :: "WsClient \<Rightarrow> int option list" where
  "WsDestroy c = (if connected c then [hdl c] else [])"

section \<open>The client of the server\<close>

text \<open>\<open>substr(4)\<close> throws on a shorter address; \<open>query\<close> is what the library makes of key and version.\<close>

definition cable_url :: "string \<Rightarrow> string \<Rightarrow> string option" where
  "cable_url kTIOJUrl query =
     (if length kTIOJUrl < 4 then None else Some (''ws'' @ drop 4 kTIOJUrl @ ''/cable?'' @ query))"

record Client =
  ws :: WsClient
  last_ping :: int

definition Client_new :: "string \<Rightarrow> Client" where
  "Client_new url = \<lparr>ws = WsClient_new url, last_ping = 0\<rparr>"

text \<open>
  The callbacks, with the time in nanoseconds where the code asks for it, and the check of
  \<open>RequestLoop\<close> whether the last sign of the server is more than eight seconds ago. The reaction of \<open>OnMessage\<close>
  says whether the version makes it close; the two flags say whether the library would refuse that.
\<close>

datatype ws_event =
  GotOpen int int | GotFail | GotClose | GotMessage int "json option" bool | PingCheck int bool

definition ping_limit :: int where "ping_limit = 8000000000"

definition timed_out :: "int \<Rightarrow> Client \<Rightarrow> bool" where
  "timed_out now c \<longleftrightarrow> CanSend (ws c) \<and> last_ping c > 0 \<and> now - last_ping c > ping_limit"

definition wants_close :: "json option \<Rightarrow> bool" where
  "wants_close msg \<longleftrightarrow> (case OnMessage msg of Welcome _ _ close \<Rightarrow> close | _ \<Rightarrow> False)"

definition issue_close :: "bool \<Rightarrow> Client \<Rightarrow> Client option" where
  "issue_close rejected c = map_option (\<lambda>(_, w). c\<lparr>ws := w\<rparr>) (WsClose rejected (ws c))"

text \<open>What a callback does to the client, and the events of the queues it is; \<open>None\<close> is an exception.\<close>

fun client_event :: "ws_event \<Rightarrow> Client \<Rightarrow> (Client \<times> req_event list) option" where
  "client_event (GotOpen h now) c = Some (c\<lparr>ws := WsOnOpen h (ws c), last_ping := now\<rparr>, [Opened])"
| "client_event GotFail c = Some (c, [Closed])"
| "client_event GotClose c = Some (c\<lparr>ws := WsOnClose (ws c)\<rparr>, [Closed])"
| "client_event (GotMessage now msg rejected) c =
     (let c = (if msg = None then c else c\<lparr>last_ping := now\<rparr>)
      in if wants_close msg then map_option (\<lambda>c. (c, [Answered, CloseIssued])) (issue_close rejected c)
         else Some (c, [Answered]))"
| "client_event (PingCheck now rejected) c =
     (if timed_out now c then map_option (\<lambda>c. (c, [CloseIssued])) (issue_close rejected c) else Some (c, []))"

fun client_events :: "ws_event list \<Rightarrow> Client \<Rightarrow> (Client \<times> req_event list) option" where
  "client_events [] c = Some (c, [])"
| "client_events (e # es) c =
     (case client_event e c of
        None \<Rightarrow> None
      | Some (c, xs) \<Rightarrow> map_option (apsnd ((@) xs)) (client_events es c))"

section \<open>Facts\<close>

text \<open>An address with \<open>https\<close> gives a connection with TLS, one with \<open>http\<close> does not.\<close>

lemma tls_of_url:
  "cable_url (''https'' @ rest) q = Some url \<Longrightarrow> is_tls (WsClient_new url)"
  "cable_url (''http:'' @ rest) q = Some url \<Longrightarrow> \<not> is_tls (WsClient_new url)"
  by (auto simp: cable_url_def WsClient_new_def)

text \<open>
  The order the library keeps: a connection opens or fails once, while there is none, and is closed
  once after it has opened, with messages in between; closing is refused only if there is no open connection.
\<close>

fun in_order :: "ws_event \<Rightarrow> Client \<Rightarrow> bool" where
  "in_order (GotOpen h now) c \<longleftrightarrow> \<not> connected (ws c)"
| "in_order GotFail c \<longleftrightarrow> \<not> connected (ws c)"
| "in_order GotClose c \<longleftrightarrow> connected (ws c)"
| "in_order (GotMessage now msg rejected) c \<longleftrightarrow> connected (ws c) \<and> rejected = close_issued (ws c)"
| "in_order (PingCheck now rejected) c \<longleftrightarrow> rejected = (\<not> CanSend (ws c))"

fun all_in_order :: "ws_event list \<Rightarrow> Client \<Rightarrow> bool" where
  "all_in_order [] c \<longleftrightarrow> True"
| "all_in_order (e # es) c \<longleftrightarrow>
     in_order e c \<and> (case client_event e c of None \<Rightarrow> True | Some (c, _) \<Rightarrow> all_in_order es c)"

definition client_ok :: "Client \<Rightarrow> bool" where
  "client_ok c \<longleftrightarrow> (connected (ws c) \<longleftrightarrow> hdl (ws c) \<noteq> None) \<and> (close_issued (ws c) \<longrightarrow> connected (ws c))"

lemma Client_new_ok [simp]: "client_ok (Client_new url)" "\<not> CanSend (ws (Client_new url))"
  by (simp_all add: client_ok_def Client_new_def WsClient_new_def CanSend_def)

lemmas client_simps = client_ok_def CanSend_def WsOnOpen_def WsOnClose_def issue_close_def WsClose_def timed_out_def

lemma client_event_ok:
  assumes "client_ok c" "in_order e c" "client_event e c = Some (c', xs)"
  shows "client_ok c'"
  using assms by (cases e) (auto simp: client_simps Let_def split: if_split_asm)

lemma client_event_sends:
  assumes "client_ok c" "in_order e c" "client_event e c = Some (c', xs)" "can_send n = CanSend (ws c)"
  shows "\<exists>n'. run_events xs (ph, n) = Inr (ph, n') \<and> can_send n' = CanSend (ws c')"
  using assms by (cases e) (auto simp: client_simps Let_def split: if_split_asm)

text \<open>Only a second answer with a version that cannot be read makes the client close twice.\<close>

lemma client_event_throws:
  assumes "in_order e c" "client_event e c = None"
  shows "\<exists>now msg. e = GotMessage now msg True \<and> wants_close msg \<and> close_issued (ws c)"
  using assms by (cases e) (auto simp: client_simps Let_def split: if_split_asm)

lemma run_events_append: "run_events (xs @ ys) s = and_then (run_events xs s) (run_events ys)"
  by (induction xs arbitrary: s) (auto simp: and_then_def split: sum.splits)

lemma run_client:
  assumes "client_ok c" "all_in_order es c" "client_events es c = Some (c', xs)" "can_send n = CanSend (ws c)"
  shows "client_ok c' \<and> (\<exists>n'. run_events xs (ph, n) = Inr (ph, n') \<and> can_send n' = CanSend (ws c'))"
  using assms
proof (induction es arbitrary: c xs n)
  case (Cons e es)
  from Cons.prems(3) obtain d ys zs where
    e: "client_event e c = Some (d, ys)" and es: "client_events es d = Some (c', zs)" and xs: "xs = ys @ zs"
    by (auto split: option.splits)
  have o: "in_order e c" "all_in_order es d" using Cons.prems(2) e by auto
  obtain m where m: "run_events ys (ph, n) = Inr (ph, m)" "can_send m = CanSend (ws d)"
    using client_event_sends [OF Cons.prems(1) o(1) e Cons.prems(4)] by blast
  show ?case
    using Cons.IH [OF client_event_ok [OF Cons.prems(1) o(1) e] o(2) es m(2)] m(1) by (simp add: xs run_events_append)
qed simp


definition sample_session :: "ws_event list" where
  "sample_session =
     [GotOpen 5 1000000000, GotMessage 2000000000 (Some (JObject [(''type'', JString ''ping'')])) False,
      PingCheck 9000000000 False, PingCheck 11000000000 False, GotClose, GotFail, GotOpen 6 20000000000]"


end
