(* ===== verification/Files.thy ===== *)
theory Files
  imports Data "HOL-Library.Sublist"
begin

text \<open>
  The file operations of \<open>src/tioj/utils.cpp\<close> on a tree of files: \<open>CreateDirs\<close>, \<open>RemoveAll\<close>, \<open>Move\<close>, \<open>Copy\<close>,
  \<open>MountTmpfs\<close>, \<open>Umount\<close>, and the transfer loop of \<open>SpliceProcess\<close>; so that the calls a handler records can be
  run. What is proved: what \<open>Copy\<close> and \<open>Move\<close> deliver, within a file system and across two, what they leave alone,
  and that a transfer is a beginning of its input within the limit.
\<close>

section \<open>The tree of files\<close>

text \<open>
  What the calls of \<open>std::filesystem\<close> and of the system work on: regular files and directories with their mode,
  and symbolic links; the file system a path lies in; the paths the system refuses to change, for any
  reason; what a mount has hidden; and the paths where something has ever been, among which are the members of a
  directory. Links are followed at the end of a path, with absolute targets.
\<close>

datatype inode = RegFile string nat | Folder nat | SymLink path

record Disk =
  inode_at :: "path \<Rightarrow> inode option"
  device :: "path \<Rightarrow> int"
  locked :: "path \<Rightarrow> bool"
  mounts :: "(path \<times> (path \<Rightarrow> inode option) \<times> (path \<Rightarrow> int)) list"
  next_device :: int
  names :: "path list"

datatype errno = EXDEV | OtherError

fun follow :: "nat \<Rightarrow> (path \<Rightarrow> inode option) \<Rightarrow> path \<Rightarrow> path option" where
  "follow 0 st p = None"
| "follow (Suc n) st p = (case st p of Some (SymLink q) \<Rightarrow> follow n st q | _ \<Rightarrow> Some p)"

text \<open>After forty links the system gives up.\<close>

definition resolve :: "Disk \<Rightarrow> path \<Rightarrow> path option" where
  "resolve d p = follow 40 (inode_at d) p"

definition parent :: "path \<Rightarrow> path" where
  "parent p = rev (tl (dropWhile (\<lambda>c. c \<noteq> CHR ''/'') (rev p)))"

definition below :: "path \<Rightarrow> path \<Rightarrow> bool" where
  "below q p \<longleftrightarrow> prefix (p @ ''/'') q"

definition is_folder :: "Disk \<Rightarrow> path \<Rightarrow> bool" where
  "is_folder d p \<longleftrightarrow> p = [] \<or>
     (case resolve d p of None \<Rightarrow> False | Some q \<Rightarrow> (case inode_at d q of Some (Folder _) \<Rightarrow> True | _ \<Rightarrow> False))"

definition put :: "path \<Rightarrow> inode \<Rightarrow> Disk \<Rightarrow> Disk" where
  "put p x d = d\<lparr>inode_at := (inode_at d)(p \<mapsto> x), names := p # names d\<rparr>"

definition erase :: "path \<Rightarrow> Disk \<Rightarrow> Disk" where
  "erase p d = d\<lparr>inode_at := (inode_at d)(p := None)\<rparr>"

text \<open>
  \<open>rename\<close> does not follow links. The decision whether two paths are on one file system comes before the
  tests of the target; a directory takes its contents along.
\<close>

definition is_empty_folder :: "Disk \<Rightarrow> path \<Rightarrow> bool" where
  "is_empty_folder d p \<longleftrightarrow> (\<forall>r \<in> set (names d). below r p \<longrightarrow> inode_at d r = None)"

definition can_replace :: "inode \<Rightarrow> path \<Rightarrow> Disk \<Rightarrow> bool" where
  "can_replace x q d \<longleftrightarrow>
     (case inode_at d q of
        None \<Rightarrow> True
      | Some (Folder _) \<Rightarrow> (case x of Folder _ \<Rightarrow> is_empty_folder d q | _ \<Rightarrow> False)
      | Some _ \<Rightarrow> (case x of Folder _ \<Rightarrow> False | _ \<Rightarrow> True))"

definition relocate :: "path \<Rightarrow> path \<Rightarrow> Disk \<Rightarrow> Disk" where
  "relocate p q d = d\<lparr>inode_at := (\<lambda>r.
     if r = q then inode_at d p
     else if below r q then inode_at d (p @ drop (length q) r)
     else if r = p \<or> below r p then None
     else inode_at d r),
     names := q # map (\<lambda>r. q @ drop (length p) r) (filter (\<lambda>r. below r p) (names d)) @ names d\<rparr>"

definition fs_rename_call :: "path \<Rightarrow> path \<Rightarrow> Disk \<Rightarrow> errno + Disk" where
  "fs_rename_call p q d =
     (case inode_at d p of
        None \<Rightarrow> Inl OtherError
      | Some x \<Rightarrow>
          if \<not> is_folder d (parent q) then Inl OtherError
          else if device d p \<noteq> device d q then Inl EXDEV
          else if p = q then Inr d
          else if locked d p \<or> locked d q \<or> below q p \<or> \<not> can_replace x q d then Inl OtherError
          else Inr (relocate p q d))"

text \<open>
  \<open>copy_file\<close> with \<open>overwrite_existing\<close> follows both paths, wants a regular file on either side, refuses to
  copy a file to itself, and gives the copy the mode of the source.
\<close>

definition fs_copy_call :: "path \<Rightarrow> path \<Rightarrow> Disk \<Rightarrow> errno + Disk" where
  "fs_copy_call p q d =
     (case (resolve d p, resolve d q) of
        (Some a, Some b) \<Rightarrow>
          (case inode_at d a of
             Some (RegFile s m) \<Rightarrow>
               if a = b \<or> locked d b then Inl OtherError
               else (case inode_at d b of
                       None \<Rightarrow> if is_folder d (parent b) then Inr (put b (RegFile s m) d) else Inl OtherError
                     | Some (RegFile _ _) \<Rightarrow> Inr (put b (RegFile s m) d)
                     | Some _ \<Rightarrow> Inl OtherError)
           | _ \<Rightarrow> Inl OtherError)
      | _ \<Rightarrow> Inl OtherError)"

definition fs_remove_call :: "path \<Rightarrow> Disk \<Rightarrow> errno + Disk" where
  "fs_remove_call p d = (if locked d p then Inl OtherError else Inr (erase p d))"

definition with_mode :: "nat \<Rightarrow> inode \<Rightarrow> inode" where
  "with_mode m x = (case x of RegFile s _ \<Rightarrow> RegFile s m | Folder _ \<Rightarrow> Folder m | SymLink p \<Rightarrow> SymLink p)"

definition fs_permissions_call :: "path \<Rightarrow> nat \<Rightarrow> Disk \<Rightarrow> errno + Disk" where
  "fs_permissions_call p m d =
     (case resolve d p of
        None \<Rightarrow> Inl OtherError
      | Some q \<Rightarrow>
          (case inode_at d q of
             None \<Rightarrow> Inl OtherError
           | Some x \<Rightarrow> if locked d q then Inl OtherError else Inr (put q (with_mode m x) d)))"

text \<open>
  \<open>create_directories\<close> makes what is missing on the way, with the modes \<open>umask\<close> leaves of 0777 (755 octal is 493).
\<close>

fun make_folders :: "path list \<Rightarrow> Disk \<Rightarrow> errno + Disk" where
  "make_folders [] d = Inr d"
| "make_folders (p # ps) d =
     (if is_folder d p then make_folders ps d
      else if inode_at d p \<noteq> None \<or> locked d p then Inl OtherError
      else make_folders ps (put p (Folder 493) d))"

definition ancestors :: "path \<Rightarrow> path list" where
  "ancestors p = filter (\<lambda>q. q \<noteq> [] \<and> take 1 (drop (length q) p) = ''/'') (prefixes p) @ [p]"

definition fs_create_directories_call :: "path \<Rightarrow> Disk \<Rightarrow> errno + Disk" where
  "fs_create_directories_call p d = make_folders (ancestors p) d"

definition fs_remove_all_call :: "path \<Rightarrow> Disk \<Rightarrow> errno + Disk" where
  "fs_remove_all_call p d =
     (if locked d p then Inl OtherError
      else Inr (d\<lparr>inode_at := (\<lambda>r. if r = p \<or> below r p then None else inode_at d r)\<rparr>))"

section \<open>The operations\<close>

text \<open>
  \<open>fs::perms::unknown\<close> is \<open>None\<close>. Every function returns whether it succeeded; the callers ignore it,
  except for the testdata and in \<open>SetupSummary\<close>.
\<close>

definition set_perms :: "path \<Rightarrow> nat option \<Rightarrow> Disk \<Rightarrow> bool \<times> Disk" where
  "set_perms p perms d =
     (case perms of
        None \<Rightarrow> (True, d)
      | Some m \<Rightarrow> (case fs_permissions_call p m d of Inl _ \<Rightarrow> (False, d) | Inr d \<Rightarrow> (True, d)))"

definition CreateDirs :: "path \<Rightarrow> nat option \<Rightarrow> Disk \<Rightarrow> bool \<times> Disk" where
  "CreateDirs p perms d =
     (case fs_create_directories_call p d of Inl _ \<Rightarrow> (False, d) | Inr d \<Rightarrow> set_perms p perms d)"

definition RemoveAll :: "path \<Rightarrow> Disk \<Rightarrow> bool \<times> Disk" where
  "RemoveAll p d = (case fs_remove_all_call p d of Inl _ \<Rightarrow> (False, d) | Inr d \<Rightarrow> (True, d))"

text \<open>Between two file systems a file is copied and removed; an error of the removal is overwritten or not looked at.\<close>

definition Move :: "path \<Rightarrow> path \<Rightarrow> nat option \<Rightarrow> Disk \<Rightarrow> bool \<times> Disk" where
  "Move p q perms d =
     (case fs_rename_call p q d of
        Inr d \<Rightarrow> set_perms q perms d
      | Inl e \<Rightarrow>
          if e \<noteq> EXDEV then (False, d)
          else (case fs_copy_call p q d of
                  Inl _ \<Rightarrow> (False, d)
                | Inr d \<Rightarrow> set_perms q perms (case fs_remove_call p d of Inl _ \<Rightarrow> d | Inr d \<Rightarrow> d)))"

definition Copy :: "path \<Rightarrow> path \<Rightarrow> nat option \<Rightarrow> Disk \<Rightarrow> bool \<times> Disk" where
  "Copy p q perms d = (case fs_copy_call p q d of Inl _ \<Rightarrow> (False, d) | Inr d \<Rightarrow> set_perms q perms d)"

text \<open>
  A mounted tmpfs is an empty directory with the mode 1777 (1023) on a file system of its own; it hides what
  was there, until it is unmounted. Its size, the limit of what can be written, is not represented.
\<close>

definition MountTmpfs :: "path \<Rightarrow> Disk \<Rightarrow> bool \<times> Disk" where
  "MountTmpfs p d =
     (if locked d p \<or> \<not> is_folder d p then (False, d)
      else (True, d\<lparr>
        inode_at := (\<lambda>r. if r = p then Some (Folder 1023) else if below r p then None else inode_at d r),
        device := (\<lambda>r. if r = p \<or> below r p then next_device d else device d r),
        mounts := (p, inode_at d, device d) # mounts d, next_device := next_device d + 1\<rparr>))"

definition Umount :: "path \<Rightarrow> Disk \<Rightarrow> bool \<times> Disk" where
  "Umount p d =
     (case find (\<lambda>m. fst m = p) (mounts d) of
        Some (_, old, dev) \<Rightarrow>
          if locked d p then (False, d)
          else (True, d\<lparr>
            inode_at := (\<lambda>r. if r = p \<or> below r p then old r else inode_at d r),
            device := (\<lambda>r. if r = p \<or> below r p then dev r else device d r),
            mounts := filter (\<lambda>m. fst m \<noteq> p) (mounts d)\<rparr>)
      | None \<Rightarrow> (False, d))"

text \<open>
  \<open>SpliceProcess\<close>: a grandchild moves bytes in pieces of at most 65536 until the limit, the end of the
  input or an error. \<open>rets\<close> are the results of \<open>splice\<close>, which moves no more than it is asked to; when there are
  none left the loop is still waiting. The result is what has been moved.
\<close>

fun splice_loop :: "int list \<Rightarrow> nat \<Rightarrow> string \<Rightarrow> string" where
  "splice_loop [] max_size s = []"
| "splice_loop (ret # rets) max_size s =
     (if max_size = 0 \<or> ret \<le> 0 then []
      else let n = min (nat ret) (min max_size 65536)
           in take n s @ splice_loop rets (max_size - n) (drop n s))"

text \<open>
  The results of both \<open>fork\<close> and of \<open>waitpid\<close>: whether the caller is told that all is well, and whether
  the loop runs. The child between only exits, with 1 if its own \<open>fork\<close> failed.
\<close>

definition SpliceProcess :: "int \<Rightarrow> int \<Rightarrow> int \<Rightarrow> bool \<times> bool" where
  "SpliceProcess pid pid2 waited =
     (if pid < 0 then (False, False) else (waited \<ge> 0 \<and> pid2 \<ge> 0, pid2 \<ge> 0))"

section \<open>Facts\<close>

lemma splice_loop_prefix: "prefix (splice_loop rets m s) s \<and> length (splice_loop rets m s) \<le> m"
proof (induction rets arbitrary: m s)
  case (Cons ret rets)
  define n where "n = min (nat ret) (min m 65536)"
  define moved where "moved = splice_loop rets (m - n) (drop n s)"
  from Cons [of "m - n" "drop n s"] obtain zs where z: "drop n s = moved @ zs" and l: "length moved \<le> m - n"
    by (auto simp: prefix_def moved_def)
  have "s = take n s @ moved @ zs" using z append_take_drop_id [of n s] by simp
  then have "prefix (take n s @ moved) s" unfolding prefix_def by (metis append.assoc)
  moreover have "n \<le> m" by (simp add: n_def)
  then have "length (take n s @ moved) \<le> m" using l length_take [of n s] by simp
  ultimately show ?case by (simp add: Let_def n_def [symmetric] moved_def [symmetric])
qed simp

text \<open>
  What programs see of a tree apart from modes and directories: the content of regular files and the
  targets of links. The content a path leads to depends on nothing else.
\<close>

definition part_of :: "inode option \<Rightarrow> (string + path) option" where
  "part_of x = (case x of Some (RegFile s _) \<Rightarrow> Some (Inl s) | Some (SymLink p) \<Rightarrow> Some (Inr p) | _ \<Rightarrow> None)"

definition part_at :: "Disk \<Rightarrow> path \<Rightarrow> (string + path) option" where
  "part_at d p = part_of (inode_at d p)"

definition read_path :: "Disk \<Rightarrow> path \<Rightarrow> string option" where
  "read_path d p =
     (case resolve d p of
        None \<Rightarrow> None
      | Some q \<Rightarrow> (case inode_at d q of Some (RegFile s _) \<Rightarrow> Some s | _ \<Rightarrow> None))"

lemma part_simps [simp]:
  "part_of (Some (RegFile s m)) = Some (Inl s)" "part_of (Some (SymLink p)) = Some (Inr p)"
  "part_of (Some (Folder m)) = None" "part_of None = None" "part_of (Some (with_mode m x)) = part_of (Some x)"
  by (auto simp: part_of_def with_mode_def split: inode.splits)

lemma part_Inr: "part_of x = Some (Inr p) \<longleftrightarrow> x = Some (SymLink p)"
  by (auto simp: part_of_def split: option.splits inode.splits)

lemma part_Inl: "part_of x = Some (Inl s) \<longleftrightarrow> (\<exists>m. x = Some (RegFile s m))"
  by (auto simp: part_of_def split: option.splits inode.splits)

lemma part_put: "part_at (put p x d) q = (if q = p then part_of (Some x) else part_at d q)"
  by (simp add: part_at_def put_def)

lemma follow_part: "follow n st p = (case n of 0 \<Rightarrow> None | Suc k \<Rightarrow>
    (case part_of (st p) of Some (Inr q) \<Rightarrow> follow k st q | _ \<Rightarrow> Some p))"
  by (cases n) (auto simp: part_of_def split: option.splits inode.splits)

lemma follow_cong: "(\<And>q. part_of (st q) = part_of (st' q)) \<Longrightarrow> follow n st p = follow n st' p"
proof (induction n arbitrary: p)
  case (Suc n)
  then show ?case unfolding follow_part [of "Suc n"] by (auto split: option.splits sum.splits)
qed simp

lemma read_part: "read_path d p = (case resolve d p of None \<Rightarrow> None | Some q \<Rightarrow>
    (case part_at d q of Some (Inl s) \<Rightarrow> Some s | _ \<Rightarrow> None))"
  by (auto simp: read_path_def part_at_def part_of_def split: option.splits inode.splits)

lemma read_cong:
  assumes "part_at d = part_at d'"
  shows "resolve d p = resolve d' p" and "read_path d p = read_path d' p"
proof -
  have "part_of (inode_at d q) = part_of (inode_at d' q)" for q
    using fun_cong [OF assms, of q] by (simp add: part_at_def)
  then show r: "resolve d p = resolve d' p" unfolding resolve_def by (rule follow_cong)
  show "read_path d p = read_path d' p" unfolding read_part r assms ..
qed

lemma resolve_here: "(\<forall>q. part_at d p \<noteq> Some (Inr q)) \<Longrightarrow> resolve d p = Some p"
  using follow_part [of 40 "inode_at d" p] by (auto simp: resolve_def part_at_def split: option.splits sum.splits)

lemma read_here: "part_at d p = Some (Inl s) \<Longrightarrow> read_path d p = Some s"
  by (simp add: read_part resolve_here)

lemma put_same: "part_of (Some x) = part_at d p \<Longrightarrow> part_at (put p x d) = part_at d"
  by (simp add: fun_eq_iff part_put)

lemma follow_end: "follow n st p = Some q \<Longrightarrow> part_of (st q) \<noteq> Some (Inr r)"
  by (induction n arbitrary: p) (auto simp: part_of_def split: option.splits inode.splits)

lemma set_perms_part: "part_at (snd (set_perms p perms d)) = part_at d"
proof -
  have "snd (set_perms p perms d) = d \<or> (\<exists>q x m. inode_at d q = Some x \<and> snd (set_perms p perms d) = put q (with_mode m x) d)"
    by (auto simp: set_perms_def fs_permissions_call_def split: option.splits)
  then show ?thesis by (auto intro!: put_same simp: part_at_def)
qed

lemma make_folders_part: "make_folders ps d = Inr d' \<Longrightarrow> part_at d' = part_at d"
proof (induction ps arbitrary: d)
  case (Cons p ps)
  show ?case
  proof (cases "is_folder d p")
    case False
    then have n: "inode_at d p = None" "make_folders ps (put p (Folder 493) d) = Inr d'"
      using Cons.prems by (auto split: if_split_asm)
    have "part_at (put p (Folder 493) d) = part_at d" using n(1) by (intro put_same) (simp add: part_at_def)
    then show ?thesis using Cons.IH [OF n(2)] by simp
  qed (use Cons in simp)
qed simp

lemma CreateDirs_part: "part_at (snd (CreateDirs p perms d)) = part_at d"
proof (cases "fs_create_directories_call p d")
  case (Inr d')
  then show ?thesis
    using make_folders_part [of "ancestors p" d d'] set_perms_part [of p perms d']
    by (simp add: CreateDirs_def fs_create_directories_call_def)
qed (simp add: CreateDirs_def)

section \<open>Delivery\<close>

text \<open>What \<open>Copy\<close> does when it succeeds: it follows the links of both paths.\<close>

lemma Copy_part:
  assumes "Copy p q perms d = (True, d')"
  obtains s b where "read_path d p = Some s" "resolve d q = Some b" "part_at d' = (part_at d)(b := Some (Inl s))"
proof (cases "fs_copy_call p q d")
  case (Inr e)
  then obtain a b s m where r: "resolve d p = Some a" "inode_at d a = Some (RegFile s m)" "resolve d q = Some b"
    and e: "e = put b (RegFile s m) d"
    by (auto simp: fs_copy_call_def split: option.splits inode.splits if_split_asm)
  have d': "d' = snd (set_perms q perms e)" using assms Inr by (simp add: Copy_def)
  have "part_at d' = (part_at d)(b := Some (Inl s))"
    unfolding d' set_perms_part unfolding e by (auto simp: part_put fun_eq_iff)
  with r show thesis by (intro that) (auto simp: read_path_def)
qed (use assms in \<open>simp add: Copy_def\<close>)

lemma Copy_frame:
  assumes "\<forall>t. part_at d q \<noteq> Some (Inr t)" "r \<noteq> q"
  shows "part_at (snd (Copy p q perms d)) r = part_at d r"
proof (cases "fs_copy_call p q d")
  case (Inr e)
  then obtain x where e: "e = put q x d"
    using resolve_here [OF assms(1)] by (auto simp: fs_copy_call_def split: option.splits inode.splits if_split_asm)
  have "snd (Copy p q perms d) = snd (set_perms q perms e)" using Inr by (simp add: Copy_def)
  then show ?thesis using set_perms_part [of q perms e] assms(2) by (simp add: e part_put)
qed (simp add: Copy_def)

text \<open>What \<open>Move\<close> does, within a file system or across two.\<close>

lemma part_erase: "part_at (erase p d) r = (if r = p then None else part_at d r)"
  by (simp add: part_at_def erase_def)

lemma part_relocate: "part_at (relocate p q d) r =
    (if r = q then part_at d p else if below r q then part_at d (p @ drop (length q) r)
     else if r = p \<or> below r p then None else part_at d r)"
  by (simp add: part_at_def relocate_def)

lemma rename_part:
  assumes "fs_rename_call p q d = Inr e"
  shows "part_at e = (if p = q then part_at d else part_at (relocate p q d))"
  using assms by (auto simp: fs_rename_call_def split: option.splits if_split_asm)

definition copied_over :: "path \<Rightarrow> path \<Rightarrow> Disk \<Rightarrow> Disk \<Rightarrow> bool" where
  "copied_over p q d d' \<longleftrightarrow>
     (\<exists>e. fs_copy_call p q d = Inr e \<and> (part_at d' = part_at e \<or> part_at d' = part_at (erase p e)))"

lemma Move_cases:
  "part_at (snd (Move p q perms d)) = part_at d \<or>
   p \<noteq> q \<and> part_at (snd (Move p q perms d)) = part_at (relocate p q d) \<or>
   copied_over p q d (snd (Move p q perms d))"
proof (cases "fs_rename_call p q d")
  case (Inr e)
  then have "snd (Move p q perms d) = snd (set_perms q perms e)" by (simp add: Move_def)
  then show ?thesis using set_perms_part [of q perms e] rename_part [OF Inr] by auto
next
  case (Inl x)
  show ?thesis
  proof (cases "x = EXDEV \<and> (\<exists>e. fs_copy_call p q d = Inr e)")
    case True
    then obtain e where e: "fs_copy_call p q d = Inr e" "x = EXDEV" by blast
    then have "part_at (snd (Move p q perms d)) = part_at (case fs_remove_call p e of Inl _ \<Rightarrow> e | Inr d \<Rightarrow> d)"
      using Inl set_perms_part by (simp add: Move_def)
    then show ?thesis using e(1) by (auto simp: copied_over_def fs_remove_call_def)
  next
    case False
    then have "snd (Move p q perms d) = d" using Inl by (auto simp: Move_def split: sum.splits)
    then show ?thesis by simp
  qed
qed

lemma copy_call_part:
  assumes "fs_copy_call p q d = Inr e" "\<forall>t. part_at d q \<noteq> Some (Inr t)"
  obtains s where "read_path d p = Some s" "part_at e = (part_at d)(q := Some (Inl s))"
proof -
  from Copy_part [of p q None d e] assms(1) obtain s b where
    "read_path d p = Some s" "resolve d q = Some b" "part_at e = (part_at d)(b := Some (Inl s))"
    by (auto simp: Copy_def set_perms_def)
  then show thesis using that resolve_here [OF assms(2)] by simp
qed

text \<open>
  The contract of both operations, for a target that is no link: on success the content of a regular
  file arrives, and paths that are neither named nor below what is named are left alone, success or not.
\<close>

locale delivery =
  fixes deliver :: "path \<Rightarrow> path \<Rightarrow> nat option \<Rightarrow> Disk \<Rightarrow> bool \<times> Disk"
  assumes arrives: "deliver p q perms d = (True, d') \<Longrightarrow> part_at d p = Some (Inl s) \<Longrightarrow> p \<noteq> q \<Longrightarrow>
      \<forall>t. part_at d q \<noteq> Some (Inr t) \<Longrightarrow> part_at d' q = Some (Inl s)"
    and frame: "deliver p q perms d = (ok, d') \<Longrightarrow> \<forall>t. part_at d q \<noteq> Some (Inr t) \<Longrightarrow>
      r \<noteq> p \<Longrightarrow> r \<noteq> q \<Longrightarrow> \<not> below r p \<Longrightarrow> \<not> below r q \<Longrightarrow> part_at d' r = part_at d r"
begin

lemma arrives_read:
  "deliver p q perms d = (True, d') \<Longrightarrow> part_at d p = Some (Inl s) \<Longrightarrow> p \<noteq> q \<Longrightarrow>
   \<forall>t. part_at d q \<noteq> Some (Inr t) \<Longrightarrow> read_path d' q = Some s"
  by (rule read_here [OF arrives])

lemma keeps_read:
  "deliver p q perms d = (ok, d') \<Longrightarrow> part_at d r = Some (Inl s) \<Longrightarrow> \<forall>t. part_at d q \<noteq> Some (Inr t) \<Longrightarrow>
   r \<noteq> p \<Longrightarrow> r \<noteq> q \<Longrightarrow> \<not> below r p \<Longrightarrow> \<not> below r q \<Longrightarrow> read_path d' r = Some s"
  by (rule read_here) (simp add: frame)

end

interpretation copying: delivery Copy
proof
  fix p q perms d d' s
  assume a: "Copy p q perms d = (True, d')" "part_at d p = Some (Inl s)" "\<forall>t. part_at d q \<noteq> Some (Inr t)"
  from Copy_part [OF a(1)] obtain t b where
    "read_path d p = Some t" "resolve d q = Some b" "part_at d' = (part_at d)(b := Some (Inl t))" .
  then show "part_at d' q = Some (Inl s)" using resolve_here [OF a(3)] read_here [OF a(2)] by simp
next
  fix p q perms d ok d' r
  assume "Copy p q perms d = (ok, d')" "\<forall>t. part_at d q \<noteq> Some (Inr t)" "r \<noteq> q"
  then show "part_at d' r = part_at d r" using Copy_frame [of d q r p perms] by simp
qed

interpretation moving: delivery Move
proof
  fix p q perms d d' s
  assume a: "Move p q perms d = (True, d')" "part_at d p = Some (Inl s)" "p \<noteq> q" "\<forall>t. part_at d q \<noteq> Some (Inr t)"
  show "part_at d' q = Some (Inl s)"
  proof (cases "fs_rename_call p q d")
    case (Inr e)
    then have "d' = snd (set_perms q perms e)" using a(1) by (simp add: Move_def)
    then show ?thesis using set_perms_part [of q perms e] rename_part [OF Inr] a by (simp add: part_relocate)
  next
    case (Inl x)
    then obtain e where e: "fs_copy_call p q d = Inr e"
      and d': "d' = snd (set_perms q perms (case fs_remove_call p e of Inl _ \<Rightarrow> e | Inr d \<Rightarrow> d))"
      using a(1) by (auto simp: Move_def split: if_split_asm sum.splits)
    from copy_call_part [OF e a(4)] read_here [OF a(2)] have "part_at e = (part_at d)(q := Some (Inl s))" by fastforce
    then show ?thesis using a(3) unfolding d' set_perms_part by (auto simp: fs_remove_call_def part_erase)
  qed
next
  fix p q perms d ok d' r
  assume a: "Move p q perms d = (ok, d')" "\<forall>t. part_at d q \<noteq> Some (Inr t)"
    and r: "r \<noteq> p" "r \<noteq> q" "\<not> below r p" "\<not> below r q"
  have d': "d' = snd (Move p q perms d)" using a(1) by simp
  consider "part_at d' = part_at d" | "part_at d' = part_at (relocate p q d)" | "copied_over p q d d'"
    using Move_cases [of p q perms d] unfolding d' by blast
  then show "part_at d' r = part_at d r"
  proof cases
    case 3
    then obtain e where e: "fs_copy_call p q d = Inr e" "part_at d' = part_at e \<or> part_at d' = part_at (erase p e)"
      by (auto simp: copied_over_def)
    from copy_call_part [OF e(1) a(2)] obtain s where "part_at e = (part_at d)(q := Some (Inl s))" .
    then show ?thesis using e(2) r by (auto simp: part_erase)
  qed (use r in \<open>simp_all add: part_relocate\<close>)
qed

text \<open>
  The comment in \<open>src/tioj/utils.h\<close> says that both follow symbolic links. \<open>Copy\<close> does; \<open>Move\<close> does only
  between two file systems, and within one it moves the link, so that the target leads to the same file as before.
\<close>

lemma Move_keeps_link:
  assumes "Move p q perms d = (True, d')" "part_at d p = Some (Inr t)" "device d p = device d q" "p \<noteq> q"
  shows "part_at d' q = Some (Inr t)"
proof -
  obtain e where e: "fs_rename_call p q d = Inr e" "d' = snd (set_perms q perms e)"
    using assms(1,3) by (auto simp: Move_def fs_rename_call_def split: option.splits if_split_asm sum.splits)
  then show ?thesis using set_perms_part [of q perms e] rename_part [OF e(1)] assms(2,4) by (simp add: part_relocate)
qed

text \<open>Across two file systems the source may stay, and the caller is told that it has been moved.\<close>

lemma Move_keeps_source:
  assumes "fs_rename_call p q d = Inl EXDEV" "fs_copy_call p q d = Inr e" "locked e p"
  shows "Move p q None d = (True, e)"
  using assms by (simp add: Move_def fs_remove_call_def set_perms_def)

end
