(* ===== verification/Prepared.thy ===== *)
theory Prepared
  imports Files Sample
begin

text \<open>
  The file operations a handler records, run on a tree of files. What is proved: when the calls of
  \<open>SetupExecute\<close> succeed on a tree without the box, the box holds the compiled program of the stage, and
  as its input the input of the testdata or the output of the stage before.
\<close>

section \<open>Running the recorded calls\<close>

text \<open>
  An output stream that is opened and closed creates or empties the file its path leads to; \<open>dump\<close> is the
  serializer of the JSON library. Owners are not represented, and the code ignores the result of \<open>chown\<close>.
\<close>

definition write_call :: "path \<Rightarrow> string \<Rightarrow> Disk \<Rightarrow> bool \<times> Disk" where
  "write_call p s d =
     (case resolve d p of
        None \<Rightarrow> (False, d)
      | Some q \<Rightarrow>
          if locked d q then (False, d)
          else (case inode_at d q of
                  None \<Rightarrow> if is_folder d (parent q) then (True, put q (RegFile s 420) d) else (False, d)
                | Some (RegFile _ m) \<Rightarrow> (True, put q (RegFile s m) d)
                | Some _ \<Rightarrow> (False, d)))"

fun run_op :: "(json \<Rightarrow> string) \<Rightarrow> fs_op \<Rightarrow> Disk \<Rightarrow> bool \<times> Disk" where
  "run_op dump (FsCreateDirs p perms) d = CreateDirs p perms d"
| "run_op dump (FsCopy p q perms) d = Copy p q perms d"
| "run_op dump (FsMove p q perms) d = Move p q perms d"
| "run_op dump (FsRemoveAll p) d = RemoveAll p d"
| "run_op dump (FsMountTmpfs p _) d = MountTmpfs p d"
| "run_op dump (FsUmount p) d = Umount p d"
| "run_op dump (FsTouch p) d = write_call p [] d"
| "run_op dump (FsPermissions p m) d = set_perms p (Some m) d"
| "run_op dump (FsChownRoot p) d = (True, d)"
| "run_op dump (FsWriteJson p j) d = write_call p (dump j) d"
| "run_op dump (FsWriteText p s) d = write_call p s d"

text \<open>Whether all succeed, and the tree at the end; a call that fails does not stop the others.\<close>

fun run_ops :: "(json \<Rightarrow> string) \<Rightarrow> fs_op list \<Rightarrow> Disk \<Rightarrow> bool \<times> Disk" where
  "run_ops dump [] d = (True, d)"
| "run_ops dump (x # xs) d =
     (let (ok, d) = run_op dump x d; (oks, d) = run_ops dump xs d in (ok \<and> oks, d))"

lemma run_ops_ConsE:
  assumes "run_ops dump (x # xs) d = (True, d')"
  obtains e where "run_op dump x d = (True, e)" "run_ops dump xs e = (True, d')"
  using assms by (auto simp: Let_def split: prod.splits)

section \<open>The calls of SetupExecute\<close>

definition execute_ops :: "Config \<Rightarrow> Submission \<Rightarrow> TestdataItem \<Rightarrow> int \<Rightarrow> int \<Rightarrow> int \<Rightarrow> fs_op list" where
  "execute_ops cfg sb item i stg kib =
     (let iid = submission_internal_id sb; wd = Workdir (ExecuteBoxPath cfg iid i stg);
          (prog, lng) = stage_program sb stg
      in FsCreateDirs wd None # (if sandbox_strict sb then [] else [FsMountTmpfs wd kib]) @
         FsCopy (CompileBoxOutput cfg iid prog lng False) (ExecuteBoxProgram cfg iid i stg lng False)
           (Some (ExecuteBoxProgramPerm lng (sandbox_strict sb))) # execute_input_ops cfg sb item i stg)"

lemma SetupExecute_ops:
  assumes "SetupExecute cfg fs sr task st = Inr (True, st')"
  obtains item kib where "nth_opt (testdata (sub sr)) (nat (subtask (te_task task))) = Some item"
    "events st' = events st @ map Fs (execute_ops cfg (sub sr) item (subtask (te_task task)) (stage (te_task task)) kib)"
proof -
  obtain item where item: "nth_opt (testdata (sub sr)) (nat (subtask (te_task task))) = Some item"
    using assms by (auto simp: SetupExecute_def Let_def split: if_split_asm option.splits)
  have "\<exists>kib. events st' = events st @ map Fs (execute_ops cfg (sub sr) item (subtask (te_task task)) (stage (te_task task)) kib)"
    using assms item
    by (auto simp: SetupExecute_def Let_def execute_ops_def emit_def split: if_split_asm option.splits prod.splits)
  with item show thesis using that by blast
qed

section \<open>Facts\<close>

lemma MountTmpfs_part:
  assumes "MountTmpfs p d = (True, d')" "\<forall>r. inside r p \<longrightarrow> part_at d r = None"
  shows "part_at d' = part_at d"
  using assms
  by (auto simp: MountTmpfs_def part_at_def below_def inside_def fun_eq_iff split: if_split_asm)

text \<open>A file that can be read can still be read when something appears where nothing was.\<close>

lemma follow_extend:
  assumes "follow n (inode_at d) p = Some q" "part_at d q = Some x" "part_at d b = None"
    "part_at d' = (part_at d)(b := y)"
  shows "follow n (inode_at d') p = Some q"
  using assms(1)
proof (induction n arbitrary: p)
  case (Suc n)
  have e: "part_of (inode_at d' p) = (if p = b then y else part_of (inode_at d p))"
    using fun_cong [OF assms(4), of p] by (simp add: part_at_def)
  show ?case
  proof (cases "p = b")
    case True
    then have "q = p" using Suc.prems assms(3) unfolding follow_part [of "Suc n"] by (simp add: part_at_def)
    then show ?thesis using assms(2,3) True by simp
  next
    case False
    then show ?thesis using Suc e unfolding follow_part [of "Suc n"] by (auto split: option.splits sum.splits)
  qed
qed simp

lemma read_extend:
  assumes "read_path d p = Some s" "part_at d b = None" "part_at d' = (part_at d)(b := y)"
  shows "read_path d' p = Some s"
proof -
  obtain q where q: "resolve d p = Some q" "part_at d q = Some (Inl s)"
    using assms(1) unfolding read_part by (auto split: option.splits sum.splits)
  have "resolve d' p = Some q"
    using follow_extend [OF q(1) [unfolded resolve_def] q(2) assms(2,3)] by (simp add: resolve_def)
  moreover have "part_at d' q = Some (Inl s)" using q(2) assms(2,3) by auto
  ultimately show ?thesis by (simp add: read_part)
qed

section \<open>Paths of an execution\<close>

lemma execute_box_eq:
  assumes "0 \<le> iid" "0 \<le> i" "0 \<le> stg"
  shows "ExecuteBoxPath cfg iid i stg =
    root_sep (kBoxRoot cfg) @ PadInt iid 6 @ CHR ''/'' # box_name (ExecuteBox i stg)"
  using box_path_eq [of iid "ExecuteBox i stg" cfg] assms by simp

lemma execute_box_sep:
  assumes "0 \<le> iid" "0 \<le> i" "0 \<le> stg"
  shows "root_sep (ExecuteBoxPath cfg iid i stg) = ExecuteBoxPath cfg iid i stg @ ''/''"
proof -
  have n: "CHR ''/'' \<notin> set (box_name (ExecuteBox i stg))" by (rule box_name_no_slash) (use assms in simp)
  have "root_sep ((root_sep (kBoxRoot cfg) @ PadInt iid 6 @ ''/'') @ box_name (ExecuteBox i stg)) =
      (root_sep (kBoxRoot cfg) @ PadInt iid 6 @ ''/'') @ box_name (ExecuteBox i stg) @ ''/''"
    by (rule root_sep_nonslash [OF _ n]) simp
  then show ?thesis using execute_box_eq [OF assms, of cfg] by simp
qed

lemma execute_paths:
  assumes "0 \<le> iid" "0 \<le> i" "0 \<le> stg"
  shows "Workdir (ExecuteBoxPath cfg iid i stg) = ExecuteBoxPath cfg iid i stg @ ''/workdir''"
    and "ExecuteBoxProgram cfg iid i stg lng False = ExecuteBoxPath cfg iid i stg @ ''/workdir/prog'' @ ProgramExtension lng"
    and "ExecuteBoxInput cfg iid i stg strict False =
      ExecuteBoxPath cfg iid i stg @ (if strict then ''/td/input'' else ''/workdir/input'')"
    and "ExecuteBoxFinalOutput cfg iid i stg = ExecuteBoxPath cfg iid i stg @ ''/output''"
proof -
  note E = execute_box_sep [OF assms, of cfg]
  have j: "path_div (ExecuteBoxPath cfg iid i stg) q = ExecuteBoxPath cfg iid i stg @ ''/'' @ q"
    if "take 1 q \<noteq> ''/''" for q using path_div_relative [OF that] E by simp
  have k: "path_div (x @ w) q = x @ w @ ''/'' @ q" if "take 1 q \<noteq> ''/''" "w \<noteq> []" "last w \<noteq> CHR ''/''" for x w q
    using path_div_relative [OF that(1)] that(2,3) by (simp add: root_sep_def)
  show w: "Workdir (ExecuteBoxPath cfg iid i stg) = ExecuteBoxPath cfg iid i stg @ ''/workdir''"
    by (simp add: Workdir_def kWorkdirRelative_def j)
  show "ExecuteBoxProgram cfg iid i stg lng False = ExecuteBoxPath cfg iid i stg @ ''/workdir/prog'' @ ProgramExtension lng"
    using k [of "''prog'' @ ProgramExtension lng" "''/workdir''"] by (simp add: ExecuteBoxProgram_def BoxRoot_def w)
  show "ExecuteBoxInput cfg iid i stg strict False =
      ExecuteBoxPath cfg iid i stg @ (if strict then ''/td/input'' else ''/workdir/input'')"
    using k [of "''input''" "''/workdir''"] k [of "''input''" "''/td''"]
    by (simp add: ExecuteBoxInput_def ExecuteBoxTdStrictPath_def BoxRoot_def w j)
  show "ExecuteBoxFinalOutput cfg iid i stg = ExecuteBoxPath cfg iid i stg @ ''/output''"
    by (simp add: ExecuteBoxFinalOutput_def j)
qed

text \<open>The output of a stage has no file of another stage's box below it.\<close>

lemma output_not_above:
  assumes "0 \<le> iid" "0 \<le> i" "0 \<le> stg" "0 \<le> stg'" "stg \<noteq> stg'"
  shows "\<not> below (ExecuteBoxPath cfg iid i stg @ CHR ''/'' # w) (ExecuteBoxFinalOutput cfg iid i stg')"
proof
  assume "below (ExecuteBoxPath cfg iid i stg @ CHR ''/'' # w) (ExecuteBoxFinalOutput cfg iid i stg')"
  then obtain z where "box_name (ExecuteBox i stg) @ CHR ''/'' # w = box_name (ExecuteBox i stg') @ CHR ''/'' # z"
    unfolding execute_paths(4) [OF assms(1,2,4)] execute_box_eq [OF assms(1,2,3)] execute_box_eq [OF assms(1,2,4)]
    by (auto simp: below_def prefix_def simp del: box_name.simps)
  then have "box_name (ExecuteBox i stg) = box_name (ExecuteBox i stg')"
    using separator_unique box_name_no_slash [of "ExecuteBox i stg"] box_name_no_slash [of "ExecuteBox i stg'"] assms
    by (metis box_ok.simps(1))
  then show False using box_name_inj [of "ExecuteBox i stg" "ExecuteBox i stg'"] assms by simp
qed

section \<open>The prepared box\<close>

text \<open>What the program and the input of a stage are taken from.\<close>

definition input_source :: "Config \<Rightarrow> Submission \<Rightarrow> TestdataItem \<Rightarrow> int \<Rightarrow> int \<Rightarrow> path" where
  "input_source cfg sb item i stg =
     (if stg = 0 then input_file item else ExecuteBoxFinalOutput cfg (submission_internal_id sb) i (stg - 1))"

definition program_source :: "Config \<Rightarrow> Submission \<Rightarrow> int \<Rightarrow> path" where
  "program_source cfg sb stg =
     (let (prog, lng) = stage_program sb stg in CompileBoxOutput cfg (submission_internal_id sb) prog lng False)"

lemma run_ops_append:
  "run_ops dump (xs @ ys) d = (True, d') \<Longrightarrow> \<exists>e. run_ops dump xs d = (True, e) \<and> run_ops dump ys e = (True, d')"
proof (induction xs arbitrary: d)
  case (Cons x xs)
  from Cons.prems obtain e where e: "run_op dump x d = (True, e)" "run_ops dump (xs @ ys) e = (True, d')"
    by (metis append_Cons run_ops_ConsE)
  from Cons.IH [OF e(2)] e(1) show ?case by auto
qed simp

lemma box_made:
  assumes "run_ops dump (FsCreateDirs p None # (if strict then [] else [FsMountTmpfs p kib])) d = (True, e)"
    and "\<forall>r. inside r p \<longrightarrow> part_at d r = None"
  shows "part_at e = part_at d"
proof -
  from assms(1) obtain m where m: "CreateDirs p None d = (True, m)"
    and r: "run_ops dump (if strict then [] else [FsMountTmpfs p kib]) m = (True, e)"
    by (rule run_ops_ConsE) simp
  have "part_at m = part_at d" using CreateDirs_part [of p None d] m by simp
  then show ?thesis
    using r assms(2) MountTmpfs_part [of p m e] by (auto split: if_split_asm prod.splits)
qed

lemma input_made:
  assumes "run_ops dump (execute_input_ops cfg sb item i stg) d = (True, d')"
    and ids: "0 \<le> submission_internal_id sb" "0 \<le> i" "0 \<le> stg"
    and A: "A = ExecuteBoxProgram cfg (submission_internal_id sb) i stg lng False" "part_at d A = Some (Inl code)"
    and B: "B = ExecuteBoxInput cfg (submission_internal_id sb) i stg (sandbox_strict sb) False" "part_at d B = None"
    and inp: "read_path d (input_source cfg sb item i stg) = Some text"
      "stg = 0 \<or> (\<forall>t. part_at d (input_source cfg sb item i stg) \<noteq> Some (Inr t))"
    and ne: "input_source cfg sb item i stg \<noteq> A"
  shows "part_at d' A = Some (Inl code) \<and> part_at d' B = Some (Inl text)"
proof -
  let ?src = "input_source cfg sb item i stg" and ?perm = "if sandbox_strict sb then perms_owner_rw else kPerm666"
  note P = execute_paths [OF ids, of cfg]
  have AB: "A \<noteq> B" "\<not> below A B" unfolding A(1) B(1) P by (auto simp: below_def)
  have noB: "\<forall>t. part_at x B \<noteq> Some (Inr t)" if "part_at x = part_at d" for x using that B(2) by simp
  obtain op1 where o: "execute_input_ops cfg sb item i stg = op1 #
      (if stg = 0 then [FsCopy ?src B (Some ?perm)] else [FsMove ?src B None, FsPermissions B ?perm])"
    and o1: "part_at (snd (run_op dump op1 x)) = part_at x" for x
    by (cases "sandbox_strict sb")
      (auto simp: execute_input_ops_def Let_def input_source_def B(1) CreateDirs_part set_perms_part)
  from assms(1) [unfolded o] obtain e where e: "run_op dump op1 d = (True, e)"
    and r: "run_ops dump (if stg = 0 then [FsCopy ?src B (Some ?perm)] else [FsMove ?src B None, FsPermissions B ?perm]) e = (True, d')"
    by (rule run_ops_ConsE)
  have pe: "part_at e = part_at d" using o1 [of d] e by simp
  have re: "read_path e ?src = Some text" using read_cong(2) [OF pe] inp(1) by simp
  show ?thesis
  proof (cases "stg = 0")
    case True
    then have "Copy ?src B (Some ?perm) e = (True, d')" using r by (auto simp: Let_def split: prod.splits)
    from Copy_part [OF this] obtain s b where
      "read_path e ?src = Some s" "resolve e B = Some b" "part_at d' = (part_at e)(b := Some (Inl s))" .
    then show ?thesis using re resolve_here [OF noB [OF pe]] AB(1) A(2) pe by simp
  next
    case False
    then obtain m where m: "Move ?src B None e = (True, m)" and p: "set_perms B (Some ?perm) m = (True, d')"
      using r by (auto simp: Let_def split: prod.splits)
    have d': "part_at d' = part_at m" using set_perms_part [of B "Some ?perm" m] p by simp
    have nl: "\<forall>t. part_at e ?src \<noteq> Some (Inr t)" using inp(2) False pe by simp
    have src: "part_at e ?src = Some (Inl text)"
      using re resolve_here [OF nl] nl unfolding read_part by (auto split: option.splits sum.splits)
    then have sB: "?src \<noteq> B" using B(2) pe by auto
    have "\<not> below A ?src"
      using output_not_above [OF ids, of "stg - 1" cfg "''workdir/prog'' @ ProgramExtension lng"] False ids
      by (simp add: A(1) P input_source_def)
    then have "part_at m A = part_at e A"
      using moving.frame [OF m noB [OF pe], of A] ne AB by simp
    then show ?thesis using moving.arrives [OF m src sB noB [OF pe]] A(2) pe d' by simp
  qed
qed

lemma run_execute_ops:
  assumes "run_ops dump (execute_ops cfg sb item i stg kib) d = (True, d')"
    and ids: "0 \<le> submission_internal_id sb" "0 \<le> i" "0 \<le> stg"
    and fresh: "\<forall>r. inside r (ExecuteBoxPath cfg (submission_internal_id sb) i stg) \<longrightarrow> part_at d r = None"
    and prog: "read_path d (program_source cfg sb stg) = Some code"
    and inp: "read_path d (input_source cfg sb item i stg) = Some text"
      "stg = 0 \<or> (\<forall>t. part_at d (input_source cfg sb item i stg) \<noteq> Some (Inr t))"
  shows "read_path d' (ExecuteBoxProgram cfg (submission_internal_id sb) i stg (snd (stage_program sb stg)) False) = Some code \<and>
    read_path d' (ExecuteBoxInput cfg (submission_internal_id sb) i stg (sandbox_strict sb) False) = Some text"
proof -
  let ?iid = "submission_internal_id sb" and ?strict = "sandbox_strict sb"
  let ?E = "ExecuteBoxPath cfg ?iid i stg" and ?src = "input_source cfg sb item i stg"
  obtain s lng where sp: "stage_program sb stg = (s, lng)" by fastforce
  define A where "A = ExecuteBoxProgram cfg ?iid i stg lng False"
  define B where "B = ExecuteBoxInput cfg ?iid i stg ?strict False"
  let ?copy = "FsCopy (program_source cfg sb stg) A (Some (ExecuteBoxProgramPerm lng ?strict))"
  note P = execute_paths [OF ids, of cfg]
  have AB: "A \<noteq> B" "part_at d A = None" "part_at d B = None"
    using fresh unfolding A_def B_def P by (auto simp: inside_def)
  have wd: "\<forall>r. inside r (Workdir ?E) \<longrightarrow> part_at d r = None"
    using fresh unfolding P by (auto simp: inside_def prefix_def)
  have "execute_ops cfg sb item i stg kib =
      (FsCreateDirs (Workdir ?E) None # (if ?strict then [] else [FsMountTmpfs (Workdir ?E) kib])) @
      ?copy # execute_input_ops cfg sb item i stg"
    by (simp add: execute_ops_def program_source_def sp A_def Let_def)
  from run_ops_append [OF assms(1) [unfolded this]] obtain d1 where
    b: "run_ops dump (FsCreateDirs (Workdir ?E) None # (if ?strict then [] else [FsMountTmpfs (Workdir ?E) kib])) d = (True, d1)"
    and r1: "run_ops dump (?copy # execute_input_ops cfg sb item i stg) d1 = (True, d')" by blast
  note d1 = box_made [OF b wd]
  from r1 obtain d2 where c: "run_op dump ?copy d1 = (True, d2)"
    and r2: "run_ops dump (execute_input_ops cfg sb item i stg) d2 = (True, d')" by (rule run_ops_ConsE)
  from c have "Copy (program_source cfg sb stg) A (Some (ExecuteBoxProgramPerm lng ?strict)) d1 = (True, d2)" by simp
  from Copy_part [OF this] obtain t b where
    t: "read_path d1 (program_source cfg sb stg) = Some t" "resolve d1 A = Some b" "part_at d2 = (part_at d1)(b := Some (Inl t))" .
  have d2: "part_at d2 = (part_at d)(A := Some (Inl code))"
    using t prog read_cong(2) [OF d1] resolve_here [of d1 A] d1 AB(2) by simp
  have src: "read_path d2 ?src = Some text" by (rule read_extend [OF inp(1) AB(2) d2])
  have "?src \<noteq> A" using inp(1) AB(2) resolve_here [of d A] by (auto simp: read_part)
  from input_made [OF r2 ids A_def _ B_def _ src _ this] d2 AB inp(2) this
  have "part_at d' A = Some (Inl code)" "part_at d' B = Some (Inl text)" by auto
  then show ?thesis by (simp add: sp A_def [symmetric] B_def [symmetric] read_here)
qed

text \<open>
  C25: When \<open>SetupExecute\<close> starts an execution and its calls succeed on a tree in which the box does not exist
  yet, the box holds the compiled program of the stage under the name the command uses, and as its input the
  input file of the testdata for the first stage and the output of the stage before for a later one.
\<close>

theorem execution_prepared:
  assumes "SetupExecute cfg fs sr task st = Inr (True, st')" "events st' = events st @ map Fs ops"
    and "run_ops dump ops d = (True, d')"
    and "nth_opt (testdata (sub sr)) (nat i) = Some item" "i = subtask (te_task task)" "stg = stage (te_task task)"
    and "0 \<le> submission_internal_id (sub sr)" "0 \<le> i" "0 \<le> stg"
    and "\<forall>r. inside r (ExecuteBoxPath cfg (submission_internal_id (sub sr)) i stg) \<longrightarrow> part_at d r = None"
    and "read_path d (program_source cfg (sub sr) stg) = Some code"
    and "read_path d (input_source cfg (sub sr) item i stg) = Some text"
    and "stg = 0 \<or> (\<forall>t. part_at d (input_source cfg (sub sr) item i stg) \<noteq> Some (Inr t))"
  shows "read_path d' (ExecuteBoxProgram cfg (submission_internal_id (sub sr)) i stg
      (snd (stage_program (sub sr) stg)) False) = Some code \<and>
    read_path d' (ExecuteBoxInput cfg (submission_internal_id (sub sr)) i stg (sandbox_strict (sub sr)) False) = Some text"
proof -
  from SetupExecute_ops [OF assms(1)] assms(2,4,5,6) obtain kib where "ops = execute_ops cfg (sub sr) item i stg kib"
    by (fastforce simp: inj_map_eq_map inj_def)
  from run_execute_ops [OF assms(3) [unfolded this] assms(7-13)] show ?thesis .
qed

definition sample_disk :: Disk where
  "sample_disk =
     \<lparr>inode_at = map_of [(''/tmp'', Folder 511), (''/tmp/box'', Folder 493), (''/var/td/1.in'', SymLink ''/var/pool/1''),
        (''/var/pool/1'', RegFile ''data'' 420), (''/tmp/box/000007/compile0/workdir/prog'', RegFile ''elf'' 493)],
      device = (\<lambda>_. 1), locked = (\<lambda>_. False), mounts = [], next_device = 2, names = [''/tmp/box'']\<rparr>"

definition sample_sr :: SubmissionAndResult where
  "sample_sr = \<lparr>sub = sample_submission, result = SubmissionResult_init\<rparr>"

lemma sample_run:
  "fst (run_ops (\<lambda>_. []) (execute_ops sample_config sample_submission sample_item 0 0 131080) sample_disk)"
  by code_simp

definition sample_task :: TaskEntry where
  "sample_task = TaskEntry_new 2 7 \<lparr>task_type = EXECUTE, subtask = 0, stage = 0\<rparr> 0 0"

lemma sample_box: "ExecuteBoxPath sample_config 7 0 0 = ''/tmp/box/000007/execute000_00''"
  by code_simp

lemma sample_fresh: "inside r (ExecuteBoxPath sample_config 7 0 0) \<Longrightarrow> part_at sample_disk r = None"
  unfolding sample_box by (auto simp: inside_def prefix_def part_at_def sample_disk_def)

lemma sample_sources:
  "read_path sample_disk (program_source sample_config sample_submission 0) = Some ''elf''"
  "read_path sample_disk (input_source sample_config sample_submission sample_item 0 0) = Some ''data''"
  by code_simp+

lemma sample_setup:
  "\<exists>st'. SetupExecute sample_config (env_fs (sample_env World_init)) sample_sr sample_task JState_init = Inr (True, st') \<and>
     events st' = map Fs (execute_ops sample_config sample_submission sample_item 0 0 131080)"
proof -
  have "nth_opt (testdata sample_submission) 0 = Some sample_item" "sandbox_strict sample_submission = False"
    "submission_internal_id sample_submission = 7" "kMaxOutput sample_config = 2 ^ 31" "lim_output sample_item = 65536"
    by (simp_all add: sample_submission_def Submission_init_def nth_opt_def sample_config_def sample_item_def)
  moreover have "sub sample_sr = sample_submission" "verdict (result sample_sr) = NUL" "subtask (te_task sample_task) = 0"
    "stage (te_task sample_task) = 0" "file_size (env_fs (sample_env World_init)) p = Some 0"
    "\<not> IsCancelled JState_init x gs" for p x gs
    by (simp_all add: sample_sr_def SubmissionResult_init_def sample_task_def TaskEntry_new_def sample_env_def
      IsCancelled_def JState_init_def)
  ultimately show ?thesis
    by (simp add: SetupExecute_def execute_ops_def Let_def emit_def page_kib_def JState_init_def split: prod.splits)
qed

theorem execution_prepared_witness:
  "\<exists>d'. run_ops (\<lambda>_. []) (execute_ops sample_config sample_submission sample_item 0 0 131080) sample_disk = (True, d') \<and>
     read_path d' (ExecuteBoxProgram sample_config 7 0 0 GCC_CPP_17 False) = Some ''elf'' \<and>
     read_path d' (ExecuteBoxInput sample_config 7 0 0 False False) = Some ''data''"
proof -
  obtain d' where d': "run_ops (\<lambda>_. []) (execute_ops sample_config sample_submission sample_item 0 0 131080) sample_disk = (True, d')"
    using sample_run by (cases "run_ops (\<lambda>_. []) (execute_ops sample_config sample_submission sample_item 0 0 131080) sample_disk") simp
  obtain st' where st': "SetupExecute sample_config (env_fs (sample_env World_init)) sample_sr sample_task JState_init = Inr (True, st')"
    "events st' = map Fs (execute_ops sample_config sample_submission sample_item 0 0 131080)"
    using sample_setup by blast
  have s: "sub sample_sr = sample_submission" "te_task sample_task = \<lparr>task_type = EXECUTE, subtask = 0, stage = 0\<rparr>"
    "submission_internal_id sample_submission = 7" "nth_opt (testdata sample_submission) 0 = Some sample_item"
    "stage_program sample_submission 0 = (CS_USERPROG, GCC_CPP_17)" "sandbox_strict sample_submission = False"
    by (simp_all add: sample_sr_def sample_task_def TaskEntry_new_def sample_submission_def Submission_init_def
      nth_opt_def stage_program_def)
  have "events JState_init = []" by (simp add: JState_init_def)
  from execution_prepared [OF st'(1) _ d', of 0 sample_item 0 "''elf''" "''data''"] st'(2) this sample_fresh sample_sources d'
  show ?thesis by (simp add: s)
qed

end
