(* ===== verification/Download.thy ===== *)
theory Download
  imports Prelude
begin

text \<open>
  HTTP requests of \<open>src/http_utils.h\<close>, repeated until they succeed, and \<open>DownloadFile\<close> of
  \<open>src/server_io.cpp\<close> for plain and for compressed files. What is proved: a download ends with the first
  success of five tries; a plain file holds what that try received; a compressed file holds the whole
  content, however the bytes are cut into pieces, if the first try succeeds.
\<close>

section \<open>Repeated requests\<close>

text \<open>A response is its status, \<open>None\<close> for a failed connection.\<close>

definition IsSuccess :: "int option \<Rightarrow> bool" where
  "IsSuccess res = (case res of None \<Rightarrow> False | Some code \<Rightarrow> 200 \<le> code \<and> code < 299)"

definition kRetries :: nat where "kRetries = 5"

text \<open>
  \<open>RequestRetryInit\<close>: \<open>init\<close>, then the request, until it succeeds or all tries are used; \<open>request\<close> also
  writes what it receives, and may not return. The result is the last response and the state.
\<close>

fun retry_loop ::
    "nat \<Rightarrow> ('s \<Rightarrow> 's) \<Rightarrow> ('s \<Rightarrow> (int option \<times> 's) option) \<Rightarrow> int option \<Rightarrow> 's \<Rightarrow> (int option \<times> 's) option" where
  "retry_loop 0 init request res s = Some (res, s)"
| "retry_loop (Suc n) init request res s =
     (case request (init s) of
        None \<Rightarrow> None
      | Some (res, s) \<Rightarrow> if IsSuccess res then Some (res, s) else retry_loop n init request res s)"

definition RequestRetryInit ::
    "('s \<Rightarrow> 's) \<Rightarrow> ('s \<Rightarrow> (int option \<times> 's) option) \<Rightarrow> 's \<Rightarrow> (int option \<times> 's) option" where
  "RequestRetryInit init request s = retry_loop kRetries init request None s"

section \<open>Receivers\<close>

text \<open>
  The answers still to come: a response and the pieces of the body. The client hands each piece to the
  receiver and gives up, without a response, when the receiver returns false.
\<close>

type_synonym answer = "int option \<times> string list"

fun receive :: "('s \<Rightarrow> string \<Rightarrow> (bool \<times> 's) option) \<Rightarrow> string list \<Rightarrow> 's \<Rightarrow> (bool \<times> 's) option" where
  "receive f [] s = Some (True, s)"
| "receive f (c # cs) s =
     (case f s c of
        None \<Rightarrow> None
      | Some (ok, s) \<Rightarrow> if ok then receive f cs s else Some (False, s))"

definition http_request ::
    "('s \<Rightarrow> string \<Rightarrow> (bool \<times> 's) option) \<Rightarrow> 's \<times> answer list \<Rightarrow> (int option \<times> ('s \<times> answer list)) option" where
  "http_request f s =
     (let (s, answers) = s
      in case answers of
           [] \<Rightarrow> Some (None, (s, []))
         | (res, chunks) # rest \<Rightarrow>
             map_option (\<lambda>(ok, s). (if ok then res else None, (s, rest))) (receive f chunks s))"

text \<open>The receiver of a plain file appends to it.\<close>

definition plain_receiver :: "string \<Rightarrow> string \<Rightarrow> (bool \<times> string) option" where
  "plain_receiver written data = Some (True, written @ data)"

text \<open>
  The receiver of a compressed file. \<open>inflate\<close> is \<open>ZSTD_decompressStream\<close> on the bytes that are left: the
  number of bytes it took and what it put into the buffer, or an error, and the context after the call.
\<close>

type_synonym 'd inflater = "'d \<Rightarrow> string \<Rightarrow> (nat \<times> string) option \<times> 'd"

partial_function (option) zstd_loop :: "'d inflater \<Rightarrow> string \<Rightarrow> string \<times> 'd \<Rightarrow> (bool \<times> (string \<times> 'd)) option" where
  "zstd_loop inflate data s =
     (if data = [] then Some (True, s)
      else let (written, dctx) = s
           in case inflate dctx data of
                (None, dctx) \<Rightarrow> Some (False, (written, dctx))
              | (Some (n, out), dctx) \<Rightarrow> zstd_loop inflate (drop n data) (written @ out, dctx))"

definition zstd_receiver :: "'d inflater \<Rightarrow> string \<times> 'd \<Rightarrow> string \<Rightarrow> (bool \<times> (string \<times> 'd)) option" where
  "zstd_receiver inflate s data = zstd_loop inflate data s"

text \<open>
  \<open>DownloadFile\<close>: \<open>Init\<close> opens the file anew, which empties it; the context \<open>dctx\<close> of the decompression is
  created once, before the first try.
\<close>

definition reopen :: "string \<times> answer list \<Rightarrow> string \<times> answer list" where
  "reopen s = ([], snd s)"

definition reopen_compressed :: "(string \<times> 'd) \<times> answer list \<Rightarrow> (string \<times> 'd) \<times> answer list" where
  "reopen_compressed s = (([], snd (fst s)), snd s)"

definition DownloadFile :: "'d inflater \<Rightarrow> 'd \<Rightarrow> bool \<Rightarrow> answer list \<Rightarrow> (int option \<times> string) option" where
  "DownloadFile inflate dctx compressed answers =
     (if compressed then
        map_option (\<lambda>(res, ((written, _), _)). (res, written))
          (RequestRetryInit reopen_compressed (http_request (zstd_receiver inflate)) (([], dctx), answers))
      else
        map_option (\<lambda>(res, (written, _)). (res, written))
          (RequestRetryInit reopen (http_request plain_receiver) ([], answers)))"

section \<open>Plain files\<close>

definition first_success :: "answer list \<Rightarrow> answer option" where
  "first_success answers = find (\<lambda>a. IsSuccess (fst a)) (take kRetries answers)"

lemma receive_plain: "receive plain_receiver cs w = Some (True, w @ concat cs)"
  by (induction cs arbitrary: w) (simp_all add: plain_receiver_def)

lemma http_plain:
  "http_request plain_receiver (w, (r, cs) # rest) = Some (r, (w @ concat cs, rest))"
  "http_request plain_receiver (w, []) = Some (None, (w, []))"
  by (simp_all add: http_request_def receive_plain)

lemma retry_plain:
  "\<not> IsSuccess res \<Longrightarrow>
   \<exists>res' w' rest. retry_loop n reopen (http_request plain_receiver) res (w, answers) = Some (res', (w', rest)) \<and>
     (case find (\<lambda>a. IsSuccess (fst a)) (take n answers) of
        Some (r, cs) \<Rightarrow> res' = r \<and> w' = concat cs
      | None \<Rightarrow> \<not> IsSuccess res')"
proof (induction n arbitrary: res w answers)
  case (Suc n)
  have no: "\<not> IsSuccess None" by (simp add: IsSuccess_def)
  show ?case
  proof (cases answers)
    case Nil
    then show ?thesis using Suc.IH [OF no, of "[]" "[]"] no by (simp add: reopen_def http_plain)
  next
    case (Cons a rest)
    obtain r cs where a: "a = (r, cs)" by (cases a)
    show ?thesis
    proof (cases "IsSuccess r")
      case True
      then show ?thesis using Cons a by (simp add: reopen_def http_plain)
    next
      case False
      then show ?thesis using Suc.IH [OF False, of "concat cs" rest] Cons a by (simp add: reopen_def http_plain)
    qed
  qed
qed simp

theorem download_first_success:
  "\<exists>res written. DownloadFile inflate dctx False answers = Some (res, written) \<and>
     (case first_success answers of Some (r, cs) \<Rightarrow> res = r \<and> written = concat cs | None \<Rightarrow> \<not> IsSuccess res)"
proof -
  have "\<not> IsSuccess None" by (simp add: IsSuccess_def)
  from retry_plain [OF this, of kRetries "[]" answers] show ?thesis
    by (auto simp: DownloadFile_def RequestRetryInit_def first_success_def)
qed

section \<open>Compressed files\<close>

text \<open>
  What the documentation of zstd says of \<open>ZSTD_decompressStream\<close>: \<open>decode\<close> is the text a sequence of bytes
  stands for in a context, and the context behind it, defined on whole sequences; a call takes some of the bytes and
  puts out the beginning of the text, or reports that the bytes are not valid; and it makes progress, here
  in the measure \<open>work\<close>, so that a loop over the same bytes ends.
\<close>

definition decompressor ::
    "'d inflater \<Rightarrow> ('d \<Rightarrow> string \<Rightarrow> (string \<times> 'd) option) \<Rightarrow> ('d \<Rightarrow> string \<Rightarrow> nat) \<Rightarrow> bool" where
  "decompressor inflate decode work \<longleftrightarrow>
     (\<forall>d. decode d [] = Some ([], d)) \<and>
     (\<forall>d a b. decode d (a @ b) =
        (case decode d a of None \<Rightarrow> None | Some (x, e) \<Rightarrow> map_option (apfst ((@) x)) (decode e b))) \<and>
     (\<forall>d data. data \<noteq> [] \<longrightarrow>
        (case inflate d data of
           (None, e) \<Rightarrow> decode d data = None
         | (Some (n, out), e) \<Rightarrow>
             decode d data = map_option (apfst ((@) out)) (decode e (drop n data)) \<and>
             work e (drop n data) < work d data))"

lemma decompressorD:
  assumes "decompressor inflate decode work"
  shows "decode d [] = Some ([], d)"
    and "decode d (a @ b) = (case decode d a of None \<Rightarrow> None | Some (x, e) \<Rightarrow> map_option (apfst ((@) x)) (decode e b))"
    and "data \<noteq> [] \<Longrightarrow> inflate d data = (None, e) \<Longrightarrow> decode d data = None"
    and "data \<noteq> [] \<Longrightarrow> inflate d data = (Some (n, out), e) \<Longrightarrow>
      decode d data = map_option (apfst ((@) out)) (decode e (drop n data)) \<and> work e (drop n data) < work d data"
proof -
  note D = assms [unfolded decompressor_def]
  show "decode d [] = Some ([], d)" using D by blast
  show "decode d (a @ b) = (case decode d a of None \<Rightarrow> None | Some (x, e) \<Rightarrow> map_option (apfst ((@) x)) (decode e b))"
    by (rule D [THEN conjunct2, THEN conjunct1, rule_format])
  note S = D [THEN conjunct2, THEN conjunct2, rule_format, of data d]
  show "data \<noteq> [] \<Longrightarrow> inflate d data = (None, e) \<Longrightarrow> decode d data = None"
    using S by simp
  show "data \<noteq> [] \<Longrightarrow> inflate d data = (Some (n, out), e) \<Longrightarrow>
      decode d data = map_option (apfst ((@) out)) (decode e (drop n data)) \<and> work e (drop n data) < work d data"
    using S by simp
qed

definition outcome_ok :: "string \<Rightarrow> (string \<times> 'd) option \<Rightarrow> bool \<times> (string \<times> 'd) \<Rightarrow> bool" where
  "outcome_ok w r s = (case r of Some (x, e) \<Rightarrow> s = (True, (w @ x, e)) | None \<Rightarrow> \<not> fst s)"

lemma zstd_loop_decodes:
  assumes "decompressor inflate decode work"
  shows "\<exists>s. zstd_loop inflate data (w, d) = Some s \<and> outcome_ok w (decode d data) s"
proof (induction "work d data" arbitrary: w d data rule: less_induct)
  case less
  note D = decompressorD [OF assms]
  show ?case
  proof (cases "data = []")
    case True
    then show ?thesis using D(1) by (simp add: zstd_loop.simps outcome_ok_def)
  next
    case False
    obtain r e where i: "inflate d data = (r, e)" by fastforce
    show ?thesis
    proof (cases r)
      case None
      then show ?thesis using False i D(3) [OF False] by (simp add: zstd_loop.simps [of inflate data] outcome_ok_def)
    next
      case (Some p)
      then obtain n out where p: "r = Some (n, out)" by (cases p) auto
      from D(4) [OF False] i p
      have dec: "decode d data = map_option (apfst ((@) out)) (decode e (drop n data))"
        and lt: "work e (drop n data) < work d data" by auto
      from less [OF lt, of "w @ out"] obtain s where
        s: "zstd_loop inflate (drop n data) (w @ out, e) = Some s" "outcome_ok (w @ out) (decode e (drop n data)) s"
        by blast
      have "zstd_loop inflate data (w, d) = Some s"
        using False i p s(1) by (simp add: zstd_loop.simps [of inflate data])
      moreover have "outcome_ok w (decode d data) s"
        using s(2) unfolding dec by (cases "decode e (drop n data)") (auto simp: outcome_ok_def)
      ultimately show ?thesis by blast
    qed
  qed
qed

lemma receive_decodes:
  assumes "decompressor inflate decode work"
  shows "\<exists>s. receive (zstd_receiver inflate) chunks (w, d) = Some s \<and> outcome_ok w (decode d (concat chunks)) s"
proof (induction chunks arbitrary: w d)
  case Nil
  then show ?case using decompressorD(1) [OF assms] by (simp add: outcome_ok_def)
next
  case (Cons c cs)
  obtain s where s: "zstd_loop inflate c (w, d) = Some s" "outcome_ok w (decode d c) s"
    using zstd_loop_decodes [OF assms] by blast
  show ?case
  proof (cases "decode d c")
    case None
    then show ?thesis using s decompressorD(2) [OF assms, of d c "concat cs"]
      by (cases s) (simp add: zstd_receiver_def outcome_ok_def)
  next
    case (Some p)
    obtain x e where p: "p = (x, e)" by (cases p)
    from Cons [of "w @ x" e] obtain s' where
      s': "receive (zstd_receiver inflate) cs (w @ x, e) = Some s'" "outcome_ok (w @ x) (decode e (concat cs)) s'" by blast
    have "receive (zstd_receiver inflate) (c # cs) (w, d) = Some s'"
      using s s'(1) Some p by (simp add: zstd_receiver_def outcome_ok_def)
    moreover have "outcome_ok w (decode d (concat (c # cs))) s'"
      using s'(2) decompressorD(2) [OF assms, of d c "concat cs"] Some p
      by (cases "decode e (concat cs)") (auto simp: outcome_ok_def)
    ultimately show ?thesis by blast
  qed
qed

lemma retry_returns:
  assumes "decompressor inflate decode work"
  shows "\<exists>r. retry_loop n reopen_compressed (http_request (zstd_receiver inflate)) res ((w, d), answers) = Some r"
proof (induction n arbitrary: res w d answers)
  case (Suc n)
  show ?case
  proof (cases answers)
    case Nil
    then show ?thesis using Suc [of None "[]" d "[]"] by (simp add: reopen_compressed_def http_request_def IsSuccess_def)
  next
    case (Cons a rest)
    obtain r cs where a: "a = (r, cs)" by (cases a)
    obtain ok w' d' where "receive (zstd_receiver inflate) cs ([], d) = Some (ok, (w', d'))"
      using receive_decodes [OF assms, of cs "[]" d] by auto
    then show ?thesis using Suc [of "if ok then r else None" w' d' rest] Cons a
      by (simp add: reopen_compressed_def http_request_def)
  qed
qed simp

text \<open>
  A download returns, and if the first try succeeds the file is the whole text, however the body was cut.
\<close>

theorem compressed_download:
  assumes "decompressor inflate decode work"
  shows "DownloadFile inflate dctx True answers \<noteq> None"
    and "decode dctx (concat chunks) = Some (text, e) \<Longrightarrow> IsSuccess res \<Longrightarrow>
      DownloadFile inflate dctx True ((res, chunks) # rest) = Some (res, text)"
proof -
  show "DownloadFile inflate dctx True answers \<noteq> None"
    using retry_returns [OF assms, of kRetries None "[]" dctx answers] by (auto simp: DownloadFile_def RequestRetryInit_def)
  assume "decode dctx (concat chunks) = Some (text, e)" "IsSuccess res"
  then show "DownloadFile inflate dctx True ((res, chunks) # rest) = Some (res, text)"
    using receive_decodes [OF assms, of chunks "[]" dctx]
    by (auto simp: DownloadFile_def RequestRetryInit_def kRetries_def numeral_eq_Suc reopen_compressed_def
      http_request_def outcome_ok_def)
qed

text \<open>
  A run-length code as an example: a count and a character stand for a run of the character, and a count
  of 0 is an error. After a try that breaks off behind a count, the next one starts in the middle of a
  run: it succeeds, and the file is not the text.
\<close>

fun rle_inflate :: "char option inflater" where
  "rle_inflate d [] = (Some (0, []), d)"
| "rle_inflate None (c # cs) = (if of_char c = (0::nat) then (None, None) else (Some (1, []), Some c))"
| "rle_inflate (Some n) (c # cs) = (Some (1, replicate (of_char n) c), None)"

fun rle_decode :: "char option \<Rightarrow> string \<Rightarrow> (string \<times> char option) option" where
  "rle_decode d [] = Some ([], d)"
| "rle_decode None (c # cs) = (if of_char c = (0::nat) then None else rle_decode (Some c) cs)"
| "rle_decode (Some n) (c # cs) = map_option (apfst ((@) (replicate (of_char n) c))) (rle_decode None cs)"

lemma rle_append:
  "rle_decode d (a @ b) =
     (case rle_decode d a of None \<Rightarrow> None | Some (x, e) \<Rightarrow> map_option (apfst ((@) x)) (rle_decode e b))"
proof (induction d a rule: rle_decode.induct)
  case (1 d)
  have "map_option (apfst ((@) [])) r = r" for r :: "(string \<times> char option) option"
    by (cases r) (auto simp: apfst_def map_prod_def)
  then show ?case by simp
qed (auto split: option.splits simp: option.map_comp comp_def apfst_def map_prod_def case_prod_unfold)

lemma rle_decompressor: "decompressor rle_inflate rle_decode (\<lambda>_. length)"
  unfolding decompressor_def
proof (intro conjI allI impI)
  fix d :: "char option" and data :: string
  assume "data \<noteq> []"
  moreover have "map_option (apfst ((@) [])) r = r" for r :: "(string \<times> char option) option"
    by (cases r) (auto simp: apfst_def map_prod_def)
  ultimately show "case rle_inflate d data of (None, e) \<Rightarrow> rle_decode d data = None
      | (Some (n, out), e) \<Rightarrow> rle_decode d data = map_option (apfst ((@) out)) (rle_decode e (drop n data)) \<and>
          length (drop n data) < length data"
    by (cases data; cases d) simp_all
qed (simp_all add: rle_append)

lemma retry_keeps_context:
  defines "text_bytes \<equiv> [CHR 2, CHR ''a'', CHR 2, CHR ''b'', CHR 3, CHR ''c'']"
  shows "DownloadFile rle_inflate None True [(Some 200, [text_bytes])] = Some (Some 200, ''aabbccc'')"
    and "fst (the (DownloadFile rle_inflate None True [(None, [[CHR 2]]), (Some 200, [text_bytes])])) = Some 200"
    and "snd (the (DownloadFile rle_inflate None True [(None, [[CHR 2]]), (Some 200, [text_bytes])])) \<noteq> ''aabbccc''"
  by (simp_all add: text_bytes_def DownloadFile_def RequestRetryInit_def kRetries_def numeral_eq_Suc
    reopen_compressed_def http_request_def zstd_receiver_def zstd_loop.simps IsSuccess_def)

text \<open>The last status of the class 2xx is not a success.\<close>

lemma status_299: "\<not> IsSuccess (Some 299)" "IsSuccess (Some 298)"
  by (simp_all add: IsSuccess_def)

end
