(* ===== verification/Startup.thy ===== *)
theory Startup
  imports Cpuset Paths
begin

text \<open>
  \<open>src/main.cpp\<close>: the configuration file, the command line and what \<open>main\<close> does before the loops start. The
  readers of the file and of the command line are libraries; what they return is an argument here. What
  is proved: the CPUs a started judge pins to are pairwise different and exist, and which limits a silent
  configuration gives.
\<close>

section \<open>The configuration file\<close>

text \<open>
  \<open>ini[""][key] | default\<close> for the types the code uses; \<open>get key d\<close> is \<open>d\<close> where the file does not set
  the key. \<open>kMaxQueue\<close> is a \<open>size_t\<close>.
\<close>

record Ini =
  ini_string :: "string \<Rightarrow> string \<Rightarrow> string"
  ini_int :: "string \<Rightarrow> int \<Rightarrow> int"
  ini_long :: "string \<Rightarrow> int \<Rightarrow> int"
  ini_double :: "string \<Rightarrow> rat \<Rightarrow> rat"

record Settings =
  conf :: Config
  max_queue :: int
  tioj_url :: string
  tioj_key :: string

text \<open>\<open>get_nprocs\<close> is \<open>ncpu\<close>; \<open>None\<close> is the exception. The mask is kept as the sorted list of its CPUs.\<close>

definition SetPinnedCPU :: "nat \<Rightarrow> string \<Rightarrow> Config \<Rightarrow> Config option" where
  "SetPinnedCPU ncpu cpu_str cfg =
     (case CpusetParse cpu_str ncpu of
        Some (True, cs) \<Rightarrow> Some (cfg\<lparr>kPinnedCpus := map int (sorted_list_of_set cs)\<rparr>)
      | _ \<Rightarrow> None)"

definition ParseConfig :: "nat \<Rightarrow> Ini option \<Rightarrow> Settings \<Rightarrow> Settings option" where
  "ParseConfig ncpu src s =
     Option.bind src (\<lambda>ini.
       let cfg = conf s;
           box = ini_string ini ''box_root'' []; submission = ini_string ini ''submission_root'' [];
           td = ini_string ini ''testdata_root'' [];
           cfg = (if box \<noteq> [] then cfg\<lparr>kBoxRoot := box\<rparr> else cfg);
           cfg = (if submission \<noteq> [] then cfg\<lparr>kSubmissionRoot := submission\<rparr> else cfg);
           cfg = (if td \<noteq> [] then cfg\<lparr>kTestdataRoot := td\<rparr> else cfg);
           cfg = cfg\<lparr>kMaxParallel := ini_int ini ''parallel'' (kMaxParallel cfg)\<rparr>
       in Option.bind (SetPinnedCPU ncpu (ini_string ini ''pinned_cpus'' ''none'') cfg) (\<lambda>cfg.
            let cfg = cfg\<lparr>kMaxRSS := ini_long ini ''max_rss_per_task_mb'' (kMaxRSS cfg div 1024) * 1024\<rparr>;
                cfg = cfg\<lparr>kMaxOutput := ini_long ini ''max_output_per_task_mb'' (kMaxRSS cfg div 1024) * 1024\<rparr>;
                queue = ini_int ini ''max_submission_queue_size'' (kMaxParallel cfg + 2) mod 2 ^ 64;
                cfg = cfg\<lparr>kTimeMultiplier := ini_double ini ''time_multiplier'' (kTimeMultiplier cfg)\<rparr>
            in Some \<lparr>conf = cfg, max_queue = queue, tioj_url = ini_string ini ''tioj_url'' (tioj_url s),
                     tioj_key = ini_string ini ''tioj_key'' (tioj_key s)\<rparr>))"

section \<open>The command line and \<open>main\<close>\<close>

text \<open>What the argument parser returns; \<open>None\<close> instead of it is its exception.\<close>

record Args =
  arg_version :: bool
  arg_config :: string
  arg_parallel :: "int option"
  arg_time_multiplier :: "rat option"
  arg_no_lock :: bool
  arg_pinned_cpus :: "string option"

datatype 'a start = Exit int | Run 'a

text \<open>\<open>files\<close> gives the configuration file of a name. The flag returned is \<open>to_lock\<close>.\<close>

definition ParseArgs :: "nat \<Rightarrow> (string \<Rightarrow> Ini option) \<Rightarrow> Args option \<Rightarrow> Settings \<Rightarrow> (Settings \<times> bool) start" where
  "ParseArgs ncpu files args s =
     (case args of
        None \<Rightarrow> Exit 1
      | Some a \<Rightarrow>
          if arg_version a then Exit 0
          else case ParseConfig ncpu (files (arg_config a)) s of
                 None \<Rightarrow> Exit 1
               | Some s \<Rightarrow>
                   let cfg = conf s;
                       cfg = (case arg_parallel a of None \<Rightarrow> cfg | Some n \<Rightarrow> cfg\<lparr>kMaxParallel := n\<rparr>);
                       cfg = (case arg_time_multiplier a of None \<Rightarrow> cfg | Some x \<Rightarrow> cfg\<lparr>kTimeMultiplier := x\<rparr>)
                   in case (case arg_pinned_cpus a of None \<Rightarrow> Some cfg | Some str \<Rightarrow> SetPinnedCPU ncpu str cfg) of
                        None \<Rightarrow> Exit 1
                      | Some cfg \<Rightarrow> Run (s\<lparr>conf := cfg\<rparr>, \<not> arg_no_lock a))"

text \<open>\<open>locked\<close> is what \<open>LockFile\<close> returns; \<open>Run\<close> is the start of the two loops.\<close>

definition main :: "nat \<Rightarrow> (string \<Rightarrow> Ini option) \<Rightarrow> Args option \<Rightarrow> bool \<Rightarrow> bool \<Rightarrow> Settings \<Rightarrow> Settings start" where
  "main ncpu files args is_root locked s =
     (case ParseArgs ncpu files args s of
        Exit n \<Rightarrow> Exit n
      | Run (s, to_lock) \<Rightarrow>
          if \<not> is_root then Exit 1 else if to_lock \<and> \<not> locked then Exit 1 else Run s)"

text \<open>The globals before \<open>main\<close>: \<open>src/tioj/submission.cpp\<close>, \<open>src/tioj/paths.cpp\<close>, \<open>src/paths.cpp\<close>, \<open>src/server_io.cpp\<close>.\<close>

definition Settings_init :: "string \<Rightarrow> Settings" where
  "Settings_init datadir =
     \<lparr>conf = \<lparr>kMaxParallel = 1, kPinnedCpus = [], kMaxRSS = 2097152, kMaxOutput = 1048576, kTimeMultiplier = 1,
        kBoxRoot = ''/tmp/tioj_box'', kSubmissionRoot = ''/tmp/tioj_submissions'', kDataDir = datadir,
        kTestdataRoot = datadir\<rparr>,
      max_queue = 20, tioj_url = [], tioj_key = []\<rparr>"

section \<open>Facts\<close>

text \<open>The CPUs of a mask exist.\<close>

lemma mark_bound_imp:
  assumes "mark ncpu a b s cs = Some cs'"
  shows "cs \<subseteq> {..<ncpu} \<longrightarrow> cs' \<subseteq> {..<ncpu}"
proof (rule mark.raw_induct [OF _ assms, where P = "\<lambda>ncpu a b s cs cs'. cs \<subseteq> {..<ncpu} \<longrightarrow> cs' \<subseteq> {..<ncpu}"])
  fix f :: "nat \<Rightarrow> nat \<Rightarrow> nat \<Rightarrow> nat \<Rightarrow> nat set \<Rightarrow> nat set option" and ncpu a b s cs cs'
  assume 1: "\<And>ncpu a b s cs cs'. f ncpu a b s cs = Some cs' \<Longrightarrow> cs \<subseteq> {..<ncpu} \<longrightarrow> cs' \<subseteq> {..<ncpu}"
    and 2: "(if a \<le> b \<and> a < ncpu then f ncpu ((a + s) mod 2 ^ 32) b s (CPU_SET a cs) else Some cs) = Some cs'"
  show "cs \<subseteq> {..<ncpu} \<longrightarrow> cs' \<subseteq> {..<ncpu}"
  proof (cases "a \<le> b \<and> a < ncpu")
    case True
    then have "CPU_SET a cs \<subseteq> {..<ncpu}" if "cs \<subseteq> {..<ncpu}" using that by (auto simp: CPU_SET_def)
    moreover have "f ncpu ((a + s) mod 2 ^ 32) b s (CPU_SET a cs) = Some cs'" using 2 True by simp
    ultimately show ?thesis using 1 by blast
  next
    case False
    then show ?thesis using 2 by (simp add: if_not_P)
  qed
qed

lemmas mark_bound = mark_bound_imp [THEN mp]

lemma parse_list_bound:
  "parse_list ncpu q e cs = Some (ok, cs') \<Longrightarrow> cs \<subseteq> {..<ncpu} \<Longrightarrow> cs' \<subseteq> {..<ncpu}"
proof (induction ncpu q e cs rule: parse_list.induct)
  case (1 ncpu q e cs)
  note p = 1(2) [unfolded parse_list.simps [of ncpu q e cs]]
  show ?case
  proof (cases q)
    case None
    then show ?thesis using p 1(3) by auto
  next
    case (Some str)
    show ?thesis
    proof (cases "parse_range str")
      case None
      then show ?thesis using p 1(3) Some by auto
    next
      case r: (Some x)
      obtain f a b st where x: "x = (f, a, b, st)" by (cases x)
      show ?thesis
      proof (cases "a \<le> b")
        case True
        then obtain cs1 where m: "mark ncpu a b st cs = Some cs1"
            "parse_list ncpu (nexttoken q CHR '','') (Some f) cs1 = Some (ok, cs')"
          using p Some r x by (auto simp: Option.bind_eq_Some_conv simp del: nexttoken.simps)
        then show ?thesis
          using 1(1) [OF Some r x [symmetric] refl refl _ m(1) m(2)] True mark_bound [OF m(1) 1(3)] by simp
      qed (use p 1(3) Some r x in auto)
    qed
  qed
qed

lemma CpusetParse_bound: "CpusetParse str ncpu = Some (ok, cs) \<Longrightarrow> cs \<subseteq> {..<ncpu}"
  using parse_list_bound [of ncpu "Some str" None "{}"] by (auto simp: CpusetParse_def split: if_splits)

definition pins_ok :: "nat \<Rightarrow> Config \<Rightarrow> bool" where
  "pins_ok ncpu cfg \<longleftrightarrow> distinct (kPinnedCpus cfg) \<and> set (kPinnedCpus cfg) \<subseteq> {0 ..< int ncpu}"

lemma pins_ok_upd [simp]:
  "pins_ok ncpu (cfg\<lparr>kMaxParallel := n\<rparr>) = pins_ok ncpu cfg" "pins_ok ncpu (cfg\<lparr>kTimeMultiplier := x\<rparr>) = pins_ok ncpu cfg"
  by (simp_all add: pins_ok_def)

lemma SetPinnedCPU_ok: "SetPinnedCPU ncpu str cfg = Some cfg' \<Longrightarrow> pins_ok ncpu cfg'"
proof -
  assume "SetPinnedCPU ncpu str cfg = Some cfg'"
  then obtain cs where c: "CpusetParse str ncpu = Some (True, cs)" "cfg' = cfg\<lparr>kPinnedCpus := map int (sorted_list_of_set cs)\<rparr>"
    by (auto simp: SetPinnedCPU_def split: option.splits prod.splits bool.splits)
  have "finite cs" using CpusetParse_bound [OF c(1)] finite_subset by blast
  then show ?thesis using CpusetParse_bound [OF c(1)] c(2) by (auto simp: pins_ok_def distinct_map inj_on_def)
qed

lemma ParseConfig_pins: "ParseConfig ncpu src s = Some s' \<Longrightarrow> pins_ok ncpu (conf s')"
proof -
  assume "ParseConfig ncpu src s = Some s'"
  then obtain str cfg0 cfg where "SetPinnedCPU ncpu str cfg0 = Some cfg" "kPinnedCpus (conf s') = kPinnedCpus cfg"
    unfolding ParseConfig_def Let_def Option.bind_eq_Some_conv by auto
  then show ?thesis using SetPinnedCPU_ok by (simp add: pins_ok_def)
qed

text \<open>
  Whatever the configuration and the command line say, a judge that starts pins to pairwise different CPUs
  of the machine.
\<close>

theorem started_pins:
  assumes "main ncpu files args is_root locked s = Run s'"
  shows "distinct (kPinnedCpus (conf s')) \<and> set (kPinnedCpus (conf s')) \<subseteq> {0 ..< int ncpu}"
proof -
  obtain to_lock where "ParseArgs ncpu files args s = Run (s', to_lock)"
    using assms by (auto simp: main_def split: start.splits prod.splits if_splits)
  then have "pins_ok ncpu (conf s')"
    by (auto simp: ParseArgs_def Let_def split: option.splits if_splits dest!: ParseConfig_pins SetPinnedCPU_ok)
  then show ?thesis by (simp add: pins_ok_def)
qed

text \<open>
  A configuration file that sets nothing: the size of an output is limited by the limit of the resident
  memory, 2 GiB, and not by the 1 GiB \<open>kMaxOutput\<close> starts with.
\<close>

definition silent_ini :: Ini where
  "silent_ini = \<lparr>ini_string = (\<lambda>k d. d), ini_int = (\<lambda>k d. d), ini_long = (\<lambda>k d. d), ini_double = (\<lambda>k d. d)\<rparr>"

lemma silent_limits:
  "kMaxOutput (conf (Settings_init dir)) = 1048576 \<and>
   map_option (\<lambda>s. (kMaxRSS (conf s), kMaxOutput (conf s), max_queue s)) (ParseConfig ncpu (Some silent_ini) (Settings_init dir)) =
     Some (2097152, 2097152, 3)"
  by (simp add: ParseConfig_def silent_ini_def SetPinnedCPU_def CpusetParse_def Settings_init_def Let_def)

end
