(* ===== verification/Effects.thy ===== *)
theory Effects
  imports Handlers
begin

text \<open>
  What the handlers do outside the scheduler: every file operation a handler of a submission records
  changes paths in the run directory of that submission only, up to the removal of its sources at the
  very end; and no handler but \<open>FinalizeSummary\<close> reports an overall result or the end of a submission.
\<close>

section \<open>Own operations\<close>

text \<open>The paths an operation changes.\<close>

fun op_writes :: "fs_op \<Rightarrow> path list" where
  "op_writes (FsCreateDirs p _) = [p]"
| "op_writes (FsCopy _ q _) = [q]"
| "op_writes (FsMove p q _) = [p, q]"
| "op_writes (FsRemoveAll p) = [p]"
| "op_writes (FsMountTmpfs p _) = [p]"
| "op_writes (FsUmount p) = [p]"
| "op_writes (FsTouch p) = [p]"
| "op_writes (FsPermissions p _) = [p]"
| "op_writes (FsChownRoot p) = [p]"
| "op_writes (FsWriteJson p _) = [p]"
| "op_writes (FsWriteText p _) = [p]"

definition own_op :: "path \<Rightarrow> fs_op \<Rightarrow> bool" where
  "own_op dir x \<longleftrightarrow> (\<forall>p \<in> set (op_writes x). inside p dir)"

text \<open>A report before the end; the end is \<open>OverallResult\<close> and \<open>Finalized\<close>.\<close>

fun final_report :: "report \<Rightarrow> bool" where
  "final_report (OverallResult _ _) = True"
| "final_report (Finalized _ _) = True"
| "final_report _ = False"

fun own_event :: "Config \<Rightarrow> int \<Rightarrow> event \<Rightarrow> bool" where
  "own_event cfg iid (Fs x) \<longleftrightarrow> own_op (SubmissionRunPath cfg iid) x"
| "own_event cfg iid (Rep r) \<longleftrightarrow> \<not> final_report r"

definition emits :: "(event \<Rightarrow> bool) \<Rightarrow> JState \<Rightarrow> JState \<Rightarrow> bool" where
  "emits P st st' \<longleftrightarrow> (\<exists>es. events st' = events st @ es \<and> list_all P es)"

lemma emits_refl [simp, intro]: "emits P st st"
  by (simp add: emits_def)

lemma emits_trans: "emits P a b \<Longrightarrow> emits P b c \<Longrightarrow> emits P a c"
  by (auto simp: emits_def)

lemma emits_emit: "list_all P es \<Longrightarrow> emits P st (emit es st)"
  by (auto simp: emits_def emit_def)

lemma emits_cancel [simp]: "emits P st (cancel_groups sb gs td st)"
  by (auto simp: emits_def cancel_groups_def Let_def)

lemma list_all_Fs: "list_all (own_event cfg iid) (map Fs xs) = list_all (own_op (SubmissionRunPath cfg iid)) xs"
  by (induction xs) auto

section \<open>Paths in the run directory\<close>

named_theorems inside_intros \<open>paths below the run directory of a submission\<close>

lemma PadInt_sign_no_slash: "CHR ''/'' \<notin> set (PadInt x w)"
  by (cases "x < 0") (auto simp: PadInt_def to_string_def Let_def isdigit_def dest: nat_to_string_digits split: if_split_asm)

lemma run_path_end: "SubmissionRunPath cfg iid \<noteq> [] \<and> last (SubmissionRunPath cfg iid) \<noteq> CHR ''/''"
proof -
  have n: "PadInt iid 6 \<noteq> []" by (simp add: PadInt_nonempty)
  then have "last (PadInt iid 6) \<noteq> CHR ''/''" using PadInt_sign_no_slash [of iid 6] by (metis last_in_set)
  moreover have "SubmissionRunPath cfg iid = root_sep (kBoxRoot cfg) @ PadInt iid 6"
    unfolding SubmissionRunPath_def by (rule path_div_relative [OF no_slash_head [OF PadInt_sign_no_slash]])
  ultimately show ?thesis using n by simp
qed

lemma inside_div:
  assumes "inside p r" "take 1 q \<noteq> ''/''" "r \<noteq> []" "last r \<noteq> CHR ''/''"
  shows "inside (path_div p q) r"
proof (cases "p = r")
  case True
  then show ?thesis using assms by (simp add: inside_def path_div_def)
next
  case False
  then obtain z where "p = (r @ ''/'') @ z" using assms(1) by (auto simp: inside_def prefix_def)
  then show ?thesis using assms(2) by (auto simp: inside_def path_div_def)
qed

lemma run_div:
  "inside p (SubmissionRunPath cfg iid) \<Longrightarrow> take 1 q \<noteq> ''/'' \<Longrightarrow>
   inside (path_div p q) (SubmissionRunPath cfg iid)"
  using inside_div run_path_end by blast

lemma run_boxes [inside_intros]:
  shows "inside (CompileBoxPath cfg iid s) (SubmissionRunPath cfg iid)"
    "inside (ExecuteBoxPath cfg iid i stg) (SubmissionRunPath cfg iid)"
    "inside (ScoringBoxPath cfg iid i stg) (SubmissionRunPath cfg iid)"
    "inside (SummaryBoxPath cfg iid) (SubmissionRunPath cfg iid)"
    "inside (SubmissionRunPath cfg iid) (SubmissionRunPath cfg iid)"
proof -
  have r: "inside (SubmissionRunPath cfg iid) (SubmissionRunPath cfg iid)" by (simp add: inside_def)
  then show "inside (SubmissionRunPath cfg iid) (SubmissionRunPath cfg iid)" .
  note R = run_div [OF r]
  show "inside (CompileBoxPath cfg iid s) (SubmissionRunPath cfg iid)"
    "inside (ExecuteBoxPath cfg iid i stg) (SubmissionRunPath cfg iid)"
    "inside (ScoringBoxPath cfg iid i stg) (SubmissionRunPath cfg iid)"
    "inside (SummaryBoxPath cfg iid) (SubmissionRunPath cfg iid)"
    by (simp_all add: CompileBoxPath_def ExecuteBoxPath_def ScoringBoxPath_def SummaryBoxPath_def R)
qed

lemma run_workdir [inside_intros]:
  "inside p (SubmissionRunPath cfg iid) \<Longrightarrow> inside (Workdir p) (SubmissionRunPath cfg iid)"
  by (simp add: Workdir_def kWorkdirRelative_def run_div)

lemma name_starts: "take 1 (InterlibName k) \<noteq> ''/''" "take 1 (CompileCodeName s l) \<noteq> ''/''"
  "take 1 (CompileResultName s l) \<noteq> ''/''"
  by (cases s; simp add: InterlibName_def CompileCodeName_def CompileResultName_def)+

lemma run_files [inside_intros]:
  shows "inside (CompileBoxInput cfg iid s l False) (SubmissionRunPath cfg iid)"
    "inside (CompileBoxInterlib cfg iid k False) (SubmissionRunPath cfg iid)"
    "inside (CompileBoxInterlibImpl cfg iid l False) (SubmissionRunPath cfg iid)"
    "inside (CompileBoxMessage cfg iid s False) (SubmissionRunPath cfg iid)"
    "inside (CompileBoxOutput cfg iid s l False) (SubmissionRunPath cfg iid)"
    "inside (ExecuteBoxProgram cfg iid i stg l False) (SubmissionRunPath cfg iid)"
    "inside (ExecuteBoxTdStrictPath cfg iid i stg False) (SubmissionRunPath cfg iid)"
    "inside (ExecuteBoxInput cfg iid i stg b False) (SubmissionRunPath cfg iid)"
    "inside (ExecuteBoxOutput cfg iid i stg b False) (SubmissionRunPath cfg iid)"
    "inside (ExecuteBoxFinalOutput cfg iid i stg) (SubmissionRunPath cfg iid)"
    "inside (ScoringBoxProgram cfg iid i stg l False) (SubmissionRunPath cfg iid)"
    "inside (ScoringBoxUserCode cfg iid i stg l False) (SubmissionRunPath cfg iid)"
    "inside (ScoringBoxUserOutput cfg iid i stg False) (SubmissionRunPath cfg iid)"
    "inside (ScoringBoxTdInput cfg iid i stg False) (SubmissionRunPath cfg iid)"
    "inside (ScoringBoxTdOutput cfg iid i stg False) (SubmissionRunPath cfg iid)"
    "inside (ScoringBoxMetaFile cfg iid i stg False) (SubmissionRunPath cfg iid)"
    "inside (ScoringBoxOutput cfg iid i stg False) (SubmissionRunPath cfg iid)"
    "inside (ScoringBoxTempdir cfg iid i stg False) (SubmissionRunPath cfg iid)"
    "inside (SummaryBoxProgram cfg iid l False) (SubmissionRunPath cfg iid)"
    "inside (SummaryBoxUserCode cfg iid l False) (SubmissionRunPath cfg iid)"
    "inside (SummaryBoxCEMessage cfg iid False) (SubmissionRunPath cfg iid)"
    "inside (SummaryBoxMetaFile cfg iid False) (SubmissionRunPath cfg iid)"
proof -
  note R = run_div and W = run_workdir [OF run_boxes(1)]
  show "inside (CompileBoxInput cfg iid s l False) (SubmissionRunPath cfg iid)"
    "inside (CompileBoxInterlib cfg iid k False) (SubmissionRunPath cfg iid)"
    "inside (CompileBoxOutput cfg iid s l False) (SubmissionRunPath cfg iid)"
    unfolding CompileBoxInput_def CompileBoxInterlib_def CompileBoxOutput_def BoxRoot_def
    by (simp_all only: if_False R [OF W name_starts(1)] R [OF W name_starts(2)] R [OF W name_starts(3)])
qed (simp_all add: CompileBoxInput_def CompileBoxInterlib_def CompileBoxInterlibImpl_def CompileBoxMessage_def
    CompileBoxOutput_def ExecuteBoxProgram_def ExecuteBoxTdStrictPath_def ExecuteBoxInput_def ExecuteBoxOutput_def
    ExecuteBoxFinalOutput_def ScoringBoxProgram_def ScoringBoxUserCode_def ScoringBoxUserOutput_def
    ScoringBoxTdInput_def ScoringBoxTdOutput_def ScoringBoxMetaFile_def ScoringBoxOutput_def ScoringBoxTempdir_def
    SummaryBoxProgram_def SummaryBoxUserCode_def SummaryBoxCEMessage_def SummaryBoxMetaFile_def BoxRoot_def
    run_div run_boxes run_workdir)

section \<open>The handlers\<close>

text \<open>The names the listing of the judge headers gives are relative.\<close>

definition headers_ok :: "FsView \<Rightarrow> bool" where
  "headers_ok fs \<longleftrightarrow> (\<forall>(dir, name) \<in> set (header_files fs). take 1 dir \<noteq> ''/'' \<and> take 1 name \<noteq> ''/'')"

lemmas own_simps = own_op_def list_all_Fs inside_intros

abbreviation own :: "Config \<Rightarrow> SubmissionAndResult \<Rightarrow> event \<Rightarrow> bool" where
  "own cfg sr \<equiv> own_event cfg (submission_internal_id (sub sr))"

lemma copy_headers_own:
  assumes "headers_ok fs" "inside box (SubmissionRunPath cfg iid)"
  shows "list_all (own_event cfg iid) (copy_headers cfg fs box)"
  using assms by (auto simp: copy_headers_def list_all_iff headers_ok_def own_op_def run_div Let_def)

lemma SetupCompile_own:
  assumes "headers_ok fs"
  shows "emits (own cfg sr) st (snd (SetupCompile cfg fs sr task st))"
  using assms
  by (auto simp: SetupCompile_def compile_deps_def Let_def own_simps copy_headers_own run_workdir run_boxes
      intro!: emits_emit split: CompileSubtask.splits InterlibType.splits)

lemma FinalizeCompile_own: "FinalizeCompile cfg fs sr task cres st = Inr (sr', st') \<Longrightarrow> emits (own cfg sr) st st'"
  by (auto simp: FinalizeCompile_def Let_def intro!: emits_emit
      split: if_split_asm sum.splits CompileSubtask.splits)

lemma execute_input_own:
  "list_all (own_op (SubmissionRunPath cfg (submission_internal_id sb))) (execute_input_ops cfg sb item i stg)"
  by (simp add: execute_input_ops_def Let_def own_simps)

lemma SetupExecute_own:
  assumes "SetupExecute cfg fs sr task st = Inr (b, st')"
  shows "emits (own cfg sr) st st'"
  using assms execute_input_own [of cfg]
  by (auto simp: SetupExecute_def Let_def own_simps intro!: emits_emit split: if_split_asm option.splits prod.splits)

lemma FinalizeExecute_own:
  assumes "FinalizeExecute cfg fs sr task cres st = Inr (sr', st')"
  shows "emits (own cfg sr) st st'"
  using assms
  by (auto simp: FinalizeExecute_def execute_output_ops_def Let_def own_simps intro!: emits_emit split: option.splits)

lemma ReadSpecjudgeResult_moved:
  "set (snd (ReadSpecjudgeResult fs sb info ls out user_out temp td)) \<subseteq> {FsMove (path_div temp ''nextpass.in'') user_out None}"
  by (auto simp: ReadSpecjudgeResult_def ReadKattisSpecjudgeResult_def Let_def
      split: SpecjudgeType.splits prod.splits if_split_asm)

lemma FinalizeScoring_own:
  assumes f: "FinalizeScoring cfg fs sr task cres skipped st = Inr (sr', st')"
  shows "emits (own cfg sr) st st'"
proof -
  let ?R = "SubmissionRunPath cfg (submission_internal_id (sub sr))"
  let ?i = "subtask (te_task task)" and ?stg = "stage (te_task task)" and ?iid = "submission_internal_id (sub sr)"
  obtain td item where t: "nth_opt (td_results (result sr)) (nat ?i) = Some td" "nth_opt (testdata (sub sr)) (nat ?i) = Some item"
    using f by (auto simp: FinalizeScoring_def Let_def split: option.splits)
  have e: "list_all (own_op ?R) (scoring_end_ops cfg (sub sr) ls skipped td' ?i ?stg)" for ls td'
    by (simp add: scoring_end_ops_def Let_def own_simps)
  have m: "list_all (own_op ?R) (snd (ReadSpecjudgeResult fs (sub sr) cres ls (ScoringBoxOutput cfg ?iid ?i ?stg False)
      (ScoringBoxUserOutput cfg ?iid ?i ?stg False) (ScoringBoxTempdir cfg ?iid ?i ?stg False) td'))" for ls td'
    using ReadSpecjudgeResult_moved by (fastforce simp: list_all_iff own_simps run_div)
  define ls where "ls = (?stg = stages (sub sr) - 1)"
  define r where "r = (if skipped then (td\<lparr>td_score := 0\<rparr>, [])
    else ReadSpecjudgeResult fs (sub sr) cres ls (ScoringBoxOutput cfg ?iid ?i ?stg False)
      (ScoringBoxUserOutput cfg ?iid ?i ?stg False) (ScoringBoxTempdir cfg ?iid ?i ?stg False) (td\<lparr>td_score := 0\<rparr>))"
  obtain td1 mv where r: "r = (td1, mv)" by (cases r)
  have mv: "list_all (own_op ?R) mv" using m [of ls "td\<lparr>td_score := 0\<rparr>"] r by (auto simp: r_def split: if_split_asm)
  obtain es where st': "st' = emit (map Fs (mv @ scoring_end_ops cfg (sub sr) ls skipped (scoring_outcome ls td1) ?i ?stg) @ es)
      (cancel_groups (sub sr) (td_groups item) (scoring_outcome ls td1) st)" and es: "list_all (own_event cfg ?iid) es"
  proof -
    note v = f [unfolded FinalizeScoring_def Let_def t option.case prod.case, folded ls_def, folded r_def,
      unfolded r prod.case sum.inject prod.inject, THEN conjunct2, symmetric]
    show thesis by (rule that [OF v]) simp
  qed
  show ?thesis
    unfolding st' by (rule emits_trans [OF emits_cancel emits_emit]) (use mv es e in \<open>simp add: list_all_Fs\<close>)
qed

lemma scoring_ops_own:
  shows "list_all (own_op (SubmissionRunPath cfg (submission_internal_id sb))) (scoring_prog_ops cfg sb i stg)"
    "list_all (own_op (SubmissionRunPath cfg (submission_internal_id sb))) (scoring_input_ops cfg fs sb item td i stg)"
  by (simp_all add: scoring_prog_ops_def scoring_input_ops_def Let_def own_simps)

lemma emits_emit2: "list_all P es \<Longrightarrow> list_all P es' \<Longrightarrow> emits P st (emit es (emit es' st))"
  by (rule emits_trans [OF emits_emit emits_emit])

lemma emits_after:
  "emits P (emit es st) st' \<Longrightarrow> list_all P es \<Longrightarrow> emits P st st'"
  "emits P (emit es (emit es' st)) st' \<Longrightarrow> list_all P es \<Longrightarrow> list_all P es' \<Longrightarrow> emits P st st'"
  using emits_trans [OF emits_emit] emits_trans [OF emits_emit2] by blast+

lemma SetupScoring_own:
  assumes s: "SetupScoring cfg fs sr task st = Inr (b, sr', st')"
  shows "emits (own cfg sr) st st'"
proof -
  note S = scoring_ops_own [of cfg] and F = FinalizeScoring_own [of cfg]
  have "emits (own cfg sr) st (snd (snd x))" if "SetupScoring cfg fs sr task st = Inr x" for x
    using that S
    by (auto simp: SetupScoring_def Let_def map_sum_Inr list_all_Fs own_simps split: if_split_asm option.splits
        intro!: emits_emit2 dest!: F elim!: emits_after)
  from this [OF s] show ?thesis by simp
qed

lemma SetupSummary_own:
  assumes "SetupSummary cfg fs sr task st = Inr (b, sr', st')"
  shows "emits (own cfg sr) st st'"
  using assms
  by (auto simp: SetupSummary_def Let_def and_then_Inr own_simps intro!: emits_emit split: if_split_asm)

lemma run_setup_own:
  assumes "headers_ok fs" "run_setup cfg fs sr entry st = Inr (b, sr', st')"
  shows "emits (own cfg sr) st st'"
proof (cases "task_type (te_task entry)")
  case COMPILE
  then show ?thesis using assms(2) SetupCompile_own [OF assms(1), of cfg sr st entry]
    by (auto simp: run_setup_def split: prod.splits)
next
  case EXECUTE
  then show ?thesis using assms(2) SetupExecute_own by (auto simp: run_setup_def and_then_Inr)
next
  case SCORING
  then show ?thesis using assms(2) SetupScoring_own by (simp add: run_setup_def)
next
  case SUMMARY
  then show ?thesis using assms(2) SetupSummary_own by (simp add: run_setup_def)
qed

lemma run_finalize_own:
  assumes "task_type (te_task entry) \<noteq> SUMMARY"
    "run_finalize cfg fs sr entry cres skipped st = Inr st'"
  shows "emits (own cfg sr) st st'"
proof -
  have p: "emits (own cfg sr) st (put_submission k sr' st'')" if "emits (own cfg sr) st st''" for k sr' st''
    using that by (simp add: emits_def put_submission_def)
  show ?thesis
  proof (cases "task_type (te_task entry)")
    case COMPILE
    then show ?thesis using assms(2) FinalizeCompile_own p by (fastforce simp: run_finalize_def Let_def and_then_Inr)
  next
    case EXECUTE
    then show ?thesis using assms(2) FinalizeExecute_own p
      by (fastforce simp: run_finalize_def Let_def and_then_Inr)
  next
    case SCORING
    then show ?thesis using assms(2) FinalizeScoring_own p
      by (fastforce simp: run_finalize_def Let_def and_then_Inr)
  qed (use assms(1) in simp)
qed

text \<open>Whatever the headers are called, no set-up reports an end.\<close>

fun quiet :: "event \<Rightarrow> bool" where
  "quiet (Fs x) = True"
| "quiet (Rep r) \<longleftrightarrow> \<not> final_report r"

lemma emits_quiet: "emits (own cfg sr) st st' \<Longrightarrow> emits quiet st st'"
proof -
  have "quiet e" if "own cfg sr e" for e using that by (cases e) simp_all
  then have "list_all (own cfg sr) es \<Longrightarrow> list_all quiet es" for es using list.pred_mono_strong by blast
  then show "emits (own cfg sr) st st' \<Longrightarrow> emits quiet st st'" by (auto simp: emits_def)
qed

lemma all_quiet [simp]: "list_all quiet (map Fs xs)"
  by (induction xs) auto

lemma SetupCompile_quiet: "emits quiet st (snd (SetupCompile cfg fs sr task st))"
  by (auto simp: SetupCompile_def compile_deps_def copy_headers_def Let_def list_all_iff
      intro!: emits_emit split: CompileSubtask.splits InterlibType.splits)

lemma run_setup_quiet:
  assumes "run_setup cfg fs sr entry st = Inr (b, sr', st')"
  shows "emits quiet st st'"
proof (cases "task_type (te_task entry)")
  case COMPILE
  then show ?thesis using assms SetupCompile_quiet [of st cfg fs sr entry]
    by (auto simp: run_setup_def split: prod.splits)
next
  case EXECUTE
  then show ?thesis using assms emits_quiet [OF SetupExecute_own] by (auto simp: run_setup_def and_then_Inr)
next
  case SCORING
  then show ?thesis using assms emits_quiet [OF SetupScoring_own] by (simp add: run_setup_def)
next
  case SUMMARY
  then show ?thesis using assms emits_quiet [OF SetupSummary_own] by (simp add: run_setup_def)
qed

section \<open>The end of a submission\<close>

text \<open>The sources are removed if the server says so, the run directory always; then the two reports.\<close>

definition summary_end_ops :: "Config \<Rightarrow> Submission \<Rightarrow> fs_op list" where
  "summary_end_ops cfg sb =
     (if remove_submission sb then [FsRemoveAll (SubmissionCodePath cfg (submission_internal_id sb))] else []) @
     [FsRemoveAll (SubmissionRunPath cfg (submission_internal_id sb))]"

definition end_reports :: "Submission \<Rightarrow> bool \<Rightarrow> SubmissionResult \<Rightarrow> nat \<Rightarrow> report list" where
  "end_reports sb cancelled res n =
     (if \<not> cancelled \<and> ReportOverallResult (reporter sb) then [OverallResult (submission_id sb) res] else []) @
     (if ReportFinalized (reporter sb) then [Finalized (submission_id sb) n] else [])"

lemma score_submission_verdict: "score_submission sr = Inr res \<Longrightarrow> verdict res = verdict (result sr)"
  by (auto simp: score_submission_def Let_def and_then_Inr split: if_split_asm prod.splits)

lemma ReadSummaryResult_verdict: "ReadSummaryResult fs p res = Some r \<Longrightarrow> verdict r \<noteq> NUL"
proof -
  assume a: "ReadSummaryResult fs p res = Some r"
  then obtain j where j: "file_json fs p = Some j" by (cases "file_json fs p") (simp_all add: ReadSummaryResult_def)
  define r1 where "r1 = (case json_find ''verdict'' j of
    Some (JString s) \<Rightarrow> res\<lparr>verdict := AbrToVerdict s False\<rparr> | _ \<Rightarrow> res)"
  define r2 where "r2 = (if verdict r1 = NUL then r1\<lparr>verdict := WA\<rparr> else r1)"
  define r3 where "r3 = (case json_find ''score'' j of
    None \<Rightarrow> r2 | Some v \<Rightarrow> (case read_score v of None \<Rightarrow> r2 | Some n \<Rightarrow> r2\<lparr>total_score := n\<rparr>))"
  define r4 where "r4 = r3\<lparr>total_time := ReadNumber ''total_time_us'' j (total_time r3)\<rparr>"
  define r5 where "r5 = r4\<lparr>total_memory := ReadNumber ''total_memory_kib'' j (total_memory r4)\<rparr>"
  have "verdict r2 \<noteq> NUL" by (simp add: r2_def)
  then have "verdict r5 \<noteq> NUL" by (simp add: r5_def r4_def r3_def split: option.split)
  moreover have "r = (case json_find ''ce_message'' j of Some (JString s) \<Rightarrow> r5\<lparr>ce_message := s\<rparr> | _ \<Rightarrow> r5)"
    using a unfolding ReadSummaryResult_def j option.case Let_def r1_def [symmetric]
    unfolding r2_def [symmetric] unfolding r3_def [symmetric] unfolding r4_def [symmetric]
    unfolding r5_def [symmetric] by simp
  ultimately show "verdict r \<noteq> NUL" by (simp split: option.split json.split)
qed

lemma summary_result_verdict: "verdict (summary_result fs p cres res) \<noteq> NUL"
  using ReadSummaryResult_verdict by (auto simp: summary_result_def Let_def split: option.splits)

lemma FinalizeSummary_events:
  assumes "FinalizeSummary cfg fs sr task cres skipped st = Inr st'"
  obtains res where "events st' = events st @ map Fs (summary_end_ops cfg (sub sr)) @
      map Rep (end_reports (sub sr) (submission_internal_id (sub sr) \<in> cancelled_list st) res (card (dom (submission_list st))))"
    "if skipped then verdict res = verdict (result sr) else verdict res \<noteq> NUL"
proof -
  obtain r where r: "score_submission sr = Inr r" using assms by (auto simp: FinalizeSummary_def and_then_Inr)
  define res where "res = (if skipped then r else
      summary_result fs (SummaryBoxOutput cfg (submission_internal_id (sub sr)) False) cres r)"
  have v: "if skipped then verdict res = verdict (result sr) else verdict res \<noteq> NUL"
    using score_submission_verdict [OF r] summary_result_verdict by (simp add: res_def)
  let ?sb = "sub sr" and ?k = "submission_internal_id (sub sr)"
  define a where "a = emit (map Fs ((if remove_submission ?sb then [FsRemoveAll (SubmissionCodePath cfg ?k)] else []) @
    [FsRemoveAll (SubmissionRunPath cfg ?k)])) st"
  define b where "b = (if ?k \<in> cancelled_list a then a\<lparr>cancelled_list := cancelled_list a - {?k}\<rparr>
    else if ReportOverallResult (reporter ?sb) then emit [Rep (OverallResult (submission_id ?sb) res)] a else a)"
  define c where "c = b\<lparr>cancelled_group := (cancelled_group b)(?k := None)\<rparr>"
  define d where "d = (if ReportFinalized (reporter ?sb)
    then emit [Rep (Finalized (submission_id ?sb) (card (dom (submission_list c))))] c else c)"
  have "FinalizeSummary cfg fs sr task cres skipped st =
      Inr (d\<lparr>submission_id_map := (submission_id_map d)(?k := None), submission_list := (submission_list d)(?k := None)\<rparr>)"
    unfolding FinalizeSummary_def r and_then_simps Let_def res_def a_def b_def c_def d_def by (rule refl)
  then have e: "events st' = events d" using assms by auto
  have A: "events a = events st @ map Fs (summary_end_ops cfg ?sb)" "cancelled_list a = cancelled_list st"
    "submission_list a = submission_list st"
    by (simp_all add: a_def summary_end_ops_def emit_def)
  have B: "submission_list c = submission_list st"
    "events c = events a @ (if ?k \<notin> cancelled_list st \<and> ReportOverallResult (reporter ?sb)
       then [Rep (OverallResult (submission_id ?sb) res)] else [])"
    using A(2,3) by (simp_all add: c_def b_def emit_def)
  have "events st' = events st @ map Fs (summary_end_ops cfg ?sb) @
      map Rep (end_reports ?sb (?k \<in> cancelled_list st) res (card (dom (submission_list st))))"
    unfolding e d_def using A(1) B by (simp add: emit_def end_reports_def)
  then show thesis using v by (rule that)
qed

end
