(* ===== verification/Reports.thy ===== *)
theory Reports
  imports Judge Effects Sample
begin

text \<open>
  What the server hears of the end of submissions: in every step of the judge either no submission ends and
  no end is reported, or one ends and exactly its overall result and its end are reported, in this order, each
  if its reporter takes them, and the result only if the submission was not cancelled.
\<close>

section \<open>Reports of an end\<close>

fun finals :: "event list \<Rightarrow> report list" where
  "finals [] = []"
| "finals (Rep r # es) = (if final_report r then r # finals es else finals es)"
| "finals (Fs x # es) = finals es"

lemma finals_append [simp]: "finals (xs @ ys) = finals xs @ finals ys"
  by (induction xs rule: finals.induct) simp_all

lemma finals_quiet: "list_all quiet es \<Longrightarrow> finals es = []"
  by (induction es rule: finals.induct) simp_all

lemma finals_Fs [simp]: "finals (map Fs xs) = []"
  by (induction xs) simp_all

lemma finals_end [simp]: "finals (map Rep (end_reports sb c res n)) = end_reports sb c res n"
  by (simp add: end_reports_def)

definition ended :: "JState \<Rightarrow> JState \<Rightarrow> int set" where
  "ended st st' = dom (submission_list st) - dom (submission_list st')"

definition ends_right :: "JState \<Rightarrow> JState \<Rightarrow> event list \<Rightarrow> bool" where
  "ends_right st st' es \<longleftrightarrow>
     ended st st' = {} \<and> finals es = [] \<or>
     (\<exists>k sr res. ended st st' = {k} \<and> submission_list st k = Some sr \<and> verdict res \<noteq> NUL \<and>
        finals es = end_reports (sub sr) (k \<in> cancelled_list st) res (card (dom (submission_list st))))"

definition reports_right :: "JState \<Rightarrow> JState \<Rightarrow> bool" where
  "reports_right st st' \<longleftrightarrow> (\<exists>es. events st' = events st @ es \<and> ends_right st st' es)"

lemma reports_quiet:
  assumes "emits quiet st st'" "dom (submission_list st) \<subseteq> dom (submission_list st')"
  shows "reports_right st st'"
  using assms finals_quiet by (force simp: emits_def reports_right_def ends_right_def ended_def)

lemma reports_same: "events st' = events st \<Longrightarrow> dom (submission_list st) \<subseteq> dom (submission_list st') \<Longrightarrow> reports_right st st'"
  by (rule reports_quiet) (simp_all add: emits_def)

text \<open>A quiet beginning does not change what has to be reported.\<close>

lemma reports_after:
  assumes e: "emits quiet st st1" and m: "\<And>k. map_option sub (submission_list st1 k) = map_option sub (submission_list st k)"
    and c: "cancelled_list st1 = cancelled_list st" and r: "reports_right st1 st'"
  shows "reports_right st st'"
proof -
  obtain xs where xs: "events st1 = events st @ xs" "finals xs = []" using e finals_quiet by (auto simp: emits_def)
  obtain ys where ys: "events st' = events st1 @ ys" "ends_right st1 st' ys" using r by (auto simp: reports_right_def)
  have d: "dom (submission_list st1) = dom (submission_list st)" using m by (metis domIff option.map_disc_iff subsetI subset_antisym)
  then have D: "ended st1 st' = ended st st'" by (simp add: ended_def)
  have "\<exists>sr0. submission_list st k = Some sr0 \<and> sub sr0 = sub sr" if "submission_list st1 k = Some sr" for k sr
    using m [of k] that by (cases "submission_list st k") auto
  then have "ends_right st st' (xs @ ys)" using ys(2) xs(2) unfolding ends_right_def D d c by fastforce
  then show ?thesis using xs(1) ys(1) by (auto simp: reports_right_def)
qed

section \<open>The steps\<close>

lemma Remove_edges_rest:
  "Remove_edges ns st = Inr st' \<Longrightarrow> events st' = events st \<and> submission_list st' = submission_list st"
proof (induction ns arbitrary: st)
  case (Cons n ns)
  then show ?case by (auto simp: Let_def split: option.splits if_split_asm)
qed simp

lemma Remove_rest: "Remove t st = Inr st' \<Longrightarrow> events st' = events st \<and> submission_list st' = submission_list st"
  by (auto simp: Remove_def dest: Remove_edges_rest split: sum.splits)

lemma run_finalize_submissions:
  assumes "run_finalize cfg fs sr t cres False st = Inr s" "task_type (te_task t) \<noteq> SUMMARY"
  shows "dom (submission_list st) \<subseteq> dom (submission_list s)"
proof -
  have p: "dom (submission_list st) \<subseteq> dom (submission_list (put_submission k x st'))" if "grows st st'" for k x st'
    using grows_fields(4) [OF that] by (auto simp: put_submission_def)
  have "\<exists>st' x. grows st st' \<and> s = put_submission (te_submission t) x st'"
  proof (cases "task_type (te_task t)")
    case COMPILE
    then obtain x st' where s: "FinalizeCompile cfg fs sr t cres st = Inr (x, st')" "s = put_submission (te_submission t) x st'"
      using assms(1) by (auto simp: run_finalize_def Let_def and_then_Inr)
    then show ?thesis using FinalizeCompile_sr_le(1) [OF s(1)] by blast
  next
    case EXECUTE
    then obtain x st' where s: "FinalizeExecute cfg fs sr t cres st = Inr (x, st')" "s = put_submission (te_submission t) x st'"
      using assms(1) by (auto simp: run_finalize_def Let_def and_then_Inr)
    then show ?thesis using FinalizeExecute_frame(4) [OF s(1)] by auto
  next
    case SCORING
    then obtain x st' where s: "FinalizeScoring cfg fs sr t cres False st = Inr (x, st')" "s = put_submission (te_submission t) x st'"
      using assms(1) by (auto simp: run_finalize_def Let_def and_then_Inr)
    then show ?thesis using FinalizeScoring_frame(1) [OF s(1)] by blast
  qed (use assms(2) in simp)
  then show ?thesis using p by blast
qed

lemma FinalizeTask_reports:
  assumes h: "at_hand Q R st tid t sr" and f: "FinalizeTask cfg fs tid cres skipped st = Inr st'"
    and v: "task_type (te_task t) = SUMMARY \<Longrightarrow> skipped \<Longrightarrow> verdict (result sr) \<noteq> NUL"
  shows "reports_right st st'"
proof -
  note H = at_handD [OF h] and S = at_hand_sub [OF h]
  have ft: "FinalizeTask cfg fs tid cres skipped st = and_then
      (if \<not> skipped \<or> task_type (te_task t) = SUMMARY then run_finalize cfg fs sr t cres skipped st else Inr st) (Remove t)"
    using H(3,4) by (simp add: FinalizeTask_def)
  show ?thesis
  proof (cases "task_type (te_task t) = SUMMARY")
    case True
    then obtain s where s: "FinalizeSummary cfg fs sr t cres skipped st = Inr s" "Remove t s = Inr st'"
      using f by (auto simp: ft run_finalize_def and_then_Inr)
    from FinalizeSummary_events [OF s(1)] obtain res where
      e: "events s = events st @ map Fs (summary_end_ops cfg (sub sr)) @ map Rep (end_reports (sub sr)
        (te_submission t \<in> cancelled_list st) res (card (dom (submission_list st))))"
      and n: "verdict res \<noteq> NUL"
      using v [OF True] unfolding S(1) by (metis (full_types))
    have "submission_list s = (submission_list st)(te_submission t := None)"
      using FinalizeSummary_frame(4) [OF s(1)] S(1) by simp
    then have "ended st st' = {te_submission t}" using Remove_rest [OF s(2)] H(4) by (auto simp: ended_def)
    then show ?thesis
      using Remove_rest [OF s(2)] e n H(4) unfolding reports_right_def ends_right_def
      by (intro exI [of _ "map Fs _ @ map Rep _"] conjI) auto
  next
    case False
    obtain s where s: "(if skipped then Inr st else run_finalize cfg fs sr t cres False st) = Inr s" "Remove t s = Inr st'"
      using f False unfolding ft and_then_Inr by (cases skipped) auto
    have q: "emits quiet st s"
      using s(1) emits_quiet [OF run_finalize_own [OF False]] by (cases skipped) auto
    have "dom (submission_list st) \<subseteq> dom (submission_list s)"
      using s(1) run_finalize_submissions [OF _ False] by (cases skipped) auto
    then show ?thesis using q Remove_rest [OF s(2)] by (intro reports_quiet) (simp_all add: emits_def)
  qed
qed

lemma setup_verdict:
  assumes "run_setup cfg fs sr t st = Inr (b, sr', st')" "task_type (te_task t) = SUMMARY"
  shows "verdict (result sr') \<noteq> NUL"
  using assms overall_verdict_not_NUL
  by (auto simp: run_setup_def SetupSummary_def and_then_Inr Let_def split: if_split_asm)

lemma DispatchTask_reports:
  assumes h: "at_hand Q R st tid t sr" and d: "DispatchTask cfg env tid (st, ts) = Inr (b, st', ts')"
  shows "reports_right st st'"
proof -
  note H = at_handD [OF h]
  obtain b1 sr1 st1 where su: "run_setup cfg (env_fs env) sr t st = Inr (b1, sr1, st1)"
    using d H(3,4) by (cases "run_setup cfg (env_fs env) sr t st") (auto simp: DispatchTask_def)
  define s where "s = put_submission (te_submission t) sr1 st1"
  note S = setup_result [OF h su, folded s_def]
  have q: "emits quiet st s" using run_setup_quiet [OF su] by (simp add: s_def emits_def put_submission_def)
  have m: "map_option sub (submission_list s k) = map_option sub (submission_list st k)" for k
    using S(7,10) H(4) by simp
  have c: "cancelled_list s = cancelled_list st"
    using grows_fields(5) [OF run_setup_frame(1) [OF su]] by (simp add: s_def put_submission_def)
  have "reports_right s st'"
  proof (cases b1)
    case True
    then obtain h where "st' = s\<lparr>handle_map := (handle_map s)(h \<mapsto> tid)\<rparr>"
      using d H(3,4) by (auto simp: DispatchTask_def su and_then_Inr s_def Let_def)
    then show ?thesis by (intro reports_same) simp_all
  next
    case False
    then have f: "FinalizeTask cfg (env_fs env) tid cjail_zero True s = Inr st'"
      using d H(3,4) by (auto simp: DispatchTask_def su and_then_Inr s_def Let_def)
    have "at_hand Q R s tid t sr1" unfolding at_hand_def using S(1-3) H(2) by blast
    from FinalizeTask_reports [OF this f] setup_verdict [OF su] show ?thesis by blast
  qed
  with reports_after [OF q m c] show ?thesis by blast
qed

lemma push_reports:
  assumes "push_pre sb st" "PushSubmission sb max_queue st = Inr (b, st')"
  shows "reports_right st st'"
proof (cases b)
  case True
  have i: "narrow_int (submission_internal_id (clamp_stages sb)) = submission_internal_id sb"
    "submission_list st (submission_internal_id sb) = None"
    using assms(1) by (simp_all add: push_pre_def Let_def clamp_stages_def)
  obtain ks B c where st': "st' = enqueue (clamp_stages sb) (submission_internal_id sb) (insert_batch B ks (st\<lparr>task_count := c\<rparr>))"
    using assms(2) True i(1) by (auto simp: PushSubmission_def Let_def split: if_split_asm sum.splits prod.splits)
  have n: "submission_list (insert_batch B ks (st\<lparr>task_count := c\<rparr>)) (submission_internal_id sb) = None"
    using i(2) by (simp add: insert_batch_fields)
  note e = enqueue_fields [OF n, of "clamp_stages sb"]
  show ?thesis by (rule reports_same) (auto simp: st' e insert_batch_fields)
next
  case False
  then have "st' = st" using assms(2) by (auto simp: PushSubmission_def Let_def split: if_split_asm sum.splits prod.splits)
  then show ?thesis by (simp add: reports_same)
qed



end
