(* ===== verification/Confined.thy ===== *)
theory Confined
  imports Effects Prepared
begin

text \<open>
  The file operations the handlers of a submission record, run on a tree of files: as long as no symbolic
  link lies where they write, they change nothing outside the run directory of the submission, and at its end
  its sources; in particular nothing of another submission.
\<close>

section \<open>Regions\<close>

text \<open>
  Outside a region nothing changes, modes included, except that directories on the way to it may appear. Links
  are absent also from what mounts hide.
\<close>

definition spares :: "(path \<Rightarrow> bool) \<Rightarrow> Disk \<Rightarrow> Disk \<Rightarrow> bool" where
  "spares W d d' \<longleftrightarrow>
     (\<forall>r. \<not> W r \<longrightarrow> inode_at d' r = inode_at d r \<or>
        inode_at d r = None \<and> (\<exists>m. inode_at d' r = Some (Folder m)) \<and> (\<exists>p. W p \<and> below p r))"

definition no_link :: "inode option \<Rightarrow> bool" where
  "no_link x \<longleftrightarrow> (\<forall>t. x \<noteq> Some (SymLink t))"

definition link_free :: "(path \<Rightarrow> bool) \<Rightarrow> Disk \<Rightarrow> bool" where
  "link_free W d \<longleftrightarrow>
     (\<forall>r. W r \<longrightarrow> no_link (inode_at d r) \<and> (\<forall>(p, old, dev) \<in> set (mounts d). no_link (old r)))"

definition confined :: "(path \<Rightarrow> bool) \<Rightarrow> Disk \<Rightarrow> Disk \<Rightarrow> bool" where
  "confined W d d' \<longleftrightarrow> (link_free W d \<longrightarrow> link_free W d' \<and> spares W d d')"

lemma no_link_simps [simp]: "no_link None" "no_link (Some (RegFile s m))" "no_link (Some (Folder m))"
  by (simp_all add: no_link_def)

lemma no_link_mode [simp]: "no_link (Some (with_mode m x)) = no_link (Some x)"
  by (cases x) (simp_all add: with_mode_def no_link_def)

lemma link_freeD: "link_free W d \<Longrightarrow> W r \<Longrightarrow> no_link (inode_at d r)"
  by (simp add: link_free_def)

lemma confined_refl [simp, intro]: "confined W d d"
  by (simp add: confined_def spares_def)

lemma confined_trans: "confined W a b \<Longrightarrow> confined W b c \<Longrightarrow> confined W a c"
  unfolding confined_def spares_def by (metis option.distinct(1))

lemma confined_at:
  assumes "mounts d' = mounts d" "\<And>r. W r \<Longrightarrow> link_free W d \<Longrightarrow> no_link (inode_at d' r)" "\<And>r. \<not> W r \<Longrightarrow> inode_at d' r = inode_at d r"
  shows "confined W d d'"
  using assms by (simp add: confined_def link_free_def spares_def)

lemma resolve_free: "link_free W d \<Longrightarrow> W p \<Longrightarrow> resolve d p = Some p"
  by (rule resolve_here) (auto simp: part_at_def part_of_def dest!: link_freeD simp: no_link_def split: option.splits inode.splits)

locale region =
  fixes W :: "path \<Rightarrow> bool"
  assumes closed: "W p \<Longrightarrow> below r p \<Longrightarrow> W r"
begin

lemma confined_put: "W p \<Longrightarrow> no_link (Some x) \<Longrightarrow> confined W d (put p x d)"
  by (rule confined_at) (auto simp: put_def dest: link_freeD)

lemma confined_free: "(link_free W d \<Longrightarrow> confined W d d') \<Longrightarrow> confined W d d'"
  by (auto simp: confined_def)

lemma confined_folder:
  "inode_at d p = None \<Longrightarrow> W q \<Longrightarrow> p = q \<or> below q p \<Longrightarrow> confined W d (put p (Folder m) d)"
  by (auto simp: confined_def link_free_def spares_def put_def)

lemma confined_perms:
  assumes "W p"
  shows "confined W d (snd (set_perms p perms d))"
proof (rule confined_free)
  assume f: "link_free W d"
  note r = resolve_free [OF f assms] and n = link_freeD [OF f assms]
  show "confined W d (snd (set_perms p perms d))"
    using r n confined_put [OF assms] by (auto simp: set_perms_def fs_permissions_call_def split: option.splits)
qed

lemma confined_folders:
  "make_folders ps d = Inr d' \<Longrightarrow> W q \<Longrightarrow> \<forall>p \<in> set ps. p = q \<or> below q p \<Longrightarrow> confined W d d'"
proof (induction ps arbitrary: d)
  case (Cons p ps)
  show ?case
  proof (cases "is_folder d p")
    case True
    then show ?thesis using Cons by simp
  next
    case False
    then have "inode_at d p = None" "make_folders ps (put p (Folder 493) d) = Inr d'"
      using Cons.prems(1) by (auto split: if_split_asm)
    then show ?thesis using confined_trans [OF confined_folder Cons.IH] Cons.prems(2,3) by auto
  qed
qed simp

lemma ancestor_below: "p \<in> set (ancestors q) \<Longrightarrow> p = q \<or> below q p"
proof -
  assume "p \<in> set (ancestors q)"
  then consider "p = q" | "prefix p q" "take 1 (drop (length p) q) = ''/''" by (auto simp: ancestors_def)
  then show "p = q \<or> below q p"
  proof cases
    case 2
    then obtain z where "q = p @ z" "take 1 z = ''/''" by (auto simp: prefix_def)
    then show ?thesis by (cases z) (auto simp: below_def)
  qed simp
qed

lemma confined_create:
  assumes "W p"
  shows "confined W d (snd (CreateDirs p perms d))"
proof (cases "make_folders (ancestors p) d")
  case (Inr e)
  have "confined W d e" using confined_folders [OF Inr assms] ancestor_below by blast
  then show ?thesis using confined_trans [OF _ confined_perms [OF assms]] Inr
    by (simp add: CreateDirs_def fs_create_directories_call_def)
qed (simp add: CreateDirs_def fs_create_directories_call_def)

lemma confined_copy_call:
  assumes "fs_copy_call p q d = Inr e" "W q"
  shows "confined W d e"
proof (rule confined_free)
  assume f: "link_free W d"
  obtain s m where "e = put q (RegFile s m) d"
    using assms(1) resolve_free [OF f assms(2)]
    by (auto simp: fs_copy_call_def split: option.splits inode.splits if_split_asm)
  then show "confined W d e" using confined_put [OF assms(2)] by simp
qed

lemma confined_copy: "W q \<Longrightarrow> confined W d (snd (Copy p q perms d))"
  using confined_trans [OF confined_copy_call confined_perms] by (auto simp: Copy_def split: sum.splits)

lemma confined_erase: "W p \<Longrightarrow> confined W d (erase p d)"
  by (rule confined_at) (auto simp: erase_def dest: link_freeD)

lemma confined_relocate:
  assumes "W p" "W q"
  shows "confined W d (relocate p q d)"
proof (rule confined_at)
  fix r
  assume f: "link_free W d" "W r"
  have "W (p @ drop (length q) r)" if "below r q"
    using that by (intro closed [OF assms(1)]) (auto simp: below_def prefix_def)
  then show "no_link (inode_at (relocate p q d) r)" using f assms by (auto simp: relocate_def dest: link_freeD)
next
  fix r
  assume "\<not> W r"
  then show "inode_at (relocate p q d) r = inode_at d r"
    using assms closed by (auto simp: relocate_def)
qed (simp add: relocate_def)

lemma confined_move:
  assumes "W p" "W q"
  shows "confined W d (snd (Move p q perms d))"
proof (cases "fs_rename_call p q d")
  case (Inr e)
  then have "e = d \<or> e = relocate p q d" by (auto simp: fs_rename_call_def split: option.splits if_split_asm)
  then have "confined W d e" using confined_relocate [OF assms] by auto
  then show ?thesis using Inr confined_trans [OF _ confined_perms [OF assms(2)]] by (simp add: Move_def)
next
  case (Inl x)
  show ?thesis
  proof (cases "x = EXDEV \<and> (\<exists>e. fs_copy_call p q d = Inr e)")
    case True
    then obtain e where e: "fs_copy_call p q d = Inr e" "x = EXDEV" by blast
    have "confined W d (case fs_remove_call p e of Inl _ \<Rightarrow> e | Inr d \<Rightarrow> d)"
      using confined_copy_call [OF e(1) assms(2)] confined_trans [OF _ confined_erase [OF assms(1)]]
      by (auto simp: fs_remove_call_def)
    then show ?thesis using Inl e confined_trans [OF _ confined_perms [OF assms(2)]] by (simp add: Move_def)
  next
    case False
    then show ?thesis using Inl by (auto simp: Move_def split: sum.splits)
  qed
qed

lemma confined_remove: "W p \<Longrightarrow> confined W d (snd (RemoveAll p d))"
  by (rule confined_at) (auto simp: RemoveAll_def fs_remove_all_call_def dest: link_freeD closed)

lemma confined_mount: "W p \<Longrightarrow> confined W d (snd (MountTmpfs p d))"
  using closed by (auto simp: MountTmpfs_def confined_def link_free_def spares_def)

lemma confined_umount:
  assumes "W p"
  shows "confined W d (snd (Umount p d))"
proof (cases "find (\<lambda>m. fst m = p) (mounts d)")
  case (Some m)
  obtain q old dev where m: "m = (q, old, dev)" by (cases m)
  have "(q, old, dev) \<in> set (mounts d)" using Some unfolding m find_Some_iff by auto
  then have "link_free W d \<Longrightarrow> W r \<Longrightarrow> no_link (old r)" for r by (fastforce simp: link_free_def)
  then show ?thesis
    using Some m assms closed by (auto simp: Umount_def confined_def link_free_def spares_def)
qed (simp add: Umount_def)

lemma confined_write:
  assumes "W p"
  shows "confined W d (snd (write_call p s d))"
proof (rule confined_free)
  assume f: "link_free W d"
  show "confined W d (snd (write_call p s d))"
    using resolve_free [OF f assms] confined_put [OF assms]
    by (auto simp: write_call_def split: option.splits inode.splits)
qed

lemma confined_op: "\<forall>p \<in> set (op_writes x). W p \<Longrightarrow> confined W d (snd (run_op dump x d))"
  by (cases x) (simp_all add: confined_create confined_copy confined_move confined_remove confined_mount
    confined_umount confined_write confined_perms)

lemma confined_ops:
  "\<forall>x \<in> set xs. \<forall>p \<in> set (op_writes x). W p \<Longrightarrow> confined W d (snd (run_ops dump xs d))"
proof (induction xs arbitrary: d)
  case (Cons x xs)
  have "snd (run_ops dump (x # xs) d) = snd (run_ops dump xs (snd (run_op dump x d)))"
    by (simp add: Let_def split: prod.splits)
  moreover have "confined W d (snd (run_op dump x d))" "confined W e (snd (run_ops dump xs e))" for e
    using confined_op Cons by simp_all
  ultimately show ?case using confined_trans by metis
qed simp

end

section \<open>The region of a submission\<close>

definition own_path :: "Config \<Rightarrow> Submission \<Rightarrow> path \<Rightarrow> bool" where
  "own_path cfg sb r \<longleftrightarrow> inside r (SubmissionRunPath cfg (submission_internal_id sb)) \<or>
     remove_submission sb \<and> inside r (SubmissionCodePath cfg (submission_internal_id sb))"

lemma inside_below: "inside p q \<Longrightarrow> below r p \<Longrightarrow> inside r q"
  by (auto simp: inside_def below_def prefix_def)

interpretation own_region: region "own_path cfg sb" for cfg sb
  by unfold_locales (auto simp: own_path_def dest: inside_below)

fun file_ops :: "event list \<Rightarrow> fs_op list" where
  "file_ops [] = []"
| "file_ops (Fs x # es) = x # file_ops es"
| "file_ops (Rep r # es) = file_ops es"

lemma set_file_ops: "x \<in> set (file_ops es) \<longleftrightarrow> Fs x \<in> set es"
  by (induction es rule: file_ops.induct) auto

lemma own_file_ops:
  assumes "emits (own cfg sr) st st'" "events st' = events st @ es" "x \<in> set (file_ops es)" "p \<in> set (op_writes x)"
  shows "own_path cfg (sub sr) p"
proof -
  have "list_all (own cfg sr) es" using assms(1,2) by (auto simp: emits_def)
  then have "own_op (SubmissionRunPath cfg (submission_internal_id (sub sr))) x"
    using assms(3) by (auto simp: set_file_ops list_all_iff)
  then show ?thesis using assms(4) by (simp add: own_op_def own_path_def)
qed

lemma summary_file_ops:
  assumes "FinalizeSummary cfg fs sr task cres skipped st = Inr st'" "events st' = events st @ es"
    and "x \<in> set (file_ops es)" "p \<in> set (op_writes x)"
  shows "own_path cfg (sub sr) p"
proof -
  from FinalizeSummary_events [OF assms(1)] assms(2) obtain rs where
    "es = map Fs (summary_end_ops cfg (sub sr)) @ map Rep rs" by (metis same_append_eq)
  then have "x \<in> set (summary_end_ops cfg (sub sr))" using assms(3) by (auto simp: set_file_ops)
  then show ?thesis using assms(4) by (auto simp: summary_end_ops_def own_path_def inside_def split: if_split_asm)
qed

definition handler_step :: "Config \<Rightarrow> FsView \<Rightarrow> SubmissionAndResult \<Rightarrow> JState \<Rightarrow> JState \<Rightarrow> bool" where
  "handler_step cfg fs sr st st' \<longleftrightarrow>
     headers_ok fs \<and> (\<exists>t b sr'. run_setup cfg fs sr t st = Inr (b, sr', st')) \<or>
     (\<exists>t cres skipped. run_finalize cfg fs sr t cres skipped st = Inr st')"

lemma run_file_ops:
  assumes "handler_step cfg fs sr st st'" "events st' = events st @ es" "x \<in> set (file_ops es)" "p \<in> set (op_writes x)"
  shows "own_path cfg (sub sr) p"
  using assms(1) unfolding handler_step_def
proof (elim disjE exE conjE)
  fix t b sr'
  assume "headers_ok fs" "run_setup cfg fs sr t st = Inr (b, sr', st')"
  from own_file_ops [OF run_setup_own [OF this] assms(2-4)] show ?thesis .
next
  fix t cres skipped
  assume f: "run_finalize cfg fs sr t cres skipped st = Inr st'"
  show ?thesis
  proof (cases "task_type (te_task t) = SUMMARY")
    case True
    then show ?thesis using f summary_file_ops [OF _ assms(2-4)] by (auto simp: run_finalize_def)
  next
    case False
    from own_file_ops [OF run_finalize_own [OF False f] assms(2-4)] show ?thesis .
  qed
qed

lemma slash_split:
  assumes "a @ x = b @ y" "CHR ''/'' \<notin> set a" "CHR ''/'' \<notin> set b" "x = [] \<or> hd x = CHR ''/''" "y = [] \<or> hd y = CHR ''/''"
  shows "a = b"
proof -
  have t: "takeWhile (\<lambda>c. c \<noteq> CHR ''/'') (u @ v) = u" if "CHR ''/'' \<notin> set u" "v = [] \<or> hd v = CHR ''/''" for u v :: string
    using that by (cases v) (auto simp: takeWhile_append takeWhile_eq_all_conv)
  show ?thesis using t [OF assms(2,4)] t [OF assms(3,5)] assms(1) by simp
qed

text \<open>The directories of a submission, and when those of two never meet: neither root lies in the other.\<close>

definition submission_path :: "Config \<Rightarrow> int \<Rightarrow> path \<Rightarrow> bool" where
  "submission_path cfg k r \<longleftrightarrow> inside r (SubmissionRunPath cfg k) \<or> inside r (SubmissionCodePath cfg k)"

definition roots_apart :: "Config \<Rightarrow> bool" where
  "roots_apart cfg \<longleftrightarrow> \<not> prefix (root_sep (kBoxRoot cfg)) (root_sep (kSubmissionRoot cfg)) \<and>
     \<not> prefix (root_sep (kSubmissionRoot cfg)) (root_sep (kBoxRoot cfg))"

definition id_ok :: "int \<Rightarrow> bool" where
  "id_ok k \<longleftrightarrow> 0 \<le> k \<and> narrow_int k = k"

lemma submission_path_cases:
  assumes "submission_path cfg k r" "id_ok k"
  obtains R x where "R \<in> {root_sep (kBoxRoot cfg), root_sep (kSubmissionRoot cfg)}" "r = R @ PadInt k 6 @ x"
    "x = [] \<or> hd x = CHR ''/''"
proof -
  have "SubmissionCodePath cfg k = root_sep (kSubmissionRoot cfg) @ PadInt k 6"
    unfolding SubmissionCodePath_def using assms(2)
    by (simp add: id_ok_def path_div_relative [OF no_slash_head [OF PadInt_sign_no_slash]])
  then obtain R where R: "R \<in> {root_sep (kBoxRoot cfg), root_sep (kSubmissionRoot cfg)}" "inside r (R @ PadInt k 6)"
    using assms by (auto simp: submission_path_def id_ok_def SubmissionRunPath_eq)
  from R(2) have "\<exists>x. r = R @ PadInt k 6 @ x \<and> (x = [] \<or> hd x = CHR ''/'')" by (auto simp: inside_def prefix_def)
  with that [OF R(1)] show thesis by blast
qed

lemma submission_paths_apart:
  assumes "submission_path cfg i r" "submission_path cfg j r" "id_ok i" "id_ok j" "roots_apart cfg"
  shows "i = j"
proof -
  from submission_path_cases [OF assms(1,3)] obtain R x where
    x: "R \<in> {root_sep (kBoxRoot cfg), root_sep (kSubmissionRoot cfg)}" "r = R @ PadInt i 6 @ x" "x = [] \<or> hd x = CHR ''/''" .
  from submission_path_cases [OF assms(2,4)] obtain S y where
    y: "S \<in> {root_sep (kBoxRoot cfg), root_sep (kSubmissionRoot cfg)}" "r = S @ PadInt j 6 @ y" "y = [] \<or> hd y = CHR ''/''" .
  have "prefix R r" using x(2) by (rule prefixI)
  moreover have "prefix S r" using y(2) by (rule prefixI)
  ultimately have "prefix R S \<or> prefix S R" using prefix_same_cases by blast
  then have "R = S" using x(1) y(1) assms(5) by (auto simp: roots_apart_def)
  then have "PadInt i 6 @ x = PadInt j 6 @ y" using x(2) y(2) by simp
  from slash_split [OF this PadInt_sign_no_slash PadInt_sign_no_slash x(3) y(3)] show ?thesis
    using PadInt_inj assms(3,4) unfolding id_ok_def by blast
qed

lemma spares_other:
  assumes "spares (own_path cfg sb) d d'" "submission_path cfg k r" "k \<noteq> submission_internal_id sb"
    and "id_ok k" "id_ok (submission_internal_id sb)" "roots_apart cfg"
  shows "inode_at d' r = inode_at d r"
proof -
  have n: "\<not> own_path cfg sb p" if "submission_path cfg k p" for p
    using submission_paths_apart [OF that] assms(3-6) by (auto simp: own_path_def submission_path_def)
  have "\<not> own_path cfg sb p" if "below p r" for p
    using n assms(2) inside_below that unfolding submission_path_def by blast
  then show ?thesis using assms(1) n [OF assms(2)] unfolding spares_def by blast
qed

text \<open>
  C26: The handlers of a submission keep to themselves: run on a tree without symbolic links where the submission may
  write, the file operations of any set-up or end of a task leave everything outside the run directory of the
  submission as it was, up to directories that are made on the way to it and up to the sources of a submission that
  is to be removed, and no link appears where it may write; so if neither of the two roots lies in the other,
  nothing in the directories of another submission changes.
\<close>

theorem handlers_confined:
  assumes "handler_step cfg fs sr st st'" "events st' = events st @ es" "link_free (own_path cfg (sub sr)) d"
    and "d' = snd (run_ops dump (file_ops es) d)"
    and "roots_apart cfg" "id_ok (submission_internal_id (sub sr))" "id_ok k" "k \<noteq> submission_internal_id (sub sr)"
  shows "spares (own_path cfg (sub sr)) d d' \<and> link_free (own_path cfg (sub sr)) d' \<and>
    (\<forall>r. submission_path cfg k r \<longrightarrow> inode_at d' r = inode_at d r)"
proof -
  have "confined (own_path cfg (sub sr)) d d'"
    unfolding assms(4) by (rule own_region.confined_ops) (use run_file_ops [OF assms(1,2)] in blast)
  then have c: "link_free (own_path cfg (sub sr)) d'" "spares (own_path cfg (sub sr)) d d'"
    using assms(3) by (simp_all add: confined_def)
  then show ?thesis using spares_other [OF c(2) _ assms(8,7,6,5)] by blast
qed

lemma sample_link_free: "link_free (own_path sample_config sample_submission) sample_disk"
proof -
  have "own_path sample_config sample_submission r \<Longrightarrow> take 5 r = ''/tmp/''" for r
  proof -
    have p: "SubmissionRunPath sample_config 7 = ''/tmp/box/000007''" "SubmissionCodePath sample_config 7 = ''/tmp/sub/000007''"
      by code_simp+
    show "own_path sample_config sample_submission r \<Longrightarrow> take 5 r = ''/tmp/''"
      using p by (auto simp: own_path_def sample_submission_def Submission_init_def inside_def prefix_def)
  qed
  moreover have "no_link (inode_at sample_disk r)" if "take 5 r = ''/tmp/''" for r
    using that by (auto simp: sample_disk_def)
  ultimately show ?thesis by (simp add: link_free_def sample_disk_def)
qed

theorem handlers_confined_witness:
  "\<exists>d'. run_ops (\<lambda>_. []) (execute_ops sample_config sample_submission sample_item 0 0 131080) sample_disk = (True, d') \<and>
     spares (own_path sample_config sample_submission) sample_disk d' \<and> inode_at d' ''/tmp/box/000008/x'' = None"
proof -
  obtain d' where d': "run_ops (\<lambda>_. []) (execute_ops sample_config sample_submission sample_item 0 0 131080) sample_disk = (True, d')"
    using sample_run by (cases "run_ops (\<lambda>_. []) (execute_ops sample_config sample_submission sample_item 0 0 131080) sample_disk") simp
  obtain st' where st': "SetupExecute sample_config (env_fs (sample_env World_init)) sample_sr sample_task JState_init = Inr (True, st')"
    "events st' = map Fs (execute_ops sample_config sample_submission sample_item 0 0 131080)"
    using sample_setup by blast
  have h: "handler_step sample_config (env_fs (sample_env World_init)) sample_sr JState_init st'"
  proof -
    have "headers_ok (env_fs (sample_env World_init))" by (simp add: headers_ok_def sample_env_def)
    moreover have "run_setup sample_config (env_fs (sample_env World_init)) sample_sr sample_task JState_init = Inr (True, sample_sr, st')"
      using st'(1) by (simp add: run_setup_def sample_task_def TaskEntry_new_def)
    ultimately show ?thesis unfolding handler_step_def by blast
  qed
  have f: "file_ops (map Fs xs) = xs" for xs by (induction xs) simp_all
  have s: "sub sample_sr = sample_submission" "submission_internal_id sample_submission = 7" "events JState_init = []"
    by (simp_all add: sample_sr_def sample_submission_def Submission_init_def JState_init_def)
  have i: "inside ''/tmp/box/000008/x'' (SubmissionRunPath sample_config 8)" "roots_apart sample_config" "id_ok 7" "id_ok 8"
    by code_simp+
  have "d' = snd (run_ops (\<lambda>_. []) (file_ops (map Fs (execute_ops sample_config sample_submission sample_item 0 0 131080))) sample_disk)"
    using d' by (simp add: f)
  from handlers_confined [OF h _ _ this i(2), of 8] st'(2) s sample_link_free i
  have "spares (own_path sample_config sample_submission) sample_disk d'"
    "inode_at d' ''/tmp/box/000008/x'' = inode_at sample_disk ''/tmp/box/000008/x''" by (auto simp: submission_path_def)
  then show ?thesis using d' by (simp add: sample_disk_def)
qed

end
