(* ===== verification/Collected.thy ===== *)
theory Collected
  imports Prepared
begin

text \<open>
  More of what the recorded file operations do on a tree of files: what \<open>FinalizeExecute\<close> keeps of an
  execution, whatever the program has left in its box, and what \<open>SetupScoring\<close> puts before the judge.
\<close>

section \<open>The effect of single operations\<close>

lemma write_call_part:
  assumes "write_call p s d = (True, d')" "\<forall>t. part_at d p \<noteq> Some (Inr t)"
  shows "part_at d' = (part_at d)(p := Some (Inl s))"
proof -
  obtain m where "d' = put p (RegFile s m) d"
    using assms(1) resolve_here [OF assms(2)] by (auto simp: write_call_def split: option.splits inode.splits if_split_asm)
  then show ?thesis by (auto simp: part_put fun_eq_iff)
qed

lemma RemoveAll_part:
  assumes "RemoveAll p d = (True, d')"
  shows "part_at d' = (\<lambda>r. if inside r p then None else part_at d r)"
proof -
  have "d' = d\<lparr>inode_at := (\<lambda>r. if r = p \<or> below r p then None else inode_at d r)\<rparr>"
    using assms by (auto simp: RemoveAll_def fs_remove_all_call_def split: if_split_asm)
  then show ?thesis by (simp add: part_at_def inside_def below_def fun_eq_iff)
qed

lemma Umount_part: "Umount p d = (ok, d') \<Longrightarrow> \<not> inside r p \<Longrightarrow> part_at d' r = part_at d r"
  by (auto simp: Umount_def part_at_def inside_def below_def split: option.splits if_split_asm)

section \<open>Paths in boxes\<close>

lemma inside_common: "inside r p \<Longrightarrow> inside r q \<Longrightarrow> inside p q \<or> inside q p"
proof -
  assume a: "inside r p" "inside r q"
  consider "r = p" | "r = q" | "prefix (p @ ''/'') r" "prefix (q @ ''/'') r" using a by (auto simp: inside_def)
  then show "inside p q \<or> inside q p"
  proof cases
    case 3
    then have "prefix (p @ ''/'') (q @ ''/'') \<or> prefix (q @ ''/'') (p @ ''/'')" by (rule prefix_same_cases)
    then show ?thesis by (auto simp: inside_def)
  qed (use a in auto)
qed

lemma in_one_box:
  assumes "inside r (box_path cfg i b)" "inside r (box_path cfg j c)" "0 \<le> i" "0 \<le> j" "box_ok b" "box_ok c"
  shows "i = j \<and> b = c"
  using inside_common [OF assms(1,2)] box_path_inside assms(3-6) by blast

lemma box_sep:
  assumes "0 \<le> iid" "box_ok b"
  shows "root_sep (box_path cfg iid b) = box_path cfg iid b @ ''/''"
proof -
  have "box_name b \<noteq> []" by (cases b) simp_all
  from root_sep_nonslash [OF this box_name_no_slash [OF assms(2)],
      of "root_sep (kBoxRoot cfg) @ PadInt iid 6 @ ''/''"]
  show ?thesis by (simp add: box_path_eq [OF assms])
qed

lemma box_file:
  "0 \<le> iid \<Longrightarrow> box_ok b \<Longrightarrow> take 1 q \<noteq> ''/'' \<Longrightarrow> path_div (box_path cfg iid b) q = box_path cfg iid b @ CHR ''/'' # q"
  by (simp add: path_div_relative box_sep)

lemma box_dir_file:
  "take 1 q \<noteq> ''/'' \<Longrightarrow> w \<noteq> [] \<Longrightarrow> last w \<noteq> CHR ''/'' \<Longrightarrow> path_div (p @ w) q = p @ w @ CHR ''/'' # q"
  by (simp add: path_div_relative root_sep_def)

section \<open>The output of an execution\<close>

lemma execute_output_path:
  assumes "0 \<le> iid" "0 \<le> i" "0 \<le> stg"
  shows "ExecuteBoxOutput cfg iid i stg strict False =
      ExecuteBoxPath cfg iid i stg @ (if strict then ''/td/output'' else ''/workdir/output'')"
  using box_file [of iid "ExecuteBox i stg" "''td''" cfg] assms execute_paths(1) [OF assms, of cfg]
  by (simp add: ExecuteBoxOutput_def ExecuteBoxTdStrictPath_def BoxRoot_def box_dir_file)

text \<open>What was written counts only if it is a regular file; anything else, a link included, is an empty output.\<close>

definition collected_output :: "Disk \<Rightarrow> path \<Rightarrow> string" where
  "collected_output d p = (case part_at d p of Some (Inl s) \<Rightarrow> s | _ \<Rightarrow> [])"

lemma run_output_ops:
  assumes "run_ops dump (execute_output_ops cfg fs sb i stg) d = (True, d')"
    and ids: "0 \<le> submission_internal_id sb" "0 \<le> i" "0 \<le> stg"
    and reg: "is_regular fs out \<longleftrightarrow> (\<exists>s. part_at d out = Some (Inl s))"
      "out = ExecuteBoxOutput cfg (submission_internal_id sb) i stg (sandbox_strict sb) False"
    and fin: "fin = ExecuteBoxFinalOutput cfg (submission_internal_id sb) i stg" "\<forall>t. part_at d fin \<noteq> Some (Inr t)"
  shows "part_at d' fin = Some (Inl (collected_output d out)) \<and>
    (\<forall>r. inside r (Workdir (ExecuteBoxPath cfg (submission_internal_id sb) i stg)) \<longrightarrow> part_at d' r = None) \<and>
    (0 < stg \<longrightarrow> (\<forall>r. inside r (ExecuteBoxPath cfg (submission_internal_id sb) i (stg - 1)) \<longrightarrow> part_at d' r = None))"
proof -
  let ?iid = "submission_internal_id sb" and ?c = "collected_output d out"
  let ?E = "ExecuteBoxPath cfg ?iid i stg" and ?P = "ExecuteBoxPath cfg ?iid i (stg - 1)"
  let ?first = "if is_regular fs out then [FsMove out fin (Some kPerm666)] else [FsTouch fin, FsPermissions fin kPerm666]"
  let ?um = "if sandbox_strict sb then [] else [FsUmount (Workdir ?E)]"
  let ?rm = "if 0 < stg then [FsRemoveAll ?P] else []"
  have o: "execute_output_ops cfg fs sb i stg =
      ?first @ FsChownRoot fin # ?um @ FsRemoveAll (Workdir ?E) # ?rm"
    by (simp add: execute_output_ops_def Let_def reg(2) fin(1))
  note P = execute_paths(1,4) [OF ids, of cfg] execute_output_path [OF ids, of cfg]
  have fw: "\<not> inside fin (Workdir ?E)" "fin \<noteq> out"
    by (auto simp: fin(1) reg(2) P inside_def)
  have fp: "\<not> inside fin ?P" if "0 < stg"
    using in_one_box [of fin cfg ?iid "ExecuteBox i stg" ?iid "ExecuteBox i (stg - 1)"] ids that
    by (auto simp: fin(1) P inside_def)
  from run_ops_append [OF assms(1) [unfolded o]] obtain d1 where
    1: "run_ops dump ?first d = (True, d1)"
    and r1: "run_ops dump (FsChownRoot fin # ?um @ FsRemoveAll (Workdir ?E) # ?rm) d1 = (True, d')" by blast
  have d1: "part_at d1 fin = Some (Inl ?c)"
  proof (cases "is_regular fs out")
    case True
    then obtain s where s: "part_at d out = Some (Inl s)" using reg(1) by blast
    have "Move out fin (Some kPerm666) d = (True, d1)" using 1 True by (auto simp: Let_def split: prod.splits)
    from moving.arrives [OF this s fw(2) [symmetric] fin(2)] show ?thesis by (simp add: collected_output_def s)
  next
    case False
    then have c: "?c = []" using reg(1) by (auto simp: collected_output_def split: option.splits sum.splits)
    from 1 False obtain e where e: "write_call fin [] d = (True, e)" "set_perms fin (Some kPerm666) e = (True, d1)"
      by (auto simp: Let_def split: prod.splits)
    from write_call_part [OF e(1) fin(2)] set_perms_part [of fin "Some kPerm666" e] e(2) show ?thesis by (simp add: c)
  qed
  from r1 have "run_ops dump (?um @ FsRemoveAll (Workdir ?E) # ?rm) d1 = (True, d')"
    by (auto simp: Let_def split: prod.splits)
  from run_ops_append [OF this] obtain d2 where
    2: "run_ops dump ?um d1 = (True, d2)" and r2: "run_ops dump (FsRemoveAll (Workdir ?E) # ?rm) d2 = (True, d')" by blast
  have d2: "part_at d2 fin = Some (Inl ?c)"
    using 2 d1 Umount_part [OF _ fw(1), of d1 True d2] by (auto simp: Let_def split: if_split_asm prod.splits)
  from r2 obtain d3 where 3: "run_op dump (FsRemoveAll (Workdir ?E)) d2 = (True, d3)"
    and r3: "run_ops dump ?rm d3 = (True, d')" by (rule run_ops_ConsE)
  from 3 have "RemoveAll (Workdir ?E) d2 = (True, d3)" by simp
  note d3 = RemoveAll_part [OF this]
  have d': "part_at d' = (if 0 < stg then (\<lambda>r. if inside r ?P then None else part_at d3 r) else part_at d3)"
    using r3 RemoveAll_part [of ?P d3 d'] by (auto simp: Let_def split: if_split_asm prod.splits)
  have "part_at d' fin = Some (Inl ?c)" using d' d3 d2 fw(1) fp by simp
  then show ?thesis using d' d3 by auto
qed

lemma FinalizeExecute_ops:
  assumes "FinalizeExecute cfg fs sr task cres st = Inr (sr', st')" "events st' = events st @ map Fs ops"
  shows "ops = execute_output_ops cfg fs (sub sr) (subtask (te_task task)) (stage (te_task task))"
proof -
  have "map Fs ops = map Fs (execute_output_ops cfg fs (sub sr) (subtask (te_task task)) (stage (te_task task)))"
    using assms by (auto simp: FinalizeExecute_def emit_def Let_def split: option.splits)
  moreover have "inj Fs" by (simp add: inj_def)
  ultimately show ?thesis using inj_map_eq_map by blast
qed

text \<open>
  C28: When an execution has ended and the calls of \<open>FinalizeExecute\<close> succeed, the output of the stage is what the
  program wrote if that is a regular file and empty otherwise, so that a link the program has put in its place is not
  followed; the working directory and the box of the stage before are gone. Nothing is assumed of what else the
  program has left in its box.
\<close>

theorem execution_collected:
  assumes "FinalizeExecute cfg fs sr task cres st = Inr (sr', st')" "events st' = events st @ map Fs ops"
    and "run_ops dump ops d = (True, d')" "i = subtask (te_task task)" "stg = stage (te_task task)"
    and "iid = submission_internal_id (sub sr)" "0 \<le> iid" "0 \<le> i" "0 \<le> stg"
    and "out = ExecuteBoxOutput cfg iid i stg (sandbox_strict (sub sr)) False"
    and "is_regular fs out \<longleftrightarrow> (\<exists>s. part_at d out = Some (Inl s))"
    and "\<forall>t. part_at d (ExecuteBoxFinalOutput cfg iid i stg) \<noteq> Some (Inr t)"
  shows "read_path d' (ExecuteBoxFinalOutput cfg iid i stg) = Some (collected_output d out) \<and>
    (\<forall>r. inside r (Workdir (ExecuteBoxPath cfg iid i stg)) \<longrightarrow> part_at d' r = None) \<and>
    (0 < stg \<longrightarrow> (\<forall>r. inside r (ExecuteBoxPath cfg iid i (stg - 1)) \<longrightarrow> part_at d' r = None))"
proof -
  have "ops = execute_output_ops cfg fs (sub sr) i stg" using FinalizeExecute_ops [OF assms(1,2)] assms(4,5) by simp
  from run_output_ops [OF assms(3) [unfolded this], of "out" "ExecuteBoxFinalOutput cfg iid i stg"] assms(6-12)
  show ?thesis using read_here by blast
qed

text \<open>A program that has put a link in the place of its output.\<close>

definition hostile_disk :: Disk where
  "hostile_disk =
     \<lparr>inode_at = map_of [(''/tmp/box/000007/execute000_00'', Folder 493),
        (''/tmp/box/000007/execute000_00/workdir'', Folder 1023),
        (''/tmp/box/000007/execute000_00/workdir/output'', SymLink ''/etc/shadow''), (''/etc/shadow'', RegFile ''key'' 384)],
      device = (\<lambda>_. 1), locked = (\<lambda>_. False),
      mounts = [(''/tmp/box/000007/execute000_00/workdir'', \<lambda>_. None, \<lambda>_. 1)], next_device = 2, names = []\<rparr>"

definition hostile_fs :: FsView where
  "hostile_fs = (env_fs (sample_env World_init))\<lparr>is_regular := \<lambda>_. False\<rparr>"

lemma hostile_run:
  "fst (run_ops (\<lambda>_. []) (execute_output_ops sample_config hostile_fs sample_submission 0 0) hostile_disk)"
proof -
  have r: "is_regular hostile_fs p = False" for p by (simp add: hostile_fs_def)
  show ?thesis unfolding execute_output_ops_def Let_def r if_False by code_simp
qed

theorem execution_collected_witness:
  "\<exists>d'. run_ops (\<lambda>_. []) (execute_output_ops sample_config hostile_fs sample_submission 0 0) hostile_disk = (True, d') \<and>
     read_path d' ''/tmp/box/000007/execute000_00/output'' = Some []"
proof -
  let ?ops = "execute_output_ops sample_config hostile_fs sample_submission 0 0"
  obtain d' where d': "run_ops (\<lambda>_. []) ?ops hostile_disk = (True, d')"
    using hostile_run by (cases "run_ops (\<lambda>_. []) ?ops hostile_disk") simp
  have s: "sub sample_sr = sample_submission" "te_task sample_task = \<lparr>task_type = EXECUTE, subtask = 0, stage = 0\<rparr>"
    "submission_internal_id sample_submission = 7" "nth_opt (testdata sample_submission) 0 = Some sample_item"
    by (simp_all add: sample_sr_def sample_task_def TaskEntry_new_def sample_submission_def Submission_init_def nth_opt_def)
  obtain sr' st' where f: "FinalizeExecute sample_config hostile_fs sample_sr sample_task cjail_zero JState_init = Inr (sr', st')"
    "events st' = events JState_init @ map Fs ?ops"
    by (auto simp: FinalizeExecute_def Let_def s emit_def)
  have p: "ExecuteBoxFinalOutput sample_config 7 0 0 = ''/tmp/box/000007/execute000_00/output''"
    "ExecuteBoxOutput sample_config 7 0 0 (sandbox_strict sample_submission) False = ''/tmp/box/000007/execute000_00/workdir/output''"
    by code_simp+
  have d: "part_at hostile_disk ''/tmp/box/000007/execute000_00/output'' = None"
    "part_at hostile_disk ''/tmp/box/000007/execute000_00/workdir/output'' = Some (Inr ''/etc/shadow'')"
    by (simp_all add: part_at_def hostile_disk_def)
  have "read_path d' (ExecuteBoxFinalOutput sample_config 7 0 0) = Some (collected_output hostile_disk
      (ExecuteBoxOutput sample_config 7 0 0 (sandbox_strict sample_submission) False))"
    using execution_collected [OF f d', of 0 0 7 "ExecuteBoxOutput sample_config 7 0 0 (sandbox_strict sample_submission) False"]
    by (simp add: s p d hostile_fs_def)
  then show ?thesis using d' by (simp add: p collected_output_def d)
qed

section \<open>A box that is filled\<close>

lemma Move_leaf:
  assumes "Move p q perms d = (True, d')" "part_at d p = Some (Inl s)" "p \<noteq> q" "\<forall>t. part_at d q \<noteq> Some (Inr t)"
    and "\<forall>r. below r p \<or> below r q \<longrightarrow> part_at d r = None"
  shows "part_at d' = (part_at d)(p := part_at d' p, q := Some (Inl s))"
proof -
  note a = moving.arrives [OF assms(1-4)]
  have d': "d' = snd (Move p q perms d)" using assms(1) by simp
  consider "part_at d' = part_at d" | "part_at d' = part_at (relocate p q d)" | "copied_over p q d d'"
    using Move_cases [of p q perms d] unfolding d' by blast
  then show ?thesis
  proof cases
    case 1
    then show ?thesis using a by (metis fun_upd_triv)
  next
    case 2
    have "part_at d' r = part_at d r" if "r \<noteq> p" "r \<noteq> q" for r
    proof -
      have "below (p @ drop (length q) r) p" if "below r q" using that by (auto simp: below_def prefix_def)
      then show ?thesis using that assms(5) by (simp add: 2 part_relocate)
    qed
    then show ?thesis using a by (auto simp: fun_eq_iff)
  next
    case 3
    then obtain e where e: "fs_copy_call p q d = Inr e" "part_at d' = part_at e \<or> part_at d' = part_at (erase p e)"
      by (auto simp: copied_over_def)
    from copy_call_part [OF e(1) assms(4)] obtain s where "part_at e = (part_at d)(q := Some (Inl s))" .
    then show ?thesis using e(2) a by (auto simp: part_erase fun_eq_iff)
  qed
qed

text \<open>
  The tree while a box \<open>S\<close> is filled: \<open>m\<close> is what it holds, at \<open>fin\<close> is \<open>x\<close>, and everything else is as it was in \<open>d\<close>.
\<close>

definition boxed :: "path \<Rightarrow> path \<Rightarrow> Disk \<Rightarrow> (string + path) option \<Rightarrow> (path \<Rightarrow> (string + path) option) \<Rightarrow> Disk \<Rightarrow> bool" where
  "boxed S fin d x m e \<longleftrightarrow> part_at e = (\<lambda>r. if inside r S then m r else if r = fin then x else part_at d r)"

text \<open>A file that can be read before the box exists, and is not the one at \<open>fin\<close>.\<close>

definition source :: "path \<Rightarrow> path \<Rightarrow> Disk \<Rightarrow> path \<Rightarrow> string \<Rightarrow> bool" where
  "source S fin d p s \<longleftrightarrow> read_path d p = Some s \<and> resolve d p \<noteq> Some fin"

lemma follow_boxed:
  assumes "follow n (inode_at d) p = Some q" "part_at d q = Some z" "q \<noteq> fin"
    and b: "boxed S fin d x m e" "\<forall>r. inside r S \<longrightarrow> part_at d r = None" "\<forall>t. part_at d fin \<noteq> Some (Inr t)"
  shows "follow n (inode_at e) p = Some q"
  using assms(1)
proof (induction n arbitrary: p)
  case (Suc n)
  have e: "part_of (inode_at e p) = (if inside p S then m p else if p = fin then x else part_of (inode_at d p))"
    using fun_cong [OF b(1) [unfolded boxed_def], of p] by (simp add: part_at_def)
  show ?case
  proof (cases "part_of (inode_at d p)")
    case None
    then have "q = p" using Suc.prems unfolding follow_part [of "Suc n"] by simp
    then show ?thesis using None assms(2) by (simp add: part_at_def)
  next
    case (Some y)
    then have ni: "\<not> inside p S" using b(2) by (auto simp: part_at_def)
    show ?thesis
    proof (cases y)
      case (Inl s)
      then have "q = p" using Suc.prems Some unfolding follow_part [of "Suc n"] by simp
      then have "part_of (inode_at e p) = Some (Inl s)" using e ni assms(3) Some Inl by simp
      then show ?thesis using \<open>q = p\<close> unfolding follow_part [of "Suc n"] by simp
    next
      case (Inr t)
      then have "follow n (inode_at d) t = Some q" using Suc.prems Some unfolding follow_part [of "Suc n"] by simp
      moreover have "p \<noteq> fin" using b(3) Some Inr by (auto simp: part_at_def)
      then have "part_of (inode_at e p) = Some (Inr t)" using e ni Some Inr by simp
      ultimately show ?thesis using Suc.IH unfolding follow_part [of "Suc n"] by simp
    qed
  qed
qed simp

lemma source_boxed:
  assumes "source S fin d p s" "boxed S fin d x m e" "\<forall>r. inside r S \<longrightarrow> part_at d r = None"
    "\<forall>t. part_at d fin \<noteq> Some (Inr t)"
  shows "read_path e p = Some s"
proof -
  obtain q where q: "resolve d p = Some q" "part_at d q = Some (Inl s)" "q \<noteq> fin"
    using assms(1) unfolding source_def read_part by (auto split: option.splits sum.splits)
  have "\<not> inside q S" using q(2) assms(3) by auto
  then have "part_at e q = Some (Inl s)" using assms(2) q(2,3) by (simp add: boxed_def)
  moreover have "resolve e p = Some q"
    using follow_boxed [OF q(1) [unfolded resolve_def] q(2,3) assms(2-4)] by (simp add: resolve_def)
  ultimately show ?thesis by (simp add: read_part)
qed

lemma boxed_start: "\<forall>r. inside r S \<longrightarrow> part_at d r = None \<Longrightarrow> part_at e = part_at d \<Longrightarrow>
    boxed S fin d (part_at d fin) Map.empty e"
  by (auto simp: boxed_def fun_eq_iff)

lemma boxed_same: "boxed S fin d x m e \<Longrightarrow> part_at e' = part_at e \<Longrightarrow> boxed S fin d x m e'"
  by (simp add: boxed_def)

lemma boxed_put:
  "boxed S fin d x m e \<Longrightarrow> inside q S \<Longrightarrow> part_at e' = (part_at e)(q := Some (Inl s)) \<Longrightarrow>
   boxed S fin d x (m(q \<mapsto> Inl s)) e'"
  by (auto simp: boxed_def fun_eq_iff)

lemma boxed_fresh: "boxed S fin d x m e \<Longrightarrow> inside q S \<Longrightarrow> m q = None \<Longrightarrow> \<forall>t. part_at e q \<noteq> Some (Inr t)"
  by (simp add: boxed_def)

lemma boxed_copy:
  assumes "run_op dump (FsCopy p q perms) e = (True, e')" "boxed S fin d x m e" "inside q S" "m q = None"
    and "source S fin d p s" "\<forall>r. inside r S \<longrightarrow> part_at d r = None" "\<forall>t. part_at d fin \<noteq> Some (Inr t)"
  shows "boxed S fin d x (m(q \<mapsto> Inl s)) e'"
proof -
  from assms(1) have "Copy p q perms e = (True, e')" by simp
  from Copy_part [OF this] obtain t b where
    "read_path e p = Some t" "resolve e q = Some b" "part_at e' = (part_at e)(b := Some (Inl t))" .
  then show ?thesis
    using source_boxed [OF assms(5,2,6,7)] resolve_here [OF boxed_fresh [OF assms(2-4)]] boxed_put [OF assms(2,3)] by simp
qed

lemma boxed_write:
  assumes "write_call q s e = (True, e')" "boxed S fin d x m e" "inside q S" "m q = None"
  shows "boxed S fin d x (m(q \<mapsto> Inl s)) e'"
  using boxed_put [OF assms(2,3) write_call_part [OF assms(1) boxed_fresh [OF assms(2-4)]]] .

lemma boxed_move:
  assumes "Move fin q perms e = (True, e')" "boxed S fin d (part_at d fin) m e" "inside q S" "m q = None"
    and "part_at d fin = Some (Inl s)" "\<not> inside fin S" "\<forall>r. below r fin \<longrightarrow> \<not> inside r S \<and> part_at d r = None"
    and "\<forall>r. below r q \<longrightarrow> m r = None"
  shows "\<exists>x. boxed S fin d x (m(q \<mapsto> Inl s)) e'"
proof -
  have f: "part_at e fin = Some (Inl s)" using assms(2,5,6) by (simp add: boxed_def)
  have ne: "fin \<noteq> q" using assms(3,6) by blast
  have b: "\<forall>r. below r fin \<or> below r q \<longrightarrow> part_at e r = None"
  proof (intro allI impI)
    fix r
    assume "below r fin \<or> below r q"
    then show "part_at e r = None"
    proof
      assume r: "below r fin"
      then have "r \<noteq> fin" by (auto simp: below_def)
      then show ?thesis using assms(2,7) r by (simp add: boxed_def)
    next
      assume r: "below r q"
      have "inside r S" using assms(3) r by (auto simp: inside_def below_def prefix_def)
      then show ?thesis using assms(2,8) r by (simp add: boxed_def)
    qed
  qed
  note M = Move_leaf [OF assms(1) f ne boxed_fresh [OF assms(2-4)] b]
  have "part_at e' = (\<lambda>r. if inside r S then (m(q \<mapsto> Inl s)) r else if r = fin then part_at e' fin else part_at d r)"
  proof
    fix r
    show "part_at e' r = (if inside r S then (m(q \<mapsto> Inl s)) r else if r = fin then part_at e' fin else part_at d r)"
      using fun_cong [OF M, of r] ne assms(2,3,6) unfolding boxed_def by (auto split: if_split_asm)
  qed
  then have "boxed S fin d (part_at e' fin) (m(q \<mapsto> Inl s)) e'" by (simp only: boxed_def)
  then show ?thesis by blast
qed

section \<open>What the judge finds\<close>

lemma scoring_paths:
  fixes cfg :: Config
  assumes "0 \<le> iid" "0 \<le> i" "0 \<le> stg"
  defines "S \<equiv> ScoringBoxPath cfg iid i stg"
  shows "Workdir S = S @ ''/workdir''"
    and "ScoringBoxProgram cfg iid i stg lng False = S @ ''/workdir/prog'' @ ProgramExtension lng"
    and "ScoringBoxUserCode cfg iid i stg lng False = S @ ''/workdir/code'' @ CodeExtension lng"
    and "ScoringBoxUserOutput cfg iid i stg False = S @ ''/workdir/user_output''"
    and "ScoringBoxTdInput cfg iid i stg False = S @ ''/workdir/td_input''"
    and "ScoringBoxTdOutput cfg iid i stg False = S @ ''/workdir/td_output''"
    and "ScoringBoxMetaFile cfg iid i stg False = S @ ''/workdir/meta''"
    and "ScoringBoxTempdir cfg iid i stg False = S @ ''/tmp''"
proof -
  have b: "path_div S q = S @ CHR ''/'' # q" if "take 1 q \<noteq> ''/''" for q
    using box_file [of iid "ScoringBox i stg" q cfg] assms(1-3) that by (simp add: S_def)
  show w: "Workdir S = S @ ''/workdir''" by (simp add: Workdir_def kWorkdirRelative_def b)
  note d = w [unfolded S_def]
  show "ScoringBoxProgram cfg iid i stg lng False = S @ ''/workdir/prog'' @ ProgramExtension lng"
    "ScoringBoxUserCode cfg iid i stg lng False = S @ ''/workdir/code'' @ CodeExtension lng"
    "ScoringBoxUserOutput cfg iid i stg False = S @ ''/workdir/user_output''"
    "ScoringBoxTdInput cfg iid i stg False = S @ ''/workdir/td_input''"
    "ScoringBoxTdOutput cfg iid i stg False = S @ ''/workdir/td_output''"
    "ScoringBoxMetaFile cfg iid i stg False = S @ ''/workdir/meta''"
    by (simp_all add: ScoringBoxProgram_def ScoringBoxUserCode_def ScoringBoxUserOutput_def ScoringBoxTdInput_def
      ScoringBoxTdOutput_def ScoringBoxMetaFile_def BoxRoot_def d box_dir_file S_def)
  show "ScoringBoxTempdir cfg iid i stg False = S @ ''/tmp''"
    by (simp add: ScoringBoxTempdir_def BoxRoot_def b [unfolded S_def] S_def)
qed

definition judge_source :: "Config \<Rightarrow> Submission \<Rightarrow> path" where
  "judge_source cfg sb =
     (if specjudge_type sb = NORMAL then DefaultScoringPath cfg
      else CompileBoxOutput cfg (submission_internal_id sb) CS_SPECJUDGE (specjudge_lang sb) False)"

lemma SetupScoring_ops:
  assumes "SetupScoring cfg fs sr task st = Inr (True, sr', st')"
  obtains item td where "nth_opt (testdata (sub sr)) (nat (subtask (te_task task))) = Some item"
    "events st' = events st @ map Fs (scoring_prog_ops cfg (sub sr) (subtask (te_task task)) (stage (te_task task)) @
       scoring_input_ops cfg fs (sub sr) item td (subtask (te_task task)) (stage (te_task task)))"
proof -
  obtain item where item: "nth_opt (testdata (sub sr)) (nat (subtask (te_task task))) = Some item"
    using assms by (auto simp: SetupScoring_def Let_def split: if_split_asm option.splits)
  have "\<exists>td. events st' = events st @ map Fs (scoring_prog_ops cfg (sub sr) (subtask (te_task task)) (stage (te_task task)) @
       scoring_input_ops cfg fs (sub sr) item td (subtask (te_task task)) (stage (te_task task)))"
    using assms item
    by (auto simp: SetupScoring_def Let_def emit_def map_sum_Inr split: if_split_asm option.splits)
  with item show thesis using that by blast
qed

lemma started_scoring_ops:
  assumes "SetupScoring cfg fs sr task st = Inr (True, sr', st')" "events st' = events st @ map Fs ops"
    and "nth_opt (testdata (sub sr)) (nat i) = Some item" "i = subtask (te_task task)" "stg = stage (te_task task)"
  shows "\<exists>td. ops = scoring_prog_ops cfg (sub sr) i stg @ scoring_input_ops cfg fs (sub sr) item td i stg"
proof -
  from SetupScoring_ops [OF assms(1), folded assms(4,5)] obtain item' td where
    o: "nth_opt (testdata (sub sr)) (nat i) = Some item'"
      "events st' = events st @ map Fs (scoring_prog_ops cfg (sub sr) i stg @ scoring_input_ops cfg fs (sub sr) item' td i stg)" .
  have "item' = item" using o(1) assms(3) by simp
  then have "map Fs ops = map Fs (scoring_prog_ops cfg (sub sr) i stg @ scoring_input_ops cfg fs (sub sr) item td i stg)"
    using o(2) assms(2) by simp
  moreover have "inj Fs" by (simp add: inj_def)
  ultimately have "ops = scoring_prog_ops cfg (sub sr) i stg @ scoring_input_ops cfg fs (sub sr) item td i stg"
    using inj_map_eq_map by blast
  then show ?thesis ..
qed

text \<open>The directory for files between stages is new, or moved from the stage before; the files of the box stay.\<close>

lemma tempdir_made:
  assumes "run_op dump (if \<not> between \<or> stg = 0 then FsCreateDirs T perms else FsMove T' T None) e = (True, e')"
    and "\<forall>t. part_at e T \<noteq> Some (Inr t)" "\<not> inside r T" "between \<and> stg \<noteq> 0 \<Longrightarrow> \<not> inside r T'"
  shows "part_at e' r = part_at e r"
proof (cases "\<not> between \<or> stg = 0")
  case True
  then show ?thesis using assms(1) CreateDirs_part [of T perms e] by simp
next
  case False
  then have "Move T' T None e = (True, e')" using assms(1) by simp
  from moving.frame [OF this assms(2)] assms(3,4) False show ?thesis by (simp add: inside_def below_def)
qed

lemma user_output_put:
  assumes "run_ops dump (if fs_exists fs fin then [FsMove fin q (Some perm)] else [FsTouch q, FsPermissions q perm]) e = (True, e')"
    and b: "boxed S fin d (part_at d fin) m e" and q: "inside q S" "m q = None" "\<forall>r. below r q \<longrightarrow> m r = None"
    and ex: "fs_exists fs fin \<longleftrightarrow> (\<exists>s. part_at d fin = Some (Inl s))"
    and fin: "\<not> inside fin S" "\<forall>r. below r fin \<longrightarrow> \<not> inside r S \<and> part_at d r = None"
  shows "\<exists>x. boxed S fin d x (m(q \<mapsto> Inl (collected_output d fin))) e'"
proof (cases "fs_exists fs fin")
  case True
  then obtain s where s: "part_at d fin = Some (Inl s)" using ex by blast
  have "Move fin q (Some perm) e = (True, e')" using assms(1) True by (auto simp: Let_def split: prod.splits)
  from boxed_move [OF this b q(1,2) s fin q(3)] show ?thesis by (simp add: collected_output_def s)
next
  case False
  then have c: "collected_output d fin = []" using ex by (auto simp: collected_output_def split: option.splits sum.splits)
  from assms(1) False obtain f where f: "write_call q [] e = (True, f)" "set_perms q (Some perm) f = (True, e')"
    by (auto simp: Let_def split: prod.splits)
  from boxed_same [OF boxed_write [OF f(1) b q(1,2)]] set_perms_part [of q "Some perm" f] f(2) c show ?thesis by auto
qed

lemma run_scoring_ops:
  assumes run: "run_ops dump (scoring_prog_ops cfg sb i stg @ scoring_input_ops cfg fs sb item td i stg) d = (True, d')"
    and ids: "0 \<le> submission_internal_id sb" "0 \<le> i" "0 \<le> stg"
    and S: "S = ScoringBoxPath cfg (submission_internal_id sb) i stg" "\<forall>r. inside r S \<longrightarrow> part_at d r = None"
    and fin: "fin = ExecuteBoxFinalOutput cfg (submission_internal_id sb) i stg" "\<forall>t. part_at d fin \<noteq> Some (Inr t)"
      "\<forall>r. below r fin \<longrightarrow> part_at d r = None" "fs_exists fs fin \<longleftrightarrow> (\<exists>s. part_at d fin = Some (Inl s))"
    and src: "source S fin d (judge_source cfg sb) judge" "source S fin d (SubmissionUserCode cfg (submission_internal_id sb)) code"
      "source S fin d (input_file item) inp" "source S fin d (answer_file item) ans"
  shows "part_at d' (ScoringBoxProgram cfg (submission_internal_id sb) i stg (specjudge_lang sb) False) = Some (Inl judge)"
    "part_at d' (ScoringBoxUserCode cfg (submission_internal_id sb) i stg (lang sb) False) = Some (Inl code)"
    "part_at d' (ScoringBoxUserOutput cfg (submission_internal_id sb) i stg False) = Some (Inl (collected_output d fin))"
    "part_at d' (ScoringBoxTdInput cfg (submission_internal_id sb) i stg False) = Some (Inl inp)"
    "part_at d' (ScoringBoxTdOutput cfg (submission_internal_id sb) i stg False) = Some (Inl ans)"
proof -
  let ?iid = "submission_internal_id sb"
  note P = scoring_paths [OF ids, of cfg, folded S(1)]
  let ?A = "S @ ''/workdir/prog'' @ ProgramExtension (specjudge_lang sb)" and ?B = "S @ ''/workdir/code'' @ CodeExtension (lang sb)"
  let ?U = "S @ ''/workdir/user_output''" and ?I = "S @ ''/workdir/td_input''" and ?O = "S @ ''/workdir/td_output''"
  let ?M = "S @ ''/workdir/meta''" and ?T = "S @ ''/tmp''" and ?T' = "ScoringBoxTempdir cfg ?iid i (stg - 1) False"
  let ?user = "if fs_exists fs fin then [FsMove fin ?U (Some kPerm666)] else [FsTouch ?U, FsPermissions ?U kPerm666]"
  let ?tmp = "if \<not> judge_between_stages sb \<or> stg = 0 then FsCreateDirs ?T (Some perms_all) else FsMove ?T' ?T None"
  define meta where "meta = (if specjudge_type sb = SPECJUDGE_OLD then FsWriteText ?M (TestdataMetaOld td i)
    else FsWriteJson ?M (TestdataMeta cfg sb item td i stg))"
  have meta: "\<exists>s. run_op dump meta e = write_call ?M s e" for e by (auto simp: meta_def)
  have o: "scoring_prog_ops cfg sb i stg @ scoring_input_ops cfg fs sb item td i stg =
      [FsCreateDirs (S @ ''/workdir'') (Some perms_all), FsCopy (judge_source cfg sb) ?A (Some perms_all),
       FsCopy (SubmissionUserCode cfg ?iid) ?B (Some kPerm666)] @ ?user @
      [FsCopy (input_file item) ?I (Some kPerm666), FsCopy (answer_file item) ?O (Some kPerm666), ?tmp, meta]"
    by (simp add: scoring_prog_ops_def scoring_input_ops_def judge_source_def Let_def P S(1) [symmetric] fin(1) [symmetric]
      meta_def cong: if_cong)
  have f: "\<not> inside fin S"
    using in_one_box [of fin cfg ?iid "ScoringBox i stg" ?iid "ExecuteBox i stg"] ids
    by (auto simp: S(1) fin(1) execute_paths(4) [OF ids] inside_def)
  have fb: "\<forall>r. below r fin \<longrightarrow> \<not> inside r S \<and> part_at d r = None"
  proof (intro allI impI conjI)
    fix r
    assume r: "below r fin"
    have "inside fin (ExecuteBoxPath cfg ?iid i stg)" by (simp add: fin(1) execute_paths(4) [OF ids] inside_def)
    then have "inside r (ExecuteBoxPath cfg ?iid i stg)" using r by (auto simp: inside_def below_def prefix_def)
    then show "\<not> inside r S"
      using in_one_box [of r cfg ?iid "ScoringBox i stg" ?iid "ExecuteBox i stg"] ids by (auto simp: S(1))
    show "part_at d r = None" using fin(3) r by blast
  qed
  note R = S(2) fin(2)
  from run [unfolded o] obtain d1 where 1: "run_op dump (FsCreateDirs (S @ ''/workdir'') (Some perms_all)) d = (True, d1)"
    and r1: "run_ops dump ([FsCopy (judge_source cfg sb) ?A (Some perms_all),
       FsCopy (SubmissionUserCode cfg ?iid) ?B (Some kPerm666)] @ ?user @
      [FsCopy (input_file item) ?I (Some kPerm666), FsCopy (answer_file item) ?O (Some kPerm666), ?tmp, meta]) d1 = (True, d')"
    by (metis append_Cons run_ops_ConsE)
  have b1: "boxed S fin d (part_at d fin) Map.empty d1"
    using boxed_start [OF S(2)] CreateDirs_part [of "S @ ''/workdir''" "Some perms_all" d] 1 by simp
  from r1 obtain d2 where 2: "run_op dump (FsCopy (judge_source cfg sb) ?A (Some perms_all)) d1 = (True, d2)"
    and r2: "run_ops dump ([FsCopy (SubmissionUserCode cfg ?iid) ?B (Some kPerm666)] @ ?user @
      [FsCopy (input_file item) ?I (Some kPerm666), FsCopy (answer_file item) ?O (Some kPerm666), ?tmp, meta]) d2 = (True, d')"
    by (metis append_Cons run_ops_ConsE)
  have b2: "boxed S fin d (part_at d fin) [?A \<mapsto> Inl judge] d2"
    by (rule boxed_copy [OF 2 b1 _ _ src(1) R]) (simp_all add: inside_def)
  from r2 obtain d3 where 3: "run_op dump (FsCopy (SubmissionUserCode cfg ?iid) ?B (Some kPerm666)) d2 = (True, d3)"
    and r3: "run_ops dump (?user @ [FsCopy (input_file item) ?I (Some kPerm666), FsCopy (answer_file item) ?O (Some kPerm666),
      ?tmp, meta]) d3 = (True, d')"
    by (metis append_Cons append_Nil run_ops_ConsE)
  have b3: "boxed S fin d (part_at d fin) [?A \<mapsto> Inl judge, ?B \<mapsto> Inl code] d3"
    by (rule boxed_copy [OF 3 b2 _ _ src(2) R]) (simp_all add: inside_def)
  from run_ops_append [OF r3] obtain d4 where 4: "run_ops dump ?user d3 = (True, d4)"
    and r4: "run_ops dump [FsCopy (input_file item) ?I (Some kPerm666), FsCopy (answer_file item) ?O (Some kPerm666),
      ?tmp, meta] d4 = (True, d')" by blast
  let ?u = "Inl (collected_output d fin)"
  have "inside ?U S" "[?A \<mapsto> Inl judge, ?B \<mapsto> Inl code] ?U = None"
    "\<forall>r. below r ?U \<longrightarrow> [?A \<mapsto> Inl judge, ?B \<mapsto> Inl code] r = None"
    by (auto simp: inside_def below_def prefix_def)
  from user_output_put [OF 4 b3 this fin(4) f fb] obtain x where
    b4: "boxed S fin d x [?A \<mapsto> Inl judge, ?B \<mapsto> Inl code, ?U \<mapsto> ?u] d4" by blast
  from r4 obtain d5 where 5: "run_op dump (FsCopy (input_file item) ?I (Some kPerm666)) d4 = (True, d5)"
    and r5: "run_ops dump [FsCopy (answer_file item) ?O (Some kPerm666), ?tmp, meta] d5 = (True, d')" by (rule run_ops_ConsE)
  have b5: "boxed S fin d x [?A \<mapsto> Inl judge, ?B \<mapsto> Inl code, ?U \<mapsto> ?u, ?I \<mapsto> Inl inp] d5"
    by (rule boxed_copy [OF 5 b4 _ _ src(3) R]) (simp_all add: inside_def)
  from r5 obtain d6 where 6: "run_op dump (FsCopy (answer_file item) ?O (Some kPerm666)) d5 = (True, d6)"
    and r6: "run_ops dump [?tmp, meta] d6 = (True, d')" by (rule run_ops_ConsE)
  have b6: "boxed S fin d x [?A \<mapsto> Inl judge, ?B \<mapsto> Inl code, ?U \<mapsto> ?u, ?I \<mapsto> Inl inp, ?O \<mapsto> Inl ans] d6"
    by (rule boxed_copy [OF 6 b5 _ _ src(4) R]) (simp_all add: inside_def)
  from r6 obtain d7 where 7: "run_op dump ?tmp d6 = (True, d7)" and r7: "run_ops dump [meta] d7 = (True, d')"
    by (rule run_ops_ConsE)
  have nT: "\<forall>t. part_at d6 ?T \<noteq> Some (Inr t)" using b6 by (simp add: boxed_def inside_def)
  have keep: "part_at d7 (S @ ''/workdir/'' @ w) = part_at d6 (S @ ''/workdir/'' @ w)" for w
  proof (rule tempdir_made [OF 7 nT])
    show "\<not> inside (S @ ''/workdir/'' @ w) ?T" by (simp add: inside_def)
    assume "judge_between_stages sb \<and> stg \<noteq> 0"
    then have st: "0 \<le> stg - 1" using ids(3) by simp
    show "\<not> inside (S @ ''/workdir/'' @ w) ?T'"
    proof
      assume "inside (S @ ''/workdir/'' @ w) ?T'"
      then have "inside (S @ ''/workdir/'' @ w) (ScoringBoxPath cfg ?iid i (stg - 1))"
        using scoring_paths(8) [OF ids(1,2) st, of cfg] by (auto simp: inside_def prefix_def)
      moreover have "inside (S @ ''/workdir/'' @ w) S" by (simp add: inside_def)
      ultimately show False
        using in_one_box [of "S @ ''/workdir/'' @ w" cfg ?iid "ScoringBox i stg" ?iid "ScoringBox i (stg - 1)"] ids st
        by (simp add: S(1))
    qed
  qed
  from meta [of d7] obtain s where "write_call ?M s d7 = (True, d')" using r7 by (auto simp: Let_def split: prod.splits)
  moreover have "part_at d7 ?M = None" using keep [of "''meta''"] b6 by (simp add: boxed_def inside_def)
  ultimately have d': "part_at d' = (part_at d7)(?M := Some (Inl s))" using write_call_part [of ?M s d7 d'] by simp
  show "part_at d' (ScoringBoxProgram cfg ?iid i stg (specjudge_lang sb) False) = Some (Inl judge)"
    using keep [of "''prog'' @ ProgramExtension (specjudge_lang sb)"] b6 by (simp add: P d' boxed_def inside_def)
  show "part_at d' (ScoringBoxUserCode cfg ?iid i stg (lang sb) False) = Some (Inl code)"
    using keep [of "''code'' @ CodeExtension (lang sb)"] b6 by (simp add: P d' boxed_def inside_def)
  show "part_at d' (ScoringBoxUserOutput cfg ?iid i stg False) = Some ?u"
    using keep [of "''user_output''"] b6 by (simp add: P d' boxed_def inside_def)
  show "part_at d' (ScoringBoxTdInput cfg ?iid i stg False) = Some (Inl inp)"
    using keep [of "''td_input''"] b6 by (simp add: P d' boxed_def inside_def)
  show "part_at d' (ScoringBoxTdOutput cfg ?iid i stg False) = Some (Inl ans)"
    using keep [of "''td_output''"] b6 by (simp add: P d' boxed_def inside_def)
qed

text \<open>
  C29: When \<open>SetupScoring\<close> starts a judge and its calls succeed on a tree in which the scoring box does not exist
  yet, the box holds the judge (the default one or the compiled one), the source and the output of the submission,
  and the input and the answer of the testdata, each under the name the command uses; the sources are read through
  links and may be anything but the output itself, and an output that does not exist counts as empty.
\<close>

theorem scoring_prepared:
  assumes "SetupScoring cfg fs sr task st = Inr (True, sr', st')" "events st' = events st @ map Fs ops"
    and "run_ops dump ops d = (True, d')"
    and "nth_opt (testdata (sub sr)) (nat i) = Some item" "i = subtask (te_task task)" "stg = stage (te_task task)"
    and "iid = submission_internal_id (sub sr)" "0 \<le> iid" "0 \<le> i" "0 \<le> stg"
    and "S = ScoringBoxPath cfg iid i stg" "\<forall>r. inside r S \<longrightarrow> part_at d r = None"
    and "fin = ExecuteBoxFinalOutput cfg iid i stg" "\<forall>t. part_at d fin \<noteq> Some (Inr t)"
    and "\<forall>r. below r fin \<longrightarrow> part_at d r = None" "fs_exists fs fin \<longleftrightarrow> (\<exists>s. part_at d fin = Some (Inl s))"
    and "source S fin d (judge_source cfg (sub sr)) judge" "source S fin d (SubmissionUserCode cfg iid) code"
    and "source S fin d (input_file item) inp" "source S fin d (answer_file item) ans"
  shows "read_path d' (ScoringBoxProgram cfg iid i stg (specjudge_lang (sub sr)) False) = Some judge \<and>
    read_path d' (ScoringBoxUserCode cfg iid i stg (lang (sub sr)) False) = Some code \<and>
    read_path d' (ScoringBoxUserOutput cfg iid i stg False) = Some (collected_output d fin) \<and>
    read_path d' (ScoringBoxTdInput cfg iid i stg False) = Some inp \<and>
    read_path d' (ScoringBoxTdOutput cfg iid i stg False) = Some ans"
proof -
  obtain td where "ops = scoring_prog_ops cfg (sub sr) i stg @ scoring_input_ops cfg fs (sub sr) item td i stg"
    using started_scoring_ops [OF assms(1,2,4,5,6)] by blast
  note R = run_scoring_ops [OF assms(3) [unfolded this] assms(8) [unfolded assms(7)] assms(9,10) assms(11) [unfolded assms(7)]
    assms(12) assms(13) [unfolded assms(7)] assms(14-17) assms(18) [unfolded assms(7)] assms(19,20)]
  show ?thesis unfolding assms(7) using R read_here by blast
qed

text \<open>
  C27: The judge sees what the program wrote: if the output of an execution has been kept and not touched since when
  \<open>SetupScoring\<close> prepares its judge, then the judge of this stage finds under the name of the user's output the
  file the program wrote, or nothing if it wrote no regular file, next to the input and the answer of the testdata.
\<close>

theorem judged_output:
  assumes "FinalizeExecute cfg fs sr xtask cres st = Inr (sr1, st1)" "events st1 = events st @ map Fs xops"
    and "run_ops dump xops d = (True, d1)" "SetupScoring cfg fs' sr2 stask st2 = Inr (True, sr3, st3)"
    and "events st3 = events st2 @ map Fs sops" "run_ops dump sops e = (True, e')"
    and "sub sr2 = sub sr" "iid = submission_internal_id (sub sr)" "0 \<le> iid" "0 \<le> i" "0 \<le> stg"
    and "i = subtask (te_task xtask)" "stg = stage (te_task xtask)" "i = subtask (te_task stask)" "stg = stage (te_task stask)"
    and "nth_opt (testdata (sub sr)) (nat i) = Some item"
    and "out = ExecuteBoxOutput cfg iid i stg (sandbox_strict (sub sr)) False"
    and "is_regular fs out \<longleftrightarrow> (\<exists>s. part_at d out = Some (Inl s))"
    and "fin = ExecuteBoxFinalOutput cfg iid i stg" "\<forall>t. part_at d fin \<noteq> Some (Inr t)" "part_at e fin = part_at d1 fin"
    and "\<forall>r. below r fin \<longrightarrow> part_at e r = None" "fs_exists fs' fin"
    and "S = ScoringBoxPath cfg iid i stg" "\<forall>r. inside r S \<longrightarrow> part_at e r = None"
    and "source S fin e (judge_source cfg (sub sr)) judge" "source S fin e (SubmissionUserCode cfg iid) code"
    and "source S fin e (input_file item) inp" "source S fin e (answer_file item) ans"
  shows "read_path e' (ScoringBoxUserOutput cfg iid i stg False) = Some (collected_output d out) \<and>
    read_path e' (ScoringBoxTdInput cfg iid i stg False) = Some inp \<and>
    read_path e' (ScoringBoxTdOutput cfg iid i stg False) = Some ans"
proof -
  have "xops = execute_output_ops cfg fs (sub sr) i stg" using FinalizeExecute_ops [OF assms(1,2)] assms(12,13) by simp
  from run_output_ops [OF assms(3) [unfolded this], of "out" fin] assms(8-11,17-20)
  have f: "part_at e fin = Some (Inl (collected_output d out))" using assms(21) by simp
  obtain td where o: "sops = scoring_prog_ops cfg (sub sr) i stg @ scoring_input_ops cfg fs' (sub sr) item td i stg"
    using started_scoring_ops [OF assms(4,5) _ assms(14,15), of item] assms(16) unfolding assms(7) by blast
  have x: "fs_exists fs' fin \<longleftrightarrow> (\<exists>s. part_at e fin = Some (Inl s))" "\<forall>t. part_at e fin \<noteq> Some (Inr t)"
    using f assms(23) by simp_all
  note R = run_scoring_ops [OF assms(6) [unfolded o] assms(9) [unfolded assms(8)] assms(10,11) assms(24) [unfolded assms(8)]
    assms(25) assms(19) [unfolded assms(8)] x(2) assms(22) x(1) assms(26) assms(27) [unfolded assms(8)] assms(28,29)]
  show ?thesis unfolding assms(8) using R(3-5) f read_here by (simp add: collected_output_def)
qed

definition scoring_disk :: Disk where
  "scoring_disk =
     \<lparr>inode_at = map_of [(''/tmp'', Folder 511), (''/tmp/box'', Folder 493), (''/var/data/default-scoring'', RegFile ''judge'' 493),
        (''/tmp/sub/000007/prog'', RegFile ''main'' 420), (''/var/td/1.in'', SymLink ''/var/pool/1''),
        (''/var/pool/1'', RegFile ''data'' 420), (''/var/td/1.out'', RegFile ''right'' 420),
        (''/tmp/box/000007/execute000_00/output'', RegFile ''wrong'' 438)],
      device = (\<lambda>_. 1), locked = (\<lambda>_. False), mounts = [], next_device = 2, names = [''/tmp/box'']\<rparr>"

definition scored_sr :: SubmissionAndResult where
  "scored_sr = \<lparr>sub = sample_submission, result = SubmissionResult_init\<lparr>td_results := [TestdataResult_init]\<rparr>\<rparr>"

definition scoring_task :: TaskEntry where
  "scoring_task = TaskEntry_new 3 7 \<lparr>task_type = SCORING, subtask = 0, stage = 0\<rparr> 0 0"

definition scoring_ops :: "fs_op list" where
  "scoring_ops = scoring_prog_ops sample_config sample_submission 0 0 @
     scoring_input_ops sample_config (env_fs (sample_env World_init)) sample_submission sample_item TestdataResult_init 0 0"

lemma scoring_setup:
  "\<exists>st'. SetupScoring sample_config (env_fs (sample_env World_init)) scored_sr scoring_task JState_init = Inr (True, scored_sr, st') \<and>
     events st' = events JState_init @ map Fs scoring_ops"
proof -
  have "nth_opt (testdata sample_submission) 0 = Some sample_item" "submission_internal_id sample_submission = 7"
    "specjudge_type sample_submission = NORMAL"
    by (simp_all add: sample_submission_def Submission_init_def nth_opt_def)
  moreover have "sub scored_sr = sample_submission" "verdict (result scored_sr) = NUL" "subtask (te_task scoring_task) = 0"
    "stage (te_task scoring_task) = 0" "nth_opt (td_results (result scored_sr)) 0 = Some TestdataResult_init"
    "skip_stage TestdataResult_init = False" "td_verdict TestdataResult_init = NUL" "\<not> IsCancelled JState_init x gs" for x gs
    by (simp_all add: scored_sr_def SubmissionResult_init_def scoring_task_def TaskEntry_new_def nth_opt_def
      TestdataResult_init_def IsCancelled_def JState_init_def)
  ultimately show ?thesis by (simp add: SetupScoring_def Let_def emit_def scoring_ops_def)
qed

lemma scoring_run: "fst (run_ops (\<lambda>_. []) scoring_ops scoring_disk)"
proof -
  have e: "fs_exists (env_fs (sample_env World_init)) p = True" for p by (simp add: sample_env_def)
  have n: "(specjudge_type sample_submission = SPECJUDGE_OLD) = False"
    by (simp add: sample_submission_def Submission_init_def)
  obtain j where j: "TestdataMeta sample_config sample_submission sample_item TestdataResult_init 0 0 = j" by blast
  show ?thesis unfolding scoring_ops_def scoring_input_ops_def Let_def e n if_True if_False j by code_simp
qed

theorem scoring_prepared_witness:
  "\<exists>d'. run_ops (\<lambda>_. []) scoring_ops scoring_disk = (True, d') \<and>
     read_path d' (ScoringBoxUserOutput sample_config 7 0 0 False) = Some ''wrong'' \<and>
     read_path d' (ScoringBoxTdOutput sample_config 7 0 0 False) = Some ''right''"
proof -
  obtain d' where d': "run_ops (\<lambda>_. []) scoring_ops scoring_disk = (True, d')"
    using scoring_run by (cases "run_ops (\<lambda>_. []) scoring_ops scoring_disk") simp
  obtain st' where st': "SetupScoring sample_config (env_fs (sample_env World_init)) scored_sr scoring_task JState_init = Inr (True, scored_sr, st')"
    "events st' = events JState_init @ map Fs scoring_ops" using scoring_setup by blast
  let ?S = "''/tmp/box/000007/scoring000_00''" and ?fin = "''/tmp/box/000007/execute000_00/output''"
  have p: "ScoringBoxPath sample_config 7 0 0 = ?S" "ExecuteBoxFinalOutput sample_config 7 0 0 = ?fin" by code_simp+
  have s: "sub scored_sr = sample_submission" "te_task scoring_task = \<lparr>task_type = SCORING, subtask = 0, stage = 0\<rparr>"
    "submission_internal_id sample_submission = 7" "nth_opt (testdata sample_submission) 0 = Some sample_item"
    by (simp_all add: scored_sr_def scoring_task_def TaskEntry_new_def sample_submission_def Submission_init_def nth_opt_def)
  have f: "part_at scoring_disk ?fin = Some (Inl ''wrong'')" "fs_exists (env_fs (sample_env World_init)) ?fin"
    by (simp_all add: part_at_def scoring_disk_def sample_env_def)
  have fr: "\<forall>r. inside r ?S \<longrightarrow> part_at scoring_disk r = None" "\<forall>r. below r ?fin \<longrightarrow> part_at scoring_disk r = None"
    by (auto simp: inside_def below_def prefix_def part_at_def scoring_disk_def)
  have src: "source ?S ?fin scoring_disk (judge_source sample_config sample_submission) ''judge''"
    "source ?S ?fin scoring_disk (SubmissionUserCode sample_config 7) ''main''"
    "source ?S ?fin scoring_disk (input_file sample_item) ''data''"
    "source ?S ?fin scoring_disk (answer_file sample_item) ''right''"
    by code_simp+
  from scoring_prepared [OF st'(1,2) d', of 0 sample_item 0 7 ?S ?fin "''judge''" "''main''" "''data''" "''right''"] p s f fr src d'
  show ?thesis by (simp add: collected_output_def)
qed

text \<open>The same judge from the end of the execution on: a program that has written its output in the working directory.\<close>

definition finished_disk :: Disk where
  "finished_disk = hostile_disk\<lparr>inode_at := (inode_at hostile_disk)
     (''/tmp/box/000007/execute000_00/workdir/output'' \<mapsto> RegFile ''wrong'' 420)\<rparr>"

definition finished_ops :: "fs_op list" where
  "finished_ops = execute_output_ops sample_config (env_fs (sample_env World_init)) sample_submission 0 0"

lemma finished_run:
  "fst (run_ops (\<lambda>_. []) finished_ops finished_disk) \<and>
   part_at (snd (run_ops (\<lambda>_. []) finished_ops finished_disk)) ''/tmp/box/000007/execute000_00/output'' = Some (Inl ''wrong'')"
proof -
  have r: "is_regular (env_fs (sample_env World_init)) p = True" for p by (simp add: sample_env_def)
  show ?thesis unfolding finished_ops_def execute_output_ops_def Let_def r if_True by code_simp
qed

theorem judged_output_witness:
  "\<exists>d'. run_ops (\<lambda>_. []) scoring_ops scoring_disk = (True, d') \<and>
     read_path d' (ScoringBoxUserOutput sample_config 7 0 0 False) = Some ''wrong'' \<and>
     read_path d' (ScoringBoxTdInput sample_config 7 0 0 False) = Some ''data''"
proof -
  let ?S = "''/tmp/box/000007/scoring000_00''" and ?fin = "''/tmp/box/000007/execute000_00/output''"
  let ?out = "''/tmp/box/000007/execute000_00/workdir/output''" and ?fs = "env_fs (sample_env World_init)"
  have s: "sub sample_sr = sample_submission" "te_task sample_task = \<lparr>task_type = EXECUTE, subtask = 0, stage = 0\<rparr>"
    "sub scored_sr = sample_submission" "te_task scoring_task = \<lparr>task_type = SCORING, subtask = 0, stage = 0\<rparr>"
    "submission_internal_id sample_submission = 7" "nth_opt (testdata sample_submission) 0 = Some sample_item"
    by (simp_all add: sample_sr_def sample_task_def scored_sr_def scoring_task_def TaskEntry_new_def sample_submission_def
      Submission_init_def nth_opt_def)
  obtain sr1 st1 where f: "FinalizeExecute sample_config ?fs sample_sr sample_task cjail_zero JState_init = Inr (sr1, st1)"
    "events st1 = events JState_init @ map Fs finished_ops"
    by (simp add: FinalizeExecute_def Let_def s emit_def finished_ops_def)
  obtain st' where st': "SetupScoring sample_config ?fs scored_sr scoring_task JState_init = Inr (True, scored_sr, st')"
    "events st' = events JState_init @ map Fs scoring_ops" using scoring_setup by blast
  obtain d1 where d1: "run_ops (\<lambda>_. []) finished_ops finished_disk = (True, d1)" "part_at d1 ?fin = Some (Inl ''wrong'')"
    using finished_run by (cases "run_ops (\<lambda>_. []) finished_ops finished_disk") simp
  obtain d' where d': "run_ops (\<lambda>_. []) scoring_ops scoring_disk = (True, d')"
    using scoring_run by (cases "run_ops (\<lambda>_. []) scoring_ops scoring_disk") simp
  have p: "ScoringBoxPath sample_config 7 0 0 = ?S" "ExecuteBoxFinalOutput sample_config 7 0 0 = ?fin"
    "ExecuteBoxOutput sample_config 7 0 0 (sandbox_strict sample_submission) False = ?out" by code_simp+
  have x: "part_at finished_disk ?out = Some (Inl ''wrong'')" "part_at finished_disk ?fin = None" "is_regular ?fs ?out"
    "part_at scoring_disk ?fin = Some (Inl ''wrong'')" "fs_exists ?fs ?fin"
    by (simp_all add: part_at_def finished_disk_def hostile_disk_def scoring_disk_def sample_env_def)
  have fr: "\<forall>r. inside r ?S \<longrightarrow> part_at scoring_disk r = None" "\<forall>r. below r ?fin \<longrightarrow> part_at scoring_disk r = None"
    by (auto simp: inside_def below_def prefix_def part_at_def scoring_disk_def)
  have src: "source ?S ?fin scoring_disk (judge_source sample_config sample_submission) ''judge''"
    "source ?S ?fin scoring_disk (SubmissionUserCode sample_config 7) ''main''"
    "source ?S ?fin scoring_disk (input_file sample_item) ''data''"
    "source ?S ?fin scoring_disk (answer_file sample_item) ''right''"
    by code_simp+
  have "read_path d' (ScoringBoxUserOutput sample_config 7 0 0 False) = Some (collected_output finished_disk ?out) \<and>
      read_path d' (ScoringBoxTdInput sample_config 7 0 0 False) = Some ''data'' \<and>
      read_path d' (ScoringBoxTdOutput sample_config 7 0 0 False) = Some ''right''"
  proof (rule judged_output [OF f d1(1) st' d'])
    show "nth_opt (testdata (sub sample_sr)) (nat 0) = Some sample_item" using s by simp
    show "?out = ExecuteBoxOutput sample_config 7 0 0 (sandbox_strict (sub sample_sr)) False" unfolding s by (rule p(3) [symmetric])
    show "is_regular ?fs ?out \<longleftrightarrow> (\<exists>s. part_at finished_disk ?out = Some (Inl s))" using x(1,3) by blast
    show "?fin = ExecuteBoxFinalOutput sample_config 7 0 0" by (rule p(2) [symmetric])
    show "\<forall>t. part_at finished_disk ?fin \<noteq> Some (Inr t)" unfolding x(2) by blast
    show "part_at scoring_disk ?fin = part_at d1 ?fin" unfolding x(4) d1(2) ..
    show "\<forall>r. below r ?fin \<longrightarrow> part_at scoring_disk r = None" by (rule fr(2))
    show "fs_exists ?fs ?fin" by (rule x(5))
    show "?S = ScoringBoxPath sample_config 7 0 0" by (rule p(1) [symmetric])
    show "\<forall>r. inside r ?S \<longrightarrow> part_at scoring_disk r = None" by (rule fr(1))
    show "source ?S ?fin scoring_disk (judge_source sample_config (sub sample_sr)) ''judge''" unfolding s by (rule src(1))
    show "source ?S ?fin scoring_disk (SubmissionUserCode sample_config 7) ''main''" by (rule src(2))
    show "source ?S ?fin scoring_disk (input_file sample_item) ''data''" by (rule src(3))
    show "source ?S ?fin scoring_disk (answer_file sample_item) ''right''" by (rule src(4))
  qed (simp_all add: s)
  moreover have "collected_output finished_disk ?out = ''wrong''" by (simp add: collected_output_def x(1))
  ultimately show ?thesis using d' by auto
qed

end
