(* ===== verification/Process.thy ===== *)
theory Process
  imports Paths
begin

text \<open>
  What the judge asks of the system for its processes: \<open>CloseFrom\<close> of \<open>src/tioj/utils.cpp\<close> in both of its versions
  and the descriptors of the process that moves bytes in \<open>SpliceProcess\<close>, and \<open>LockFile\<close> of \<open>src/main.cpp\<close>. The two
  versions of \<open>CloseFrom\<close> agree, the moving process holds its two ends and nothing else, and of two judges on one
  data directory one does not start.
\<close>

section \<open>Descriptors\<close>

text \<open>The open descriptors of a process, with what each refers to.\<close>

type_synonym 'f fds = "int \<rightharpoonup> 'f"

definition fds_ok :: "'f fds \<Rightarrow> bool" where
  "fds_ok fds \<longleftrightarrow> finite (dom fds) \<and> (\<forall>fd \<in> dom fds. 0 \<le> fd)"

text \<open>With \<open>close_range(minfd, ~0U, 0)\<close>.\<close>

definition CloseFrom_range :: "int \<Rightarrow> 'f fds \<Rightarrow> int \<times> 'f fds" where
  "CloseFrom_range minfd fds = (0, fds |` {..<minfd})"

text \<open>
  With the entries of \<open>/proc/self/fd\<close>: \<open>dir\<close> is the descriptor \<open>opendir\<close> gives and the names it lists, which are
  decimal numbers apart from the two dots; \<open>refused\<close> are the descriptors \<open>close\<close> fails on with another error
  than \<open>EBADF\<close>. The result is 0 or -1.
\<close>

fun close_listed :: "int \<Rightarrow> int \<Rightarrow> (int \<Rightarrow> bool) \<Rightarrow> string list \<Rightarrow> 'f fds \<Rightarrow> bool \<times> 'f fds" where
  "close_listed minfd dfd refused [] fds = (True, fds)"
| "close_listed minfd dfd refused (name # names) fds =
     (if name = ''.'' \<or> name = ''..'' then close_listed minfd dfd refused names fds
      else let fd = int (parse_nat name)
           in if fd \<ge> minfd \<and> fd \<noteq> dfd
              then if fds fd \<noteq> None \<and> refused fd then (False, fds)
                   else close_listed minfd dfd refused names (fds(fd := None))
              else close_listed minfd dfd refused names fds)"

definition CloseFrom_listed :: "int \<Rightarrow> (int \<times> string list) option \<Rightarrow> (int \<Rightarrow> bool) \<Rightarrow> 'f fds \<Rightarrow> int \<times> 'f fds" where
  "CloseFrom_listed minfd dir refused fds =
     (case dir of
        None \<Rightarrow> (-1, fds)
      | Some (dfd, names) \<Rightarrow>
          (case close_listed minfd dfd refused names fds of
             (ok, fds) \<Rightarrow> (if ok then 0 else -1, fds(dfd := None))))"

definition dup2 :: "int \<Rightarrow> int \<Rightarrow> 'f fds \<Rightarrow> 'f fds" where
  "dup2 old new fds = (case fds old of None \<Rightarrow> fds | Some f \<Rightarrow> fds(new \<mapsto> f))"

text \<open>The process of \<open>SpliceProcess\<close> that runs the loop, before it.\<close>

definition splice_fds :: "int \<Rightarrow> int \<Rightarrow> 'f fds \<Rightarrow> 'f fds" where
  "splice_fds read_fd write_fd fds = snd (CloseFrom_range 2 (dup2 write_fd 1 (dup2 read_fd 0 fds)))"

section \<open>The two versions\<close>

text \<open>The listing has every open descriptor, the one of the directory included.\<close>

definition lists_all :: "string list \<Rightarrow> int \<Rightarrow> 'f fds \<Rightarrow> bool" where
  "lists_all names dfd fds \<longleftrightarrow>
     fds dfd = None \<and> set names = {''.'', ''..''} \<union> (\<lambda>fd. to_string fd) ` insert dfd (dom fds)"

lemma close_listed_open:
  "close_listed minfd dfd (\<lambda>_. False) names fds =
     (True, \<lambda>fd. if fd \<ge> minfd \<and> fd \<noteq> dfd \<and> (\<exists>n \<in> set names. n \<noteq> ''.'' \<and> n \<noteq> ''..'' \<and> fd = int (parse_nat n))
                 then None else fds fd)"
proof (induction names arbitrary: fds)
  case (Cons n ns)
  show ?case by (auto simp: Cons.IH Let_def fun_eq_iff)
qed simp

lemma to_string_not_dot: "0 \<le> x \<Longrightarrow> to_string x \<noteq> ''.'' \<and> to_string x \<noteq> ''..''"
proof -
  assume "0 \<le> x"
  then have "\<forall>c \<in> set (to_string x). isdigit c" using nat_to_string_digits by (auto simp: to_string_def)
  then show ?thesis by (auto simp: isdigit_def)
qed

text \<open>
  C21: The two versions of \<open>CloseFrom\<close> are equivalent: where the listing is complete and no \<open>close\<close> is refused, the
  version for systems without \<open>close_range\<close> succeeds and leaves the same descriptors open, its own one excluded.
\<close>

theorem close_from_equiv:
  assumes "fds_ok fds" "0 \<le> dfd" "lists_all names dfd fds"
  shows "CloseFrom_listed minfd (Some (dfd, names)) (\<lambda>_. False) (fds(dfd \<mapsto> f)) = CloseFrom_range minfd fds"
proof -
  have d: "(\<exists>n \<in> set names. n \<noteq> ''.'' \<and> n \<noteq> ''..'' \<and> fd = int (parse_nat n)) \<longleftrightarrow> fd \<in> insert dfd (dom fds)" for fd
  proof
    assume "\<exists>n \<in> set names. n \<noteq> ''.'' \<and> n \<noteq> ''..'' \<and> fd = int (parse_nat n)"
    then obtain x where "x \<in> insert dfd (dom fds)" "fd = int (parse_nat (to_string x))"
      using assms(3) by (auto simp: lists_all_def)
    moreover from this have "0 \<le> x" using assms(1,2) by (auto simp: fds_ok_def)
    ultimately show "fd \<in> insert dfd (dom fds)" by (simp add: to_string_def)
  next
    assume fd: "fd \<in> insert dfd (dom fds)"
    then have p: "0 \<le> fd" using assms(1,2) by (auto simp: fds_ok_def)
    have e: "fd = int (parse_nat (to_string fd))" using p by (simp add: to_string_def)
    have m: "to_string fd \<in> set names" using fd assms(3) by (auto simp: lists_all_def)
    note t = to_string_not_dot [OF p]
    show "\<exists>n \<in> set names. n \<noteq> ''.'' \<and> n \<noteq> ''..'' \<and> fd = int (parse_nat n)"
      by (rule bexI [OF _ m], rule conjI [OF conjunct1 [OF t] conjI [OF conjunct2 [OF t] e]])
  qed
  have n: "fds dfd = None" using assms(3) by (simp add: lists_all_def)
  let ?left = "\<lambda>fd. if fd \<ge> minfd \<and> fd \<noteq> dfd \<and> fd \<in> insert dfd (dom fds) then None else (fds(dfd \<mapsto> f)) fd"
  have "(?left(dfd := None)) x = (fds |` {..<minfd}) x" for x
    using n by (cases "x = dfd"; cases "fds x") (simp_all add: restrict_map_def domIff)
  then have "?left(dfd := None) = fds |` {..<minfd}" by blast
  moreover have "close_listed minfd dfd (\<lambda>_. False) names (fds(dfd \<mapsto> f)) = (True, ?left)"
    by (simp only: close_listed_open d)
  ultimately show ?thesis by (simp only: CloseFrom_listed_def CloseFrom_range_def option.case prod.case if_True)
qed

theorem close_from_equiv_witness:
  "CloseFrom_listed 2 (Some (3, [''.'', ''..'', ''0'', ''7'', ''3'', ''2''])) (\<lambda>_. False)
     ([0 \<mapsto> ''in'', 2 \<mapsto> ''err'', 7 \<mapsto> ''pipe''](3 \<mapsto> ''dir'')) = CloseFrom_range 2 [0 \<mapsto> ''in'', 2 \<mapsto> ''err'', 7 \<mapsto> ''pipe'']"
proof (rule close_from_equiv)
  have s: "to_string 0 = ''0''" "to_string 2 = ''2''" "to_string 3 = ''3''" "to_string 7 = ''7''" by code_simp+
  show "fds_ok [0 \<mapsto> ''in'', 2 \<mapsto> ''err'', 7 \<mapsto> ''pipe'']" by (simp add: fds_ok_def)
  show "lists_all [''.'', ''..'', ''0'', ''7'', ''3'', ''2''] 3 [0 \<mapsto> ''in'', 2 \<mapsto> ''err'', 7 \<mapsto> ''pipe'']"
    by (auto simp: lists_all_def s)
qed simp

text \<open>The process that moves bytes holds the two ends it moves between, and no other descriptor, so that it keeps no pipe open.\<close>

lemma splice_ends:
  assumes "fds_ok fds" "fds r = Some a" "fds w = Some b" "w \<noteq> 0"
  shows "splice_fds r w fds = [0 \<mapsto> a, 1 \<mapsto> b]"
proof
  fix x
  have "fds x = None" if "x < 0" using assms(1) that by (force simp: fds_ok_def dom_def)
  then show "splice_fds r w fds x = [0 \<mapsto> a, 1 \<mapsto> b] x"
    using assms(2-4) by (auto simp: splice_fds_def CloseFrom_range_def dup2_def restrict_map_def)
qed

text \<open>If what is written to is descriptor 0, it is overwritten before it is duplicated.\<close>

lemma splice_overwrites: "splice_fds 5 0 [0 \<mapsto> ''out'', 5 \<mapsto> ''in''] = [0 \<mapsto> ''in'', 1 \<mapsto> ''in'']"
  by (auto simp: splice_fds_def CloseFrom_range_def dup2_def restrict_map_def fun_eq_iff)

section \<open>The lock of the data directory\<close>

text \<open>
  The write lock the system keeps for each file, with the process that holds it until it ends; \<open>opened\<close> is
  whether \<open>open\<close> succeeds. A request of the holder is granted again.
\<close>

type_synonym lock_table = "path \<rightharpoonup> int"

definition LockFile :: "Config \<Rightarrow> bool \<Rightarrow> int \<Rightarrow> lock_table \<Rightarrow> bool \<times> lock_table" where
  "LockFile cfg opened pid locks =
     (let lock_file = path_div (kTestdataRoot cfg) ''lock''
      in if \<not> opened then (False, locks)
         else case locks lock_file of
                None \<Rightarrow> (True, locks(lock_file \<mapsto> pid))
              | Some p \<Rightarrow> if p = pid then (True, locks) else (False, locks))"

lemma LockFile_exclusive:
  assumes "LockFile cfg o1 p locks = (True, locks1)" "p \<noteq> q"
  shows "LockFile cfg o2 q locks1 = (False, locks1)"
  using assms by (auto simp: LockFile_def Let_def split: if_split_asm option.splits)

section \<open>Names for the log\<close>

fun TaskTypeName :: "TaskType \<Rightarrow> string" where
  "TaskTypeName COMPILE = ''COMPILE''" | "TaskTypeName EXECUTE = ''EXECUTE''"
| "TaskTypeName SCORING = ''SCORING''" | "TaskTypeName SUMMARY = ''SUMMARY''"

fun CompileSubtaskName :: "CompileSubtask \<Rightarrow> string" where
  "CompileSubtaskName CS_USERPROG = ''USERPROG''" | "CompileSubtaskName CS_SPECJUDGE = ''SPECJUDGE''"
| "CompileSubtaskName CS_SUMMARY = ''SUMMARY''" | "CompileSubtaskName CS_PROBPROG = ''PROBPROG''"

fun SpecjudgeTypeName :: "SpecjudgeType \<Rightarrow> string" where
  "SpecjudgeTypeName NORMAL = ''NORMAL''" | "SpecjudgeTypeName SPECJUDGE_OLD = ''SPECJUDGE_OLD''"
| "SpecjudgeTypeName SPECJUDGE_NEW = ''SPECJUDGE_NEW''" | "SpecjudgeTypeName SPECJUDGE_POLYGON = ''SPECJUDGE_POLYGON''"
| "SpecjudgeTypeName SPECJUDGE_KATTIS = ''SPECJUDGE_KATTIS''" | "SpecjudgeTypeName SKIP = ''SKIP''"

fun InterlibTypeName :: "InterlibType \<Rightarrow> string" where
  "InterlibTypeName Interlib_NONE = ''NONE''" | "InterlibTypeName Interlib_INCLUDE = ''INCLUDE''"

text \<open>No two enumerators of an enum have the same name in the log.\<close>

lemma log_names_inj:
  "TaskTypeName t = TaskTypeName t' \<longleftrightarrow> t = t'" "CompileSubtaskName c = CompileSubtaskName c' \<longleftrightarrow> c = c'"
  "SpecjudgeTypeName s = SpecjudgeTypeName s' \<longleftrightarrow> s = s'" "InterlibTypeName i = InterlibTypeName i' \<longleftrightarrow> i = i'"
proof -
  show "TaskTypeName t = TaskTypeName t' \<longleftrightarrow> t = t'" by (cases t; cases t') simp_all
  show "CompileSubtaskName c = CompileSubtaskName c' \<longleftrightarrow> c = c'" by (cases c; cases c') simp_all
  show "SpecjudgeTypeName s = SpecjudgeTypeName s' \<longleftrightarrow> s = s'" by (cases s; cases s') simp_all
  show "InterlibTypeName i = InterlibTypeName i' \<longleftrightarrow> i = i'" by (cases i; cases i') simp_all
qed

end
