(* ===== verification/Spec2Isabelle.thy ===== *)
theory Spec2Isabelle
  imports Sample Options ScoreText Verdicts DefaultScoring Cpuset Submitted Connection Prepared Download Startup
    Reports Confined Collected Process
begin

text \<open>
  A model of the judge of TIOJ: the daemon that takes submissions from the server, compiles, runs and
  scores them in sandboxes, and reports the results, together with its default scoring program and the
  helper program that enters a sandbox. File names are relative to \<open>src/\<close> of the repository.

  How the program works. \<open>src/main.cpp\<close> reads the configuration and the command line and starts the
  threads. The websocket thread hands every message of the server to \<open>OnMessage\<close>; a submission in it is
  parsed, its testdata is brought up to date in the local cache, its sources are written to files, and
  \<open>PushSubmission\<close> puts a graph of tasks into the scheduler (\<open>src/tioj/submission.cpp\<close>): compilations,
  then for each testdata one execution and one scoring per stage, then the summary. The work loop takes
  ready tasks from a priority queue, starts each through the task pool (\<open>src/tioj/tasks.cpp\<close>), which
  forks a child with a user id and a CPU from its pools; the child builds the options of the sandbox and
  sends them to the helper. When a task ends its \<open>Finalize\<close> function sets verdicts, scores and
  cancelled groups, and the edges of the task are removed from the graph. The reporter turns results into requests
  to the server, which a loop of their own sends, rate-limited and repeated after a lost connection.

  The scheduler. \<open>Data\<close> holds the records \<open>Submission\<close>, \<open>SubmissionResult\<close>, \<open>TestdataResult\<close> with the members
  of the structs of \<open>include/tioj/submission.h\<close>; \<open>Enums\<close> the enumerations and their tables; \<open>TaskGraph\<close> the
  globals \<open>task_list\<close>, \<open>submission_list\<close>, \<open>task_queue\<close> and the maps of ids as one record \<open>JState\<close>, a map of
  the program being a map here, and \<open>Link\<close>, \<open>InsertTaskList\<close>, \<open>Remove\<close>. The priority queue is the list of its
  elements; the element popped is any that the order \<open>te_less\<close> allows (\<open>is_top\<close>). \<open>Layers\<close> has the order in
  which \<open>PushSubmission\<close> arranges testdata, \<open>Push\<close> the graph; \<open>Compile\<close>, \<open>Execute\<close>, \<open>Scoring\<close>, \<open>Summary\<close>
  and \<open>Specjudge\<close> the \<open>Setup\<close> and \<open>Finalize\<close> functions and the readers of results, on the streams of
  \<open>Streams\<close> and the arithmetic of \<open>LongDouble\<close> and \<open>Score\<close>; \<open>Dispatch\<close> the functions around them. \<open>GraphInv\<close>,
  \<open>PushInv\<close>, \<open>PushOk\<close>, \<open>Handlers\<close>, \<open>SchedInv\<close> and \<open>Rounds\<close> prove the invariants; \<open>Verdicts\<close> and \<open>ScoreText\<close>
  say what results mean.

  The task pool and the sandbox. \<open>Tasks\<close> has the parent side (\<open>TState\<close>: the pools, running and finished
  tasks), \<open>Options\<close> the child side up to the sandbox's options, \<open>Bytes\<close> and \<open>Sandbox\<close> the serialization of the
  options, their way through a pipe and the context the helper gives to the sandbox library; \<open>Paths\<close> and
  \<open>Boxes\<close> the names of all files and that no two tasks share a box; \<open>Files\<close> the file operations of
  \<open>src/tioj/utils.cpp\<close>; \<open>Process\<close> the descriptors of processes and the lock of the data
  directory. \<open>WorkLoop\<close> and \<open>Judge\<close> put scheduler and pool together: a step relation \<open>judge_step\<close> on the worker's position and the state, in which \<open>PushSubmission\<close> can come whenever the
  worker has released the lock, with the invariant \<open>winv\<close>; \<open>Sample\<close> is a concrete judge for the witnesses.

  The server side. \<open>Base64\<close>, \<open>Intake\<close> and \<open>Submitted\<close>: from a message to \<open>PushSubmission\<close>. \<open>TdCache\<close>: pool, links
  and table of the testdata. \<open>Requests\<close>: the outgoing messages, with the sending loop and the connection as
  events in any order; \<open>Connection\<close>: the client of the websocket, whose calls and callbacks are these events.
  \<open>ServerLoop\<close>: reports, \<open>OnMessage\<close>, the work loop of the server thread. \<open>Download\<close>: repeated HTTP requests and
  the download of plain and compressed files. \<open>Startup\<close> and \<open>Cpuset\<close>: \<open>src/main.cpp\<close> and the parser of CPU
  lists. \<open>OutputCompare\<close> and \<open>DefaultScoring\<close>: \<open>tools/default-scoring.cpp\<close>.

  What is proved. Of the whole judge, in every reachable state and every interleaving with pushes: no
  step reads outside a vector or map, dereferences an end iterator or takes from an empty pool
  (\<open>judge_safe\<close>); without further pushes the loop ends with every task and submission finalized (\<open>drain\<close>);
  prerequisites, exclusive user ids and CPUs, and the bound on running tasks (\<open>prerequisites_done\<close>,
  \<open>uid_exclusive\<close>, \<open>cpu_exclusive\<close>, \<open>parallel_bound\<close>); every submission that ends is reported once, with a verdict
  unless it was cancelled (\<open>ends_reported_once\<close>). Of the files: the handlers of a submission stay in its own
  directories (\<open>handlers_confined\<close>), what they prepare for a task is what the task is to get (\<open>execution_prepared\<close>,
  \<open>scoring_prepared\<close>), and what they keep of an execution does not follow links (\<open>execution_collected\<close>)
  and is what the judge sees (\<open>judged_output\<close>). Of the server side: what is taken from a message satisfies
  what the scheduler relies on (\<open>intake_is_push\<close>), and the files a submission is judged by are those it names
  (\<open>dealt_files\<close>, \<open>testdata_current\<close>), while no later message changes the testdata of
  the problem; what the queue of requests loses and keeps
  (\<open>requests_paired\<close>, \<open>drain_outcome\<close>, \<open>connection_events\<close>); the bound of the queue (\<open>queue_bound\<close>). Of the
  single parts: functional descriptions, round trips and bounds, each stated at its theorem.

  Conventions. An exception, a failed assertion or undefined behaviour of the code is a value of \<open>error\<close>
  (\<open>Prelude\<close>); functions that can meet one return \<open>error + 'a\<close>. The state of the program is passed and
  returned. System calls, clocks and library calls are arguments (\<open>Env\<close>, \<open>DealEnv\<close> and others): what
  they return on this occasion. Files that handlers create, move or remove are recorded as effects in
  order (\<open>events\<close>, \<open>fs_log\<close>); \<open>Files\<close> gives what the operations do to a tree of files, and \<open>Prepared\<close>, \<open>Collected\<close> and
  \<open>Confined\<close> run recorded calls on it. \<open>Effects\<close> says what the handlers record and report, and \<open>Reports\<close> what that
  means for the server. Integers that the code bounds by its own checks are \<open>int\<close>; bytes and their
  arithmetic are words. A reading or writing loop gets the list of what the system calls return.

  Fuel. \<open>inner_loop\<close> runs a number of rounds: twice the number of tasks are enough (\<open>drain\<close>), as every round
  dispatches a task or finalizes one. Loops whose end depends on their input are partial functions with
  their termination proved (\<open>cpuset_ends\<close> for the parser of CPU lists, \<open>compressed_download\<close> for the
  decompression, given that the library makes progress).

  Not modelled. The logger; the tests; the libraries for JSON text, HTTP, websockets, zstd, SQLite, the configuration
  file and the sandbox itself (arguments of the definitions); the mutex map \<open>td_file_lock\<close> and the other
  locks, beyond what can interleave with what; the atomic \<open>receiving_submission_id\<close>, an argument here. Times of the steady
  clock are whole nanoseconds where the code converts to \<open>double\<close> seconds, and subnormal long doubles
  are not distinguished. A number that is no enumerator, from a message of the server, ends the
  intake with \<open>NoEnumerator\<close>: the program would carry the number on.
\<close>

section \<open>The judge as a whole\<close>

















text \<open>
  A push is refused exactly when a bound is given and the list already holds that many
  submissions.
\<close>

theorem push_refused_iff_full:
  assumes "push_pre sb st"
  shows "(\<exists>st'. PushSubmission sb k st = Inr (False, st')) \<longleftrightarrow> 0 < k \<and> k \<le> CurrentSubmissionQueueSize st"
  by (rule push_refused [OF assms])

theorem push_refused_iff_full_witness:
  "(\<exists>st'. PushSubmission sample_submission 1 JState_init = Inr (False, st')) \<longleftrightarrow>
     0 < (1::nat) \<and> 1 \<le> CurrentSubmissionQueueSize JState_init"
  by (rule push_refused_iff_full [OF sample_pre])

section \<open>Submissions and sandboxes\<close>

lemma graph_ok_acyclic:
  assumes "graph_ok B"
  shows "acyclic (edge_rel B)"
proof (rule acyclicI_order [where f = "\<lambda>k. - rank (te_task (the (B k)))"])
  fix a b assume "(a, b) \<in> edge_rel B"
  then obtain t where "B a = Some t" "b \<in> set (edges t)" by (auto simp: edge_rel_def)
  moreover from graph_okD(3) [OF assms this] obtain u where "B b = Some u" "rank (te_task t) < rank (te_task u)"
    by (auto simp: edge_ok_def)
  ultimately show "- rank (te_task (the (B b))) < - rank (te_task (the (B a)))" by simp
qed

text \<open>
  C33: The graph built for a submission: it always exists, its tasks are inserted once each, it has no cycle,
  the counters are the numbers of edges into a task, and whatever has to come before a task by its kind,
  testdata, stage and program has a path to it.
\<close>

theorem task_graph:
  assumes "push_ok sb" "sorted (problem_prog_stages sb)"
  shows "\<exists>ks B c. build_graph sb iid c0 = Inr (ks, B, c) \<and> distinct ks \<and> set ks = dom B \<and>
    acyclic (edge_rel B) \<and>
    {(k, t). B k = Some t} \<subseteq> {(k, t). te_id t = k \<and> te_submission t = iid \<and> indeg t = int (in_count B k)} \<and>
    {(k, l). \<exists>a b oa ob. entry_at B k a oa \<and> entry_at B l b ob \<and> must_precede (problem_prog_stages sb) a b}
      \<subseteq> (edge_rel B)\<^sup>+"
proof -
  obtain B where b: "build_graph sb iid c0 = Inr (insert_order sb c0, B, push_end sb c0)"
    and p: "pushed sb iid c0 (wanted_compiles sb) B"
    using build_graph_ok [OF assms(1)] by blast
  have g: "built iid (priority sb) c0 B (push_end sb c0)"
    using p by (simp add: pushed_def Let_def push_end_def)
  then have gr: "graph_ok B" and d: "dom B = {c0 ..< push_end sb c0}" by (simp_all add: built_def)
  have "{(k, l). \<exists>a b oa ob. entry_at B k a oa \<and> entry_at B l b ob \<and> must_precede (problem_prog_stages sb) a b}
      \<subseteq> (edge_rel B)\<^sup>+"
    using pushed_order [OF p assms wanted_compile_stage] by blast
  moreover have "{(k, t). B k = Some t} \<subseteq> {(k, t). te_id t = k \<and> te_submission t = iid \<and> indeg t = int (in_count B k)}"
    using graph_okD(1,2) [OF gr] g by (auto simp: built_def)
  moreover have "1 \<le> stages sb" using assms(1) by (simp add: push_ok_def)
  ultimately show ?thesis
    using b graph_ok_acyclic [OF gr] insert_order_ok [of sb c0] d by blast
qed

theorem task_graph_witness:
  "\<exists>ks B c. build_graph (clamp_stages sample_submission) 7 0 = Inr (ks, B, c) \<and> distinct ks \<and> set ks = dom B \<and>
    acyclic (edge_rel B) \<and>
    {(k, t). B k = Some t} \<subseteq> {(k, t). te_id t = k \<and> te_submission t = 7 \<and> indeg t = int (in_count B k)} \<and>
    {(k, l). \<exists>a b oa ob. entry_at B k a oa \<and> entry_at B l b ob \<and>
      must_precede (problem_prog_stages (clamp_stages sample_submission)) a b} \<subseteq> (edge_rel B)\<^sup>+"
  by (rule task_graph)
    (use sample_pre in \<open>simp_all add: push_pre_def Let_def sample_submission_def Submission_init_def clamp_stages_def\<close>)

text \<open>
  The sandbox accepts every running task: its user id is one the serializer sends, so whatever options
  the task's child has made of it, the message is not refused for the user.
\<close>

theorem running_uids_accepted:
  assumes "reachable judge_init (judge_step cfg) (pc, w)" "config_ok cfg"
  shows "uid_of ` set (running (tstate w)) \<subseteq>
    {uid. in_uid_pool uid \<and> Serialize (RunCompile cfg ce sb task uid cpuid) \<noteq> [] \<and>
      Serialize (RunScoring cfg ce sb task uid cpuid) \<noteq> [] \<and> Serialize (RunSummary cfg ce sb uid cpuid) \<noteq> []}"
proof -
  note U = uids_exclusive [OF reachable_winv [OF assms]]
  have "in_uid_pool (uid_of x)" if "x \<in> set (running (tstate w))" for x
  proof -
    have "uid_of x \<in># uids_held (tstate w)" using that by (simp add: uids_held_def)
    then show ?thesis using U(2) by (fastforce simp: in_uid_pool_def kUidBase_def kUidPoolSize_def)
  qed
  then show ?thesis using Serialize_nonempty task_uids by auto
qed

theorem running_uids_accepted_witness:
  "uid_of ` set (running (tstate sample_world)) \<subseteq>
    {uid. in_uid_pool uid \<and> Serialize (RunCompile sample_config sample_child sample_submission sample_execute uid (-1)) \<noteq> [] \<and>
      Serialize (RunScoring sample_config sample_child sample_submission sample_execute uid (-1)) \<noteq> [] \<and>
      Serialize (RunSummary sample_config sample_child sample_submission uid (-1)) \<noteq> []}"
  by (rule running_uids_accepted [OF sample_reachable sample_config_ok])

end
